(* ===== verification/Prelude.thy ===== *)
theory Prelude
  imports Complex_Main "HOL-Library.List_Lexorder" "HOL-Library.Product_Lexorder"
begin

text \<open>
  What every component of the development shares: the collections of rules, the model of Rust's
  \<open>Result\<close> and of its \<open>?\<close> operator, and the list operations of the Rust standard library the
  sources use (\<open>position\<close>, \<open>insert\<close>, \<open>remove\<close>, \<open>min_by\<close>, \<open>max_by\<close>).
  Milliseconds and seconds of \<open>i64\<close> clocks are \<open>int\<close>; sizes and counters of \<open>usize\<close> are \<open>nat\<close>.
\<close>

section \<open>Collections of rules\<close>

named_theorems rust_simps \<open>equations of the Rust standard library operations\<close>
named_theorems keeps_intros \<open>rules by which an effectful operation keeps an invariant\<close>
named_theorems wf_intros \<open>an operation of a component keeps the component's invariant\<close>

section \<open>Results\<close>

text \<open>\<open>Result<T, E>\<close> is \<open>'e + 'a\<close>; \<open>and_then\<close> is the \<open>?\<close> operator.\<close>

definition and_then :: "'e + 'a \<Rightarrow> ('a \<Rightarrow> 'e + 'b) \<Rightarrow> 'e + 'b" where
  "and_then r k = (case r of Inl e \<Rightarrow> Inl e | Inr x \<Rightarrow> k x)"

definition ok_or :: "'e \<Rightarrow> 'a option \<Rightarrow> 'e + 'a" where
  "ok_or e x = (case x of None \<Rightarrow> Inl e | Some y \<Rightarrow> Inr y)"

lemma and_then_Inl [simp]: "and_then (Inl e) k = Inl e"
  by (simp add: and_then_def)

lemma and_then_Inr [simp]: "and_then (Inr x) k = k x"
  by (simp add: and_then_def)

lemma and_then_eq_Inr: "and_then r k = Inr y \<longleftrightarrow> (\<exists>x. r = Inr x \<and> k x = Inr y)"
  by (cases r) auto

lemma and_then_eq_Inl: "and_then r k = Inl e \<longleftrightarrow> r = Inl e \<or> (\<exists>x. r = Inr x \<and> k x = Inl e)"
  by (cases r) auto

lemma ok_or_None [simp]: "ok_or e None = Inl e"
  by (simp add: ok_or_def)

lemma ok_or_Some [simp]: "ok_or e (Some x) = Inr x"
  by (simp add: ok_or_def)

lemma ok_or_eq_Inr: "ok_or e x = Inr y \<longleftrightarrow> x = Some y"
  by (cases x) auto

section \<open>Lists\<close>

text \<open>\<open>slice.iter().position(p)\<close>: the index of the first element that satisfies the predicate.\<close>

fun position :: "('a \<Rightarrow> bool) \<Rightarrow> 'a list \<Rightarrow> nat option" where
  "position P [] = None"
| "position P (x # xs) = (if P x then Some 0 else map_option Suc (position P xs))"

text \<open>\<open>Vec::insert\<close> (which panics past the end) and \<open>Vec::remove\<close>, at an index in range.\<close>

definition insert_at :: "nat \<Rightarrow> 'a \<Rightarrow> 'a list \<Rightarrow> 'a list" where
  "insert_at i x xs = take i xs @ x # drop i xs"

definition remove_at :: "nat \<Rightarrow> 'a list \<Rightarrow> 'a list" where
  "remove_at i xs = take i xs @ drop (Suc i) xs"

text \<open>
  \<open>Iterator::min_by\<close> and \<open>max_by\<close> with a strict comparison: of several least elements the first
  is returned, of several greatest the last.
\<close>

fun min_by :: "('a \<Rightarrow> 'a \<Rightarrow> bool) \<Rightarrow> 'a list \<Rightarrow> 'a option" where
  "min_by lt [] = None"
| "min_by lt (x # xs) =
     (case min_by lt xs of None \<Rightarrow> Some x | Some y \<Rightarrow> if lt y x then Some y else Some x)"

fun max_by :: "('a \<Rightarrow> 'a \<Rightarrow> bool) \<Rightarrow> 'a list \<Rightarrow> 'a option" where
  "max_by lt [] = None"
| "max_by lt (x # xs) =
     (case max_by lt xs of None \<Rightarrow> Some x | Some y \<Rightarrow> if lt y x then Some x else Some y)"

text \<open>A mutation of the first element that satisfies a predicate (\<open>iter_mut().find(p)\<close>).\<close>

fun update_first :: "('a \<Rightarrow> bool) \<Rightarrow> ('a \<Rightarrow> 'a) \<Rightarrow> 'a list \<Rightarrow> 'a list" where
  "update_first P f [] = []"
| "update_first P f (x # xs) = (if P x then f x # xs else x # update_first P f xs)"

text \<open>\<open>list.drain(..list.len().saturating_sub(max))\<close>: the newest \<open>max\<close> entries stay.\<close>

definition trim_front :: "nat \<Rightarrow> 'a list \<Rightarrow> 'a list" where
  "trim_front m xs = drop (length xs - m) xs"

lemma position_None [simp]: "position P xs = None \<longleftrightarrow> (\<forall>x \<in> set xs. \<not> P x)"
  by (induction xs) auto

lemma position_Some:
  "position P xs = Some i \<longleftrightarrow> i < length xs \<and> P (xs ! i) \<and> (\<forall>j < i. \<not> P (xs ! j))"
proof (induction xs arbitrary: i)
  case Nil
  then show ?case by simp
next
  case (Cons x xs)
  show ?case
    by (cases i) (auto simp: Cons.IH nth_Cons split: nat.splits)
qed

lemma position_less: "position P xs = Some i \<Longrightarrow> i < length xs"
  by (simp add: position_Some)

lemma insert_at_simps [simp]:
  "insert_at 0 x xs = x # xs"
  "insert_at (Suc i) x (y # ys) = y # insert_at i x ys"
  "insert_at i x [] = [x]"
  by (simp_all add: insert_at_def)

lemma set_insert_at [simp]: "set (insert_at i x xs) = insert x (set xs)"
proof (induction xs arbitrary: i)
  case Nil
  then show ?case by simp
next
  case (Cons y ys)
  then show ?case by (cases i) auto
qed

lemma length_insert_at [simp]: "length (insert_at i x xs) = Suc (length xs)"
  by (simp add: insert_at_def)

lemma length_remove_at [simp]: "i < length xs \<Longrightarrow> length (remove_at i xs) = length xs - 1"
  by (simp add: remove_at_def)

lemma distinct_insert_at [simp]: "distinct (insert_at i x xs) \<longleftrightarrow> x \<notin> set xs \<and> distinct xs"
proof (induction xs arbitrary: i)
  case Nil
  then show ?case by simp
next
  case (Cons y ys)
  then show ?case by (cases i) auto
qed

lemma remove_at_simps [simp]:
  "remove_at 0 (x # xs) = xs"
  "remove_at (Suc i) (x # xs) = x # remove_at i xs"
  by (simp_all add: remove_at_def)

lemma remove_at_filter:
  "distinct xs \<Longrightarrow> i < length xs \<Longrightarrow> remove_at i xs = filter (\<lambda>y. y \<noteq> xs ! i) xs"
proof (induction xs arbitrary: i)
  case Nil
  then show ?case by simp
next
  case (Cons x xs)
  show ?case
  proof (cases i)
    case 0
    have "filter (\<lambda>y. y \<noteq> x) xs = xs"
      using Cons.prems by (intro filter_True) auto
    with 0 show ?thesis by simp
  next
    case (Suc k)
    with Cons.prems have "x \<noteq> xs ! k" and "k < length xs"
      by (auto simp: in_set_conv_nth)
    with Cons Suc show ?thesis by simp
  qed
qed

lemma insert_remove_at:
  "i < length xs \<Longrightarrow> insert_at i (xs ! i) (remove_at i xs) = xs"
  by (simp add: insert_at_def remove_at_def id_take_nth_drop [symmetric])

lemma min_by_None [simp]: "min_by lt xs = None \<longleftrightarrow> xs = []"
  by (cases xs) (auto split: option.splits)

lemma min_by_in: "min_by lt xs = Some x \<Longrightarrow> x \<in> set xs"
  by (induction xs arbitrary: x) (auto split: option.splits if_splits)

lemma max_by_None [simp]: "max_by lt xs = None \<longleftrightarrow> xs = []"
  by (cases xs) (auto split: option.splits)

lemma max_by_in: "max_by lt xs = Some x \<Longrightarrow> x \<in> set xs"
  by (induction xs arbitrary: x) (auto split: option.splits if_splits)

text \<open>Under a linear comparison by a key, what \<open>min_by\<close> returns is least and \<open>max_by\<close> greatest.\<close>

lemma min_by_least:
  fixes f :: "'a \<Rightarrow> 'k::linorder"
  shows "min_by (\<lambda>a b. f a < f b) xs = Some x \<Longrightarrow> y \<in> set xs \<Longrightarrow> f x \<le> f y"
  by (induction xs arbitrary: x y) (force split: option.splits if_splits)+

lemma max_by_greatest:
  fixes f :: "'a \<Rightarrow> 'k::linorder"
  shows "max_by (\<lambda>a b. f a < f b) xs = Some x \<Longrightarrow> y \<in> set xs \<Longrightarrow> f y \<le> f x"
  by (induction xs arbitrary: x y) (force split: option.splits if_splits)+

lemma find_in: "find P xs = Some x \<Longrightarrow> x \<in> set xs \<and> P x"
  by (induction xs) (auto split: if_splits)

lemma length_filter_eq: "length (filter P xs) = length xs \<longleftrightarrow> (\<forall>x \<in> set xs. P x)"
proof
  assume len: "length (filter P xs) = length xs"
  show "\<forall>x \<in> set xs. P x"
  proof
    fix x assume "x \<in> set xs"
    then show "P x"
      using len length_filter_less [of x xs P] by auto
  qed
qed simp

lemma find_append: "find P (xs @ ys) = (case find P xs of None \<Rightarrow> find P ys | Some x \<Rightarrow> Some x)"
  by (induction xs) auto

lemma case_option_same: "(case x of None \<Rightarrow> None | Some y \<Rightarrow> Some y) = x"
  by (cases x) simp_all

lemma distinct_map_filter: "distinct (map f xs) \<Longrightarrow> distinct (map f (filter P xs))"
  by (induction xs) auto

lemma map_update_first:
  "(\<And>x. g (f x) = g x) \<Longrightarrow> map g (update_first P f xs) = map g xs"
  by (induction xs) auto

lemma length_update_first [simp]: "length (update_first P f xs) = length xs"
  by (induction xs) auto

lemma length_trim_front [simp]: "length (trim_front m xs) \<le> m"
  by (simp add: trim_front_def)

lemma set_trim_front: "set (trim_front m xs) \<subseteq> set xs"
  by (simp add: trim_front_def set_drop_subset)

lemma distinct_trim_front: "distinct xs \<Longrightarrow> distinct (trim_front m xs)"
  by (simp add: trim_front_def)

lemma trim_front_id: "length xs \<le> m \<Longrightarrow> trim_front m xs = xs"
  by (simp add: trim_front_def)

lemma trim_front_snoc_mem: "0 < m \<Longrightarrow> x \<in> set (trim_front m (xs @ [x]))"
  by (simp add: trim_front_def)

lemma map_trim_front: "map f (trim_front m xs) = trim_front m (map f xs)"
  by (simp add: trim_front_def drop_map)

section \<open>Encodings\<close>

text \<open>What a pair of a printer and a parser promises: every valid value is read back as it was
  written. A canonical pair accepts nothing else.\<close>

locale round_trip =
  fixes encode :: "'a \<Rightarrow> 'b" and decode :: "'b \<Rightarrow> 'a option" and valid :: "'a \<Rightarrow> bool"
  assumes decode_encode: "valid x \<Longrightarrow> decode (encode x) = Some x"
begin

lemma encode_inject: "valid x \<Longrightarrow> valid y \<Longrightarrow> encode x = encode y \<longleftrightarrow> x = y"
  by (metis decode_encode option.inject)

end

locale canonical_round_trip = round_trip +
  assumes decode_sound: "decode b = Some x \<Longrightarrow> valid x \<and> encode x = b"
begin

lemma decode_iff: "decode b = Some x \<longleftrightarrow> valid x \<and> encode x = b"
  using decode_encode decode_sound by blast

lemma decode_inject: "decode b = Some x \<Longrightarrow> decode c = Some x \<Longrightarrow> b = c"
  using decode_sound by blast

end

end
