(* ===== verification/Rust_Str.thy ===== *)
theory Rust_Str
  imports Prelude
begin

text \<open>
  Rust's \<open>str\<close>: a list of Unicode scalar values. \<open>lit\<close> writes an ASCII literal, \<open>str_len\<close> is
  \<open>str::len\<close> (UTF-8 bytes), the order of strings is the lexicographic order of \<open>List_Lexorder\<close>
  (UTF-8 keeps the order of code points, so \<open>Ord for str\<close> is the same order). The character
  classes are those of \<open>char::is_whitespace\<close> (Unicode White\_Space) and \<open>char::is_control\<close> (Cc).
  Decimal parsing and printing of unsigned integers come with their round trips.
\<close>

section \<open>Characters and strings\<close>

type_synonym rchar = nat
type_synonym str = "rchar list"
type_synonym uuid = nat

definition lit :: "string \<Rightarrow> str" where
  "lit s = map of_char s"

definition utf8_len :: "rchar \<Rightarrow> nat" where
  "utf8_len c = (if c < 0x80 then 1 else if c < 0x800 then 2 else if c < 0x10000 then 3 else 4)"

definition str_len :: "str \<Rightarrow> nat" where
  "str_len s = sum_list (map utf8_len s)"

definition is_whitespace :: "rchar \<Rightarrow> bool" where
  "is_whitespace c \<longleftrightarrow>
     (9 \<le> c \<and> c \<le> 13) \<or> c = 0x20 \<or> c = 0x85 \<or> c = 0xA0 \<or> c = 0x1680 \<or>
     (0x2000 \<le> c \<and> c \<le> 0x200A) \<or> c = 0x2028 \<or> c = 0x2029 \<or> c = 0x202F \<or> c = 0x205F \<or>
     c = 0x3000"

definition is_control :: "rchar \<Rightarrow> bool" where
  "is_control c \<longleftrightarrow> c < 0x20 \<or> (0x7F \<le> c \<and> c \<le> 0x9F)"

definition is_ascii_digit :: "rchar \<Rightarrow> bool" where
  "is_ascii_digit c \<longleftrightarrow> 48 \<le> c \<and> c \<le> 57"

definition is_ascii_lowercase :: "rchar \<Rightarrow> bool" where
  "is_ascii_lowercase c \<longleftrightarrow> 97 \<le> c \<and> c \<le> 122"

definition is_ascii_uppercase :: "rchar \<Rightarrow> bool" where
  "is_ascii_uppercase c \<longleftrightarrow> 65 \<le> c \<and> c \<le> 90"

definition is_ascii_alphabetic :: "rchar \<Rightarrow> bool" where
  "is_ascii_alphabetic c \<longleftrightarrow> is_ascii_lowercase c \<or> is_ascii_uppercase c"

definition is_ascii_alphanumeric :: "rchar \<Rightarrow> bool" where
  "is_ascii_alphanumeric c \<longleftrightarrow> is_ascii_alphabetic c \<or> is_ascii_digit c"

definition is_ascii_hexdigit :: "rchar \<Rightarrow> bool" where
  "is_ascii_hexdigit c \<longleftrightarrow> is_ascii_digit c \<or> (97 \<le> c \<and> c \<le> 102) \<or> (65 \<le> c \<and> c \<le> 70)"

definition to_ascii_uppercase :: "rchar \<Rightarrow> rchar" where
  "to_ascii_uppercase c = (if is_ascii_lowercase c then c - 32 else c)"

definition to_ascii_lowercase :: "rchar \<Rightarrow> rchar" where
  "to_ascii_lowercase c = (if is_ascii_uppercase c then c + 32 else c)"

definition eq_ignore_ascii_case :: "str \<Rightarrow> str \<Rightarrow> bool" where
  "eq_ignore_ascii_case s t \<longleftrightarrow> map to_ascii_lowercase s = map to_ascii_lowercase t"

definition trim_start :: "str \<Rightarrow> str" where
  "trim_start s = dropWhile is_whitespace s"

definition trim_end :: "str \<Rightarrow> str" where
  "trim_end s = rev (dropWhile is_whitespace (rev s))"

definition trim :: "str \<Rightarrow> str" where
  "trim s = trim_end (trim_start s)"

definition starts_with :: "str \<Rightarrow> str \<Rightarrow> bool" where
  "starts_with s p \<longleftrightarrow> take (length p) s = p"

definition ends_with :: "str \<Rightarrow> str \<Rightarrow> bool" where
  "ends_with s p \<longleftrightarrow> starts_with (rev s) (rev p)"

definition strip_prefix :: "str \<Rightarrow> str \<Rightarrow> str option" where
  "strip_prefix s p = (if starts_with s p then Some (drop (length p) s) else None)"

definition strip_suffix :: "str \<Rightarrow> str \<Rightarrow> str option" where
  "strip_suffix s p = (if ends_with s p then Some (take (length s - length p) s) else None)"

text \<open>\<open>str::split_once\<close> on a character: the text before and after its first occurrence.\<close>

definition split_once :: "rchar \<Rightarrow> str \<Rightarrow> (str \<times> str) option" where
  "split_once c s =
     (if c \<in> set s then Some (takeWhile (\<lambda>x. x \<noteq> c) s, tl (dropWhile (\<lambda>x. x \<noteq> c) s)) else None)"

text \<open>\<open>str::split_whitespace\<close>: the maximal runs without white space.\<close>

fun words_acc :: "str \<Rightarrow> str \<Rightarrow> str list" where
  "words_acc w [] = (if w = [] then [] else [rev w])"
| "words_acc w (c # cs) =
     (if is_whitespace c then (if w = [] then words_acc [] cs else rev w # words_acc [] cs)
      else words_acc (c # w) cs)"

definition split_whitespace :: "str \<Rightarrow> str list" where
  "split_whitespace s = words_acc [] s"

fun join_with :: "str \<Rightarrow> str list \<Rightarrow> str" where
  "join_with sep [] = []"
| "join_with sep [w] = w"
| "join_with sep (w # ws) = w @ sep @ join_with sep ws"

text \<open>\<open>str::split\<close> on a character: the pieces between its occurrences.\<close>

fun split_at :: "rchar \<Rightarrow> str \<Rightarrow> str list" where
  "split_at c [] = [[]]"
| "split_at c (x # s) =
     (if x = c then [] # split_at c s
      else case split_at c s of p # ps \<Rightarrow> (x # p) # ps | [] \<Rightarrow> [[x]])"

text \<open>\<open>str::find\<close> on a text: what lies before and after its first occurrence.\<close>

fun split_text :: "str \<Rightarrow> str \<Rightarrow> (str \<times> str) option" where
  "split_text p [] = (if p = [] then Some ([], []) else None)"
| "split_text p (c # cs) =
     (case strip_prefix (c # cs) p of
        Some r \<Rightarrow> Some ([], r)
      | None \<Rightarrow> map_option (\<lambda>(a, b). (c # a, b)) (split_text p cs))"

definition contains_text :: "str \<Rightarrow> str \<Rightarrow> bool" where
  "contains_text s t \<longleftrightarrow> (\<exists>i \<le> length s. starts_with (drop i s) t)"

text \<open>\<open>value.get(..n)\<close> and \<open>&value[n..]\<close>: the first \<open>n\<close> bytes, if they end at a character boundary.\<close>

fun split_bytes :: "nat \<Rightarrow> str \<Rightarrow> (str \<times> str) option" where
  "split_bytes n s =
     (if n = 0 then Some ([], s)
      else case s of
        [] \<Rightarrow> None
      | c # s' \<Rightarrow>
          if utf8_len c \<le> n
          then map_option (\<lambda>(head, rest). (c # head, rest)) (split_bytes (n - utf8_len c) s')
          else None)"

declare split_bytes.simps [simp del]

section \<open>Facts about strings\<close>

lemma length_le_str_len: "length s \<le> str_len s"
  by (induction s) (auto simp: str_len_def utf8_len_def)

lemma str_len_ascii: "\<forall>c \<in> set s. c < 128 \<Longrightarrow> str_len s = length s"
  by (induction s) (auto simp: str_len_def utf8_len_def)

lemma str_len_append [simp]: "str_len (s @ t) = str_len s + str_len t"
  by (simp add: str_len_def)

lemma strip_prefix_append [simp]: "strip_prefix (p @ s) p = Some s"
  by (simp add: strip_prefix_def starts_with_def)

lemma strip_prefix_Some: "strip_prefix s p = Some r \<longleftrightarrow> s = p @ r"
  by (auto simp: strip_prefix_def starts_with_def split: if_splits)
    (metis append_take_drop_id)

lemma split_once_Some:
  "split_once c s = Some (a, b) \<longleftrightarrow> s = a @ c # b \<and> c \<notin> set a"
proof
  assume "split_once c s = Some (a, b)"
  then have "c \<in> set s" and a: "a = takeWhile (\<lambda>x. x \<noteq> c) s"
    and b: "b = tl (dropWhile (\<lambda>x. x \<noteq> c) s)"
    by (auto simp: split_once_def split: if_splits)
  from \<open>c \<in> set s\<close> have ne: "dropWhile (\<lambda>x. x \<noteq> c) s \<noteq> []"
    by (auto simp: dropWhile_eq_Nil_conv)
  then have "hd (dropWhile (\<lambda>x. x \<noteq> c) s) = c"
    by (metis (mono_tags, lifting) hd_dropWhile)
  with ne b have "dropWhile (\<lambda>x. x \<noteq> c) s = c # b"
    by (metis list.collapse)
  moreover have "s = a @ dropWhile (\<lambda>x. x \<noteq> c) s"
    using a by simp
  moreover have "c \<notin> set a"
    using a by (auto dest: set_takeWhileD)
  ultimately show "s = a @ c # b \<and> c \<notin> set a"
    by simp
next
  assume s: "s = a @ c # b \<and> c \<notin> set a"
  then have "\<And>x. x \<in> set a \<Longrightarrow> x \<noteq> c"
    by auto
  with s show "split_once c s = Some (a, b)"
    by (auto simp: split_once_def takeWhile_append2 dropWhile_append2)
qed

lemma split_once_None [simp]: "split_once c s = None \<longleftrightarrow> c \<notin> set s"
  by (simp add: split_once_def)

lemma split_at_nonempty: "split_at c s \<noteq> []"
  by (induction s) (auto split: list.splits)

lemma split_at_append: "split_at c (s @ c # t) = split_at c s @ split_at c t"
  by (induction s) (auto split: list.splits simp: split_at_nonempty)

lemma split_at_none: "c \<notin> set s \<Longrightarrow> split_at c s = [s]"
  by (induction s) auto

lemma starts_with_iff: "starts_with s p \<longleftrightarrow> (\<exists>r. s = p @ r)"
  unfolding starts_with_def by (metis append_eq_conv_conj append_take_drop_id)

lemma split_text_Some: "split_text p s = Some (a, b) \<Longrightarrow> s = a @ p @ b"
  by (induction p s arbitrary: a b rule: split_text.induct)
     (auto split: option.splits if_splits simp: strip_prefix_Some)

text \<open>How a search passes over a part of the text that an occurrence cannot overlap.\<close>

lemma split_text_skip:
  "p \<noteq> [] \<Longrightarrow> hd p \<notin> set v \<Longrightarrow>
   split_text p (v @ y) = map_option (\<lambda>(a, r). (v @ a, r)) (split_text p y)"
proof (induction v)
  case Nil
  then show ?case by (cases "split_text p y") auto
next
  case (Cons c v)
  then have "strip_prefix (c # v @ y) p = None"
    by (cases p) (auto simp: strip_prefix_def starts_with_def)
  then show ?case using Cons by (cases "split_text p y") auto
qed

lemma starts_with_append_cases:
  assumes "starts_with (s @ t) p" "\<not> starts_with s p"
  obtains u r where "p = s @ u" "u \<noteq> []" "t = u @ r"
  using assms by (auto simp: append_eq_append_conv2 starts_with_iff)

lemma strip_prefix_append_stop:
  assumes "p \<noteq> []" "last p \<notin> set k"
  shows "strip_prefix (s @ k) p = map_option (\<lambda>r. r @ k) (strip_prefix s p)"
proof (cases "starts_with s p")
  case True
  then show ?thesis by (auto simp: starts_with_iff)
next
  case False
  have "\<not> starts_with (s @ k) p"
  proof
    assume "starts_with (s @ k) p"
    then obtain u r where "p = s @ u" "u \<noteq> []" "k = u @ r"
      using False by (rule starts_with_append_cases)
    then show False using assms by auto
  qed
  then show ?thesis using False by (simp add: strip_prefix_def)
qed

lemma split_text_stop:
  assumes "p \<noteq> []" "last p \<notin> set k"
  shows "split_text p (s @ k) = map_option (\<lambda>(a, r). (a, r @ k)) (split_text p s)"
proof (induction s)
  case Nil
  have "split_text p k = None"
  proof (cases "split_text p k")
    case (Some ab)
    then have "set p \<subseteq> set k" using split_text_Some [of p k] by (cases ab) auto
    then show ?thesis using assms last_in_set [of p] by blast
  qed simp
  then show ?case using assms by simp
next
  case (Cons c s)
  then show ?case
    using strip_prefix_append_stop [OF assms, of "c # s"]
    by (cases "strip_prefix (c # s) p"; cases "split_text p s") auto
qed

lemma split_text_break:
  assumes "p \<noteq> []" "c \<notin> set p"
  shows "split_text p (s @ c # y) =
    (case split_text p s of Some (a, r) \<Rightarrow> Some (a, r @ c # y)
     | None \<Rightarrow> map_option (\<lambda>(a, r). (s @ c # a, r)) (split_text p y))"
proof (induction s)
  case Nil
  have "hd p \<notin> set [c]" using assms by (cases p) auto
  then show ?case using split_text_skip [OF assms(1), of "[c]" y] assms by simp
next
  case (Cons d s)
  have "strip_prefix (d # s @ c # y) p = map_option (\<lambda>r. r @ c # y) (strip_prefix (d # s) p)"
  proof (cases "starts_with (d # s) p")
    case True
    then obtain r where "d # s = p @ r" by (auto simp: starts_with_iff)
    then have "strip_prefix (d # s) p = Some r" "strip_prefix ((d # s) @ c # y) p = Some (r @ c # y)"
      by (simp_all add: strip_prefix_Some)
    then show ?thesis by simp
  next
    case False
    have "\<not> starts_with ((d # s) @ c # y) p"
    proof
      assume "starts_with ((d # s) @ c # y) p"
      then obtain u r where "p = (d # s) @ u" "u \<noteq> []" "c # y = u @ r"
        using False by (rule starts_with_append_cases)
      then show False using assms by (cases u) auto
    qed
    then show ?thesis using False by (simp add: strip_prefix_def)
  qed
  then show ?case using Cons by (cases "strip_prefix (d # s) p"; cases "split_text p s"; cases "split_text p y") auto
qed

lemma trim_end_id: "s = [] \<or> \<not> is_whitespace (last s) \<Longrightarrow> trim_end s = s"
  by (cases s rule: rev_cases) (auto simp: trim_end_def)

lemma trim_id:
  "s = [] \<or> (\<not> is_whitespace (hd s) \<and> \<not> is_whitespace (last s)) \<Longrightarrow> trim s = s"
  by (cases s) (auto simp: trim_def trim_start_def trim_end_id)

lemma trim_no_whitespace: "\<forall>c \<in> set s. \<not> is_whitespace c \<Longrightarrow> trim s = s"
  by (rule trim_id) (cases s, auto)

lemma last_trim_end: "trim_end s \<noteq> [] \<Longrightarrow> \<not> is_whitespace (last (trim_end s))"
  by (auto simp: trim_end_def last_rev hd_dropWhile)

lemma hd_trim_end: "trim_end s \<noteq> [] \<Longrightarrow> hd (trim_end s) = hd s"
proof -
  assume ne: "trim_end s \<noteq> []"
  have "s = trim_end s @ rev (takeWhile is_whitespace (rev s))"
    unfolding trim_end_def by (metis rev_append rev_rev_ident takeWhile_dropWhile_id)
  with ne show ?thesis by (metis hd_append2)
qed

lemma trim_ends:
  assumes "trim s \<noteq> []"
  shows "\<not> is_whitespace (hd (trim s)) \<and> \<not> is_whitespace (last (trim s))"
proof
  from assms have ne: "trim_end (trim_start s) \<noteq> []"
    by (simp add: trim_def)
  then have "trim_start s \<noteq> []"
    by (auto simp: trim_end_def)
  then have "\<not> is_whitespace (hd (trim_start s))"
    unfolding trim_start_def by (rule hd_dropWhile)
  with hd_trim_end [OF ne] show "\<not> is_whitespace (hd (trim s))"
    by (simp add: trim_def)
  from last_trim_end [OF ne] show "\<not> is_whitespace (last (trim s))"
    by (simp add: trim_def)
qed

lemma trim_idem [simp]: "trim (trim s) = trim s"
  using trim_ends [of s] by (metis trim_id)

section \<open>Decimal numbers\<close>

text \<open>\<open>u64::to_string\<close>.\<close>

fun dec :: "nat \<Rightarrow> str" where
  "dec n = (if n < 10 then [48 + n] else dec (n div 10) @ [48 + n mod 10])"

declare dec.simps [simp del]

definition undec :: "str \<Rightarrow> nat" where
  "undec s = foldl (\<lambda>n c. n * 10 + (c - 48)) 0 s"

text \<open>\<open>text.parse::<u64>()\<close> on ASCII digits: \<open>None\<close> on overflow.\<close>

definition parse_u64 :: "str \<Rightarrow> nat option" where
  "parse_u64 s =
     (if s \<noteq> [] \<and> (\<forall>c \<in> set s. is_ascii_digit c) \<and> undec s < 2 ^ 64 then Some (undec s) else None)"

lemma undec_snoc [simp]: "undec (s @ [c]) = undec s * 10 + (c - 48)"
  by (simp add: undec_def)

lemma undec_dec [simp]: "undec (dec n) = n"
proof (induction n rule: dec.induct)
  case (1 n)
  then show ?case
    by (cases "n < 10") (simp_all add: dec.simps [of n], simp add: undec_def)
qed

lemma dec_digits: "c \<in> set (dec n) \<Longrightarrow> is_ascii_digit c"
proof (induction n rule: dec.induct)
  case (1 n)
  then show ?case
    by (cases "n < 10") (auto simp: dec.simps [of n] is_ascii_digit_def)
qed

lemma dec_nonempty [simp]: "dec n \<noteq> []"
  by (simp add: dec.simps [of n])

lemma hd_dec: "0 < n \<Longrightarrow> hd (dec n) \<noteq> 48"
proof (induction n rule: dec.induct)
  case (1 n)
  show ?case
  proof (cases "n < 10")
    case True
    with "1.prems" show ?thesis by (simp add: dec.simps [of n])
  next
    case False
    with "1.IH" have "hd (dec (n div 10)) \<noteq> 48" by auto
    with False show ?thesis by (simp add: dec.simps [of n])
  qed
qed

lemma parse_u64_dec: "n < 2 ^ 64 \<Longrightarrow> parse_u64 (dec n) = Some n"
  by (auto simp: parse_u64_def dec_digits)

interpretation decimal: round_trip dec parse_u64 "\<lambda>n. n < 2 ^ 64"
  by unfold_locales (rule parse_u64_dec)

lemma length_dec_le: "n < 10 ^ k \<Longrightarrow> 0 < k \<Longrightarrow> length (dec n) \<le> k"
proof (induction n arbitrary: k rule: dec.induct)
  case (1 n)
  show ?case
  proof (cases "n < 10")
    case True
    with "1.prems" show ?thesis by (simp add: dec.simps [of n])
  next
    case False
    with "1.prems" have "1 < k"
      by (cases k; cases "k - 1") auto
    then obtain j where j: "k = Suc j" and "0 < j"
      by (cases k) auto
    with "1.prems" have "n div 10 < 10 ^ j"
      by (simp add: less_mult_imp_div_less mult.commute)
    with "1.IH" False \<open>0 < j\<close> have "length (dec (n div 10)) \<le> j" by blast
    with False j show ?thesis by (simp add: dec.simps [of n])
  qed
qed

text \<open>A digit string without a leading zero is the decimal form of its value.\<close>

lemma dec_undec:
  "s \<noteq> [] \<Longrightarrow> \<forall>c \<in> set s. is_ascii_digit c \<Longrightarrow> hd s \<noteq> 48 \<Longrightarrow> dec (undec s) = s \<and> 0 < undec s"
proof (induction s rule: rev_induct)
  case Nil
  then show ?case by simp
next
  case (snoc c s)
  then have c: "48 \<le> c" "c \<le> 57" by (auto simp: is_ascii_digit_def)
  show ?case
  proof (cases "s = []")
    case True
    with snoc.prems c show ?thesis by (simp add: undec_def dec.simps)
  next
    case False
    with snoc have IH: "dec (undec s) = s" "0 < undec s" by auto
    define d where "d = c - 48"
    with c have d: "c = 48 + d" "d < 10" by auto
    with IH show ?thesis by (simp add: dec.simps [of "undec s * 10 + d"])
  qed
qed

lemma digit_not_whitespace: "is_ascii_digit c \<Longrightarrow> \<not> is_whitespace c"
  by (auto simp: is_ascii_digit_def is_whitespace_def)

lemma dec_inject [simp]: "dec m = dec n \<longleftrightarrow> m = n"
  by (metis undec_dec)

end
