(* ===== verification/App_Error.thy ===== *)
theory App_Error
  imports Rust_Str
begin

text \<open>
  \<open>api/src/error.rs\<close>: the error type of the API, its constructors, its HTTP status and its
  \<open>Retry-After\<close>. The JSON values it carries are the enum \<open>serde_json::Value\<close>; payloads of
  third-party errors are reduced to the distinctions the code makes on them (a pool timeout or a
  closed pool, an HTTP timeout).
\<close>

section \<open>JSON values\<close>

datatype json =
    JNull
  | JBool bool
  | JInt int
  | JFloat rat
  | JString str
  | JArray "json list"
  | JObject "(str \<times> json) list"

text \<open>\<open>value[key]\<close>: \<open>Null\<close> for a missing key or a value that is no object.\<close>

definition jget :: "json \<Rightarrow> str \<Rightarrow> json" where
  "jget v k =
     (case v of JObject kvs \<Rightarrow> (case map_of kvs k of None \<Rightarrow> JNull | Some w \<Rightarrow> w) | _ \<Rightarrow> JNull)"

definition as_str :: "json \<Rightarrow> str option" where
  "as_str v = (case v of JString s \<Rightarrow> Some s | _ \<Rightarrow> None)"

definition as_i64 :: "json \<Rightarrow> int option" where
  "as_i64 v = (case v of JInt n \<Rightarrow> if - (2 ^ 63) \<le> n \<and> n < 2 ^ 63 then Some n else None | _ \<Rightarrow> None)"

definition is_object :: "json \<Rightarrow> bool" where
  "is_object v = (case v of JObject _ \<Rightarrow> True | _ \<Rightarrow> False)"

section \<open>The error type\<close>

datatype pool_error = PoolTimedOut | PoolClosed | PoolOther

datatype app_error =
    BadRequest str
  | Unauthorized str
  | Forbidden str
  | NotFound str
  | Conflict str
  | ServiceUnavailable str
  | Coded nat str str "int option"
  | ScApi nat json "int option"
  | ScUnreachable str
  | SoundCloudReauthorizationRequired
  | SoundCloudTemporarilyUnavailable "int option"
  | SoundCloudRefreshTimedOut
  | ScDeadlineExceeded
  | SoundCloudRefreshRateLimited int
  | Db pool_error
  | Redis str
  | RedisPool pool_error
  | Http bool
  | Internal str

type_synonym 'a app_result = "app_error + 'a"

definition SC_DEADLINE_RETRY_AFTER :: int where "SC_DEADLINE_RETRY_AFTER = 15"
definition UNAVAILABLE_RETRY_AFTER :: int where "UNAVAILABLE_RETRY_AFTER = 3"
definition RETRY_AFTER_MAX_SECONDS :: int where "RETRY_AFTER_MAX_SECONDS = 3600"
definition LOAD_SHED_CODE :: str where "LOAD_SHED_CODE = lit ''api_overloaded''"

text \<open>\<open>AppError::coded\<close> and \<open>with_retry_after\<close>.\<close>

definition coded :: "nat \<Rightarrow> str \<Rightarrow> str \<Rightarrow> app_error" where
  "coded status code msg = Coded status code msg None"

fun with_retry_after :: "int \<Rightarrow> app_error \<Rightarrow> app_error" where
  "with_retry_after seconds (Coded s c m _) = Coded s c m (Some (max seconds 1))"
| "with_retry_after seconds e = e"

definition overloaded_error :: "int \<Rightarrow> app_error" where
  "overloaded_error retry_after_sec =
     with_retry_after retry_after_sec
       (coded 503 LOAD_SHED_CODE (lit ''Server is busy, retry shortly''))"

fun is_load_shed :: "app_error \<Rightarrow> bool" where
  "is_load_shed (Coded _ code _ _) = (code = LOAD_SHED_CODE)"
| "is_load_shed _ = False"

definition request_timed_out :: app_error where
  "request_timed_out =
     with_retry_after UNAVAILABLE_RETRY_AFTER
       (coded 504 (lit ''request_timed_out'') (lit ''Request took too long''))"

definition soundcloud_temporarily_unavailable_for :: "int option \<Rightarrow> app_error" where
  "soundcloud_temporarily_unavailable_for r =
     SoundCloudTemporarilyUnavailable (map_option (\<lambda>s. max s 1) r)"

definition soundcloud_refresh_rate_limited :: "int \<Rightarrow> app_error" where
  "soundcloud_refresh_rate_limited r = SoundCloudRefreshRateLimited (max r 1)"

text \<open>\<open>StatusCode::from_u16\<close> accepts 100 to 999.\<close>

definition status_or_bad_gateway :: "nat \<Rightarrow> nat" where
  "status_or_bad_gateway s = (if 100 \<le> s \<and> s < 1000 then s else 502)"

fun error_status :: "app_error \<Rightarrow> nat" where
  "error_status (BadRequest _) = 400"
| "error_status (Unauthorized _) = 401"
| "error_status (Forbidden _) = 403"
| "error_status (NotFound _) = 404"
| "error_status (Conflict _) = 409"
| "error_status (ServiceUnavailable _) = 503"
| "error_status (Coded s _ _ _) = status_or_bad_gateway s"
| "error_status (ScApi s _ _) = status_or_bad_gateway s"
| "error_status (ScUnreachable _) = 502"
| "error_status SoundCloudReauthorizationRequired = 409"
| "error_status (SoundCloudTemporarilyUnavailable _) = 502"
| "error_status SoundCloudRefreshTimedOut = 504"
| "error_status ScDeadlineExceeded = 504"
| "error_status (SoundCloudRefreshRateLimited _) = 429"
| "error_status (Db e) = (if e = PoolOther then 500 else 503)"
| "error_status (Redis _) = 500"
| "error_status (RedisPool e) = (if e = PoolOther then 500 else 503)"
| "error_status (Http timeout) = (if timeout then 504 else 500)"
| "error_status (Internal _) = 500"

text \<open>The value of the \<open>Retry-After\<close> header.\<close>

fun retry_hint :: "app_error \<Rightarrow> int option" where
  "retry_hint (ScApi _ _ r) = r"
| "retry_hint (Coded _ _ _ r) = r"
| "retry_hint (SoundCloudTemporarilyUnavailable r) = r"
| "retry_hint (SoundCloudRefreshRateLimited r) = Some r"
| "retry_hint ScDeadlineExceeded = Some SC_DEADLINE_RETRY_AFTER"
| "retry_hint (ServiceUnavailable _) = Some UNAVAILABLE_RETRY_AFTER"
| "retry_hint (Db e) = (if e = PoolOther then None else Some UNAVAILABLE_RETRY_AFTER)"
| "retry_hint (RedisPool e) = (if e = PoolOther then None else Some UNAVAILABLE_RETRY_AFTER)"
| "retry_hint _ = None"

definition retry_after_sec :: "app_error \<Rightarrow> int option" where
  "retry_after_sec e =
     map_option (\<lambda>s. max 1 (min s RETRY_AFTER_MAX_SECONDS)) (retry_hint e)"

lemma retry_after_bounds: "retry_after_sec e = Some s \<Longrightarrow> 1 \<le> s \<and> s \<le> 3600"
  by (auto simp: retry_after_sec_def RETRY_AFTER_MAX_SECONDS_def)

lemma error_status_range: "100 \<le> error_status e \<and> error_status e < 1000"
  by (cases e) (auto simp: status_or_bad_gateway_def)

text \<open>
  Every error is answered with a valid HTTP status, and a \<open>Retry-After\<close> it carries lies between
  one second and one hour, whatever the upstream or the caller asked for.
\<close>

theorem error_response_bounds:
  "100 \<le> error_status e \<and> error_status e < 1000 \<and>
   (case retry_after_sec e of None \<Rightarrow> True | Some s \<Rightarrow> 1 \<le> s \<and> s \<le> 3600)"
  using error_status_range [of e] retry_after_bounds [of e] by (simp split: option.splits)

end
