(* ===== verification/Effects.thy ===== *)
theory Effects
  imports App_Error
begin

text \<open>
  Asynchronous code that shares state. A program is a tree of atomic actions on a world: an
  action inside the process, which cannot fail, and a command sent to the store, which may fail
  before it reaches the server or lose its answer after it took effect. Between two actions other
  tasks run. \<open>await\<close> is \<open>.await?\<close>.

  \<open>safe I G p Q\<close> is the proof rule of the development: started in any world with \<open>I\<close>, at every
  action of \<open>p\<close> the invariant \<open>I\<close> is kept and the change lies in \<open>G\<close>, whatever ran in between,
  and the value \<open>p\<close> returns satisfies \<open>Q\<close>. \<open>exec\<close> and \<open>reachable\<close> are the semantics it is sound
  for: one program among interfering steps, and a pool of programs.
\<close>

section \<open>Programs\<close>

datatype ('w, 'a) prog =
    Ret 'a
  | Local "'w \<Rightarrow> 'w" "'w \<Rightarrow> ('w, 'a) prog"
  | Command "'w \<Rightarrow> 'w" "app_error + 'w \<Rightarrow> ('w, 'a) prog"

type_synonym ('w, 'a) eff = "('w, 'a app_result) prog"

primrec bind :: "('w, 'a) prog \<Rightarrow> ('a \<Rightarrow> ('w, 'b) prog) \<Rightarrow> ('w, 'b) prog" where
  "bind (Ret a) k = k a"
| "bind (Local u c) k = Local u (\<lambda>w. bind (c w) k)"
| "bind (Command u c) k = Command u (\<lambda>x. bind (c x) k)"

definition await :: "('w, 'a) eff \<Rightarrow> ('a \<Rightarrow> ('w, 'b) eff) \<Rightarrow> ('w, 'b) eff" where
  "await m k = bind m (\<lambda>x. case x of Inl e \<Rightarrow> Ret (Inl e) | Inr a \<Rightarrow> k a)"

abbreviation ok :: "'a \<Rightarrow> ('w, 'a) eff" where
  "ok a \<equiv> Ret (Inr a)"

abbreviation err :: "app_error \<Rightarrow> ('w, 'a) eff" where
  "err e \<equiv> Ret (Inl e)"

definition command :: "('w \<Rightarrow> 'w) \<Rightarrow> ('w \<Rightarrow> 'a) \<Rightarrow> ('w, 'a) eff" where
  "command u f = Command u (\<lambda>x. case x of Inl e \<Rightarrow> Ret (Inl e) | Inr w \<Rightarrow> Ret (Inr (f w)))"

definition inside :: "('w \<Rightarrow> 'w) \<Rightarrow> ('w \<Rightarrow> 'a) \<Rightarrow> ('w, 'a) prog" where
  "inside u f = Local u (\<lambda>w. Ret (f w))"

text \<open>A request whose answer nobody waits for.\<close>

definition discard :: "('w, 'a) prog \<Rightarrow> ('w, unit) prog" where
  "discard p = bind p (\<lambda>_. Ret ())"

text \<open>A run that nothing interferes with and in which every command is answered.\<close>

primrec run :: "('w, 'a) prog \<Rightarrow> 'w \<Rightarrow> 'a \<times> 'w" where
  "run (Ret a) w = (a, w)"
| "run (Local u c) w = run (c w) (u w)"
| "run (Command u c) w = run (c (Inr w)) (u w)"

lemma run_bind [simp]: "run (bind p k) w = (case run p w of (a, w') \<Rightarrow> run (k a) w')"
  by (induction p arbitrary: w) simp_all

lemma run_await [simp]:
  "run (await m k) w =
     (case run m w of (Inl e, w') \<Rightarrow> (Inl e, w') | (Inr a, w') \<Rightarrow> run (k a) w')"
  by (auto simp: await_def split: prod.splits sum.splits)

lemma run_command [simp]: "run (command u f) w = (Inr (f w), u w)"
  by (simp add: command_def)

lemma run_inside [simp]: "run (inside u f) w = (f w, u w)"
  by (simp add: inside_def)

section \<open>Steps, interference, pools\<close>

fun redis_error :: "app_error \<Rightarrow> bool" where
  "redis_error (Redis _) = True"
| "redis_error (RedisPool _) = True"
| "redis_error _ = False"

inductive pstep :: "('w, 'a) prog \<Rightarrow> 'w \<Rightarrow> ('w, 'a) prog \<Rightarrow> 'w \<Rightarrow> bool" where
  inside: "pstep (Local u c) w (c w) (u w)"
| answered: "pstep (Command u c) w (c (Inr w)) (u w)"
| lost: "redis_error e \<Longrightarrow> pstep (Command u c) w (c (Inl e)) w"
| unseen: "redis_error e \<Longrightarrow> pstep (Command u c) w (c (Inl e)) (u w)"

inductive_cases pstep_RetE: "pstep (Ret a) w p' w'"
inductive_cases pstep_LocalE: "pstep (Local u c) w p' w'"
inductive_cases pstep_CommandE: "pstep (Command u c) w p' w'"

text \<open>One program to its end, with steps of \<open>E\<close> by others in between; the list holds its own steps.\<close>

inductive exec :: "('w \<Rightarrow> 'w \<Rightarrow> bool) \<Rightarrow> ('w, 'a) prog \<Rightarrow> 'w \<Rightarrow> ('w \<times> 'w) list \<Rightarrow> 'a \<Rightarrow> 'w \<Rightarrow> bool"
  for E where
  exec_ret: "exec E (Ret a) w [] a w"
| exec_env: "E w w' \<Longrightarrow> exec E p w' tr a w'' \<Longrightarrow> exec E p w tr a w''"
| exec_step: "pstep p w p' w' \<Longrightarrow> exec E p' w' tr a w'' \<Longrightarrow> exec E p w ((w, w') # tr) a w''"

text \<open>Any number of programs at once; a request that is dropped just takes no further step.\<close>

inductive reachable ::
  "('w \<Rightarrow> bool) \<Rightarrow> (('w, unit) prog \<Rightarrow> bool) \<Rightarrow> ('w \<Rightarrow> 'w \<Rightarrow> bool) \<Rightarrow> ('w, unit) prog list \<Rightarrow> 'w \<Rightarrow> bool"
  for init start E where
  reach_init: "init w \<Longrightarrow> reachable init start E [] w"
| reach_spawn: "reachable init start E ps w \<Longrightarrow> start p \<Longrightarrow> reachable init start E (p # ps) w"
| reach_env: "reachable init start E ps w \<Longrightarrow> E w w' \<Longrightarrow> reachable init start E ps w'"
| reach_step:
    "reachable init start E ps w \<Longrightarrow> i < length ps \<Longrightarrow> pstep (ps ! i) w p' w' \<Longrightarrow>
     reachable init start E (ps[i := p']) w'"

lemma exec_bindE:
  assumes "exec E (bind p k) w tr b w''"
  obtains tr1 a w' tr2 where
    "exec E p w tr1 a w'" "exec E (k a) w' tr2 b w''" "tr = tr1 @ tr2"
proof -
  have "\<exists>tr1 a w' tr2. exec E p w tr1 a w' \<and> exec E (k a) w' tr2 b w'' \<and> tr = tr1 @ tr2"
    using assms
  proof (induction "bind p k" w tr b w'' arbitrary: p)
    case (exec_ret b w)
    then obtain a where "p = Ret a" by (cases p) auto
    with exec_ret show ?case
      by (metis append_Nil bind.simps(1) exec.exec_ret)
  next
    case (exec_env w w' tr a w'')
    then show ?case by (blast intro: exec.exec_env)
  next
    case (exec_step w q w' tr b w'')
    show ?case
    proof (cases p)
      case (Ret a)
      with exec_step.hyps show ?thesis
        by (intro exI [of _ "[]"] exI [of _ a] exI [of _ w] exI [of _ "(w, w') # tr"])
           (auto intro: exec.intros)
    next
      case (Local u c)
      with exec_step.hyps(1) have "q = bind (c w) k" "w' = u w"
        by (auto elim: pstep_LocalE)
      with exec_step.hyps(3) [of "c w"] Local show ?thesis
        by (metis append_Cons exec.exec_step pstep.inside)
    next
      case (Command u c)
      with exec_step.hyps(1) obtain x where q: "q = bind (c x) k" and s: "pstep p w (c x) w'"
        by (auto elim!: pstep_CommandE intro: pstep.intros)
      from exec_step.hyps(3) [OF q] s show ?thesis
        by (metis append_Cons exec.exec_step)
    qed
  qed
  then show ?thesis using that by blast
qed

lemma exec_RetD:
  fixes w :: 'w and a :: 'a
  shows "exec E (Ret a) w tr b w' \<Longrightarrow> tr = [] \<and> b = a \<and> E\<^sup>*\<^sup>* w w'"
proof (induction "Ret a :: ('w, 'a) prog" w tr b w' rule: exec.induct)
  case (exec_env w w' tr b w'')
  then show ?case by (auto intro: converse_rtranclp_into_rtranclp)
qed (auto elim: pstep_RetE)

lemma exec_LocalD:
  "exec E (Local u k) w tr b w' \<Longrightarrow>
   \<exists>s tr'. E\<^sup>*\<^sup>* w s \<and> exec E (k s) (u s) tr' b w' \<and> tr = (s, u s) # tr'"
proof (induction "Local u k" w tr b w' rule: exec.induct)
  case (exec_env w w' tr b w'')
  then show ?case by (blast intro: converse_rtranclp_into_rtranclp)
next
  case (exec_step w p' w' tr b w'')
  then show ?case by (auto elim!: pstep_LocalE)
qed

lemma exec_CommandD:
  "exec E (Command u k) w tr b w' \<Longrightarrow>
   \<exists>s s' x tr'. E\<^sup>*\<^sup>* w s \<and> exec E (k x) s' tr' b w' \<and> tr = (s, s') # tr' \<and>
     (x = Inr s \<and> s' = u s \<or> (\<exists>e. x = Inl e \<and> redis_error e) \<and> (s' = s \<or> s' = u s))"
proof (induction "Command u k" w tr b w' rule: exec.induct)
  case (exec_env w w' tr b w'')
  then show ?case by (blast intro: converse_rtranclp_into_rtranclp)
next
  case (exec_step w p' w' tr b w'')
  then show ?case by (elim pstep_CommandE) (blast intro: rtranclp.rtrancl_refl)+
qed

lemma exec_insideD:
  assumes "exec E (inside u f) w tr b w'"
  shows "\<exists>s. E\<^sup>*\<^sup>* w s \<and> b = f s \<and> tr = [(s, u s)] \<and> E\<^sup>*\<^sup>* (u s) w'"
  using exec_LocalD [OF assms [unfolded inside_def]] by (auto dest!: exec_RetD)

lemma exec_commandD:
  assumes "exec E (command u f) w tr (Inr b) w'"
  shows "\<exists>s. E\<^sup>*\<^sup>* w s \<and> b = f s \<and> tr = [(s, u s)] \<and> E\<^sup>*\<^sup>* (u s) w'"
  using exec_CommandD [OF assms [unfolded command_def]] by (auto dest!: exec_RetD)

lemma exec_awaitD:
  assumes "exec E (await m k) w tr (Inr b) w''"
  shows "\<exists>tr1 a w' tr2. exec E m w tr1 (Inr a) w' \<and> exec E (k a) w' tr2 (Inr b) w'' \<and> tr = tr1 @ tr2"
proof -
  from assms obtain tr1 x w' tr2 where m: "exec E m w tr1 x w'"
    and k: "exec E (case x of Inl e \<Rightarrow> err e | Inr a \<Rightarrow> k a) w' tr2 (Inr b) w''" and tr: "tr = tr1 @ tr2"
    unfolding await_def by (rule exec_bindE)
  show ?thesis
  proof (cases x)
    case (Inl e)
    with k show ?thesis by (auto dest: exec_RetD)
  next
    case (Inr a)
    with m k tr show ?thesis by auto
  qed
qed

lemma exec_run: "\<exists>tr. exec E p w tr (fst (run p w)) (snd (run p w))"
proof (induction p arbitrary: w)
  case (Ret a)
  then show ?case by (auto intro: exec.exec_ret)
next
  case (Local u c)
  then show ?case by (metis exec.exec_step pstep.inside rangeI run.simps(2))
next
  case (Command u c)
  then show ?case by (metis exec.exec_step pstep.answered rangeI run.simps(3))
qed

lemma reachable_run:
  "reachable init start E (p # ps) w \<Longrightarrow> reachable init start E (Ret (fst (run p w)) # ps) (snd (run p w))"
proof (induction p arbitrary: w)
  case (Local u c)
  then show ?case
    using reach_step [OF Local.prems, of 0 "c w" "u w"] by (auto intro: pstep.inside)
next
  case (Command u c)
  then show ?case
    using reach_step [OF Command.prems, of 0 "c (Inr w)" "u w"] by (auto intro: pstep.answered)
qed simp

section \<open>Safety\<close>

primrec safe ::
  "('w \<Rightarrow> bool) \<Rightarrow> ('w \<Rightarrow> 'w \<Rightarrow> bool) \<Rightarrow> ('w, 'a) prog \<Rightarrow> ('a \<Rightarrow> bool) \<Rightarrow> bool" where
  "safe I G (Ret a) Q = Q a"
| "safe I G (Local u c) Q = (\<forall>w. I w \<longrightarrow> I (u w) \<and> G w (u w) \<and> safe I G (c w) Q)"
| "safe I G (Command u c) Q =
     ((\<forall>w. I w \<longrightarrow> I (u w) \<and> G w (u w) \<and> safe I G (c (Inr w)) Q) \<and>
      (\<forall>e. redis_error e \<longrightarrow> safe I G (c (Inl e)) Q))"

text \<open>The condition on a fallible value: errors are free, an \<open>Ok\<close> satisfies \<open>Q\<close>.\<close>

definition on_ok :: "('a \<Rightarrow> bool) \<Rightarrow> 'a app_result \<Rightarrow> bool" where
  "on_ok Q x = (case x of Inl e \<Rightarrow> True | Inr a \<Rightarrow> Q a)"

lemma on_ok_simps [simp]: "on_ok Q (Inl e)" "on_ok Q (Inr a) = Q a"
  by (simp_all add: on_ok_def)

abbreviation anything :: "'a \<Rightarrow> bool" where
  "anything \<equiv> \<lambda>_. True"

lemma safe_mono: "safe I G p Q \<Longrightarrow> (\<And>a. Q a \<Longrightarrow> R a) \<Longrightarrow> safe I G p R"
  by (induction p) auto

lemma safe_bind: "safe I G (bind p k) Q \<longleftrightarrow> safe I G p (\<lambda>a. safe I G (k a) Q)"
  by (induction p) auto

lemma safe_bindI:
  "safe I G p R \<Longrightarrow> (\<And>a. R a \<Longrightarrow> safe I G (k a) Q) \<Longrightarrow> safe I G (bind p k) Q"
  by (auto simp: safe_bind intro: safe_mono)

lemma safe_awaitI:
  assumes "safe I G m (on_ok R)" and "\<And>a. R a \<Longrightarrow> safe I G (k a) (on_ok Q)"
  shows "safe I G (await m k) (on_ok Q)"
  unfolding await_def
  by (rule safe_bindI [OF assms(1)]) (auto simp: on_ok_def assms(2) split: sum.splits)

lemma safe_command:
  "(\<And>w. I w \<Longrightarrow> I (u w) \<and> G w (u w) \<and> Q (f w)) \<Longrightarrow> safe I G (command u f) (on_ok Q)"
  by (simp add: command_def)

lemma safe_inside:
  "(\<And>w. I w \<Longrightarrow> I (u w) \<and> G w (u w) \<and> Q (f w)) \<Longrightarrow> safe I G (inside u f) Q"
  by (simp add: inside_def)

lemma safe_ok: "Q a \<Longrightarrow> safe I G (ok a) (on_ok Q)"
  by simp

lemma safe_err: "safe I G (err e) (on_ok Q)"
  by simp

lemma safe_pstep:
  assumes "safe I G p Q" "I w" "pstep p w p' w'" "\<And>w. G w w"
  shows "I w' \<and> G w w' \<and> safe I G p' Q"
  using assms by (cases p) (auto elim: pstep_RetE pstep_LocalE pstep_CommandE)

theorem exec_safe:
  assumes "exec E p w tr a w'" "safe I G p Q" "I w"
    and "\<And>w w'. I w \<Longrightarrow> E w w' \<Longrightarrow> I w'" "\<And>w. G w w"
  shows "I w' \<and> Q a \<and> (\<forall>(x, y) \<in> set tr. I x \<and> I y \<and> G x y)"
  using assms
proof (induction rule: exec.induct)
  case (exec_step p w p' w' tr a w'')
  then show ?case using safe_pstep [of I G p Q w p' w'] by auto
qed auto

theorem reachable_safe:
  assumes "reachable init start E ps w"
    and "\<And>w. init w \<Longrightarrow> I w" "\<And>p. start p \<Longrightarrow> safe I G p anything"
    and "\<And>w w'. I w \<Longrightarrow> E w w' \<Longrightarrow> I w'" "\<And>w. G w w"
  shows "I w \<and> (\<forall>p \<in> set ps. safe I G p anything)"
  using assms
proof (induction rule: reachable.induct)
  case (reach_step ps w i p' w')
  then have "safe I G (ps ! i) anything" by auto
  then have "I w' \<and> safe I G p' anything"
    using safe_pstep [OF _ _ reach_step.hyps(3)] reach_step by blast
  then show ?case
    using reach_step set_update_subset_insert [of ps i p'] by blast
qed auto

section \<open>What a program has seen\<close>

text \<open>
  \<open>assured I G w0 p Q\<close> is \<open>safe\<close> for conditions that mention the world: \<open>w0\<close> is the last world the
  program acted in, and \<open>G\<close>, reflexive and transitive, relates it to every later one. What \<open>p\<close>
  returns satisfies \<open>Q\<close> in the world it returned from, so a condition that \<open>G\<close> keeps holds for good.
\<close>

primrec assured ::
  "('w \<Rightarrow> bool) \<Rightarrow> ('w \<Rightarrow> 'w \<Rightarrow> bool) \<Rightarrow> 'w \<Rightarrow> ('w, 'a) prog \<Rightarrow> ('w \<Rightarrow> 'a \<Rightarrow> bool) \<Rightarrow> bool" where
  "assured I G w0 (Ret a) Q = Q w0 a"
| "assured I G w0 (Local u c) Q =
     (\<forall>w. I w \<and> G w0 w \<longrightarrow> I (u w) \<and> G w (u w) \<and> assured I G (u w) (c w) Q)"
| "assured I G w0 (Command u c) Q =
     (\<forall>w. I w \<and> G w0 w \<longrightarrow>
        I (u w) \<and> G w (u w) \<and> assured I G (u w) (c (Inr w)) Q \<and>
        (\<forall>e. redis_error e \<longrightarrow> assured I G w (c (Inl e)) Q \<and> assured I G (u w) (c (Inl e)) Q))"

lemma assured_mono:
  "assured I G w0 p Q \<Longrightarrow> (\<And>w a. Q w a \<Longrightarrow> R w a) \<Longrightarrow> assured I G w0 p R"
  by (induction p arbitrary: w0) auto

lemma assured_bind: "assured I G w0 (bind p k) Q = assured I G w0 p (\<lambda>w a. assured I G w (k a) Q)"
  by (induction p arbitrary: w0) auto

lemma assured_bindI:
  "assured I G w0 p R \<Longrightarrow> (\<And>w a. R w a \<Longrightarrow> assured I G w (k a) Q) \<Longrightarrow> assured I G w0 (bind p k) Q"
  by (auto simp: assured_bind intro: assured_mono)

lemma assured_awaitI:
  assumes "assured I G w0 m R" "\<And>w e. R w (Inl e) \<Longrightarrow> Q w (Inl e)"
    "\<And>w a. R w (Inr a) \<Longrightarrow> assured I G w (k a) Q"
  shows "assured I G w0 (await m k) Q"
  unfolding await_def
  by (rule assured_bindI [OF assms(1)]) (use assms(2,3) in \<open>auto split: sum.splits\<close>)

lemma assured_inside:
  "(\<And>w. I w \<Longrightarrow> G w0 w \<Longrightarrow> I (u w) \<and> G w (u w) \<and> Q (u w) (f w)) \<Longrightarrow> assured I G w0 (inside u f) Q"
  by (simp add: inside_def)

lemma assured_command:
  assumes "\<And>w. I w \<Longrightarrow> G w0 w \<Longrightarrow> I (u w) \<and> G w (u w) \<and> Q (u w) (Inr (f w))"
    and "\<And>w e. I w \<Longrightarrow> G w0 w \<Longrightarrow> redis_error e \<Longrightarrow> Q w (Inl e) \<and> Q (u w) (Inl e)"
  shows "assured I G w0 (command u f) Q"
  using assms by (simp add: command_def)

lemma assured_pstep:
  assumes "assured I G w0 p Q" "I w" "G w0 w" "pstep p w p' w'" "\<And>w. G w w"
  shows "I w' \<and> G w w' \<and> assured I G w' p' Q"
  using assms by (cases p) (auto elim: pstep_RetE pstep_LocalE pstep_CommandE)

theorem exec_assured:
  assumes "exec E p w tr a w'" "assured I G w0 p Q" "I w" "G w0 w"
    and env: "\<And>w w'. I w \<Longrightarrow> E w w' \<Longrightarrow> I w' \<and> G w w'" and refl: "\<And>w. G w w"
    and trans: "\<And>u v w. G u v \<Longrightarrow> G v w \<Longrightarrow> G u w"
  shows "I w' \<and> (\<exists>w1. Q w1 a \<and> G w1 w')"
  using assms(1-4)
proof (induction arbitrary: w0 rule: exec.induct)
  case (exec_env w w' p tr a w'')
  then show ?case using env trans by blast
next
  case (exec_step p w p' w' tr a w'')
  then show ?case using assured_pstep [OF exec_step.prems exec_step.hyps(1)] refl by blast
qed auto

theorem reachable_assured:
  assumes "reachable init start E ps w"
    and init: "\<And>w. init w \<Longrightarrow> I w" and start: "\<And>p w. start p \<Longrightarrow> assured I G w p (\<lambda>_. anything)"
    and env: "\<And>w w'. I w \<Longrightarrow> E w w' \<Longrightarrow> I w' \<and> G w w'" and refl: "\<And>w. G w w"
    and trans: "\<And>u v w. G u v \<Longrightarrow> G v w \<Longrightarrow> G u w"
  shows "I w \<and> (\<forall>p \<in> set ps. \<exists>w0. G w0 w \<and> assured I G w0 p (\<lambda>_. anything))"
  using assms(1)
proof (induction rule: reachable.induct)
  case (reach_init w)
  then show ?case using init by simp
next
  case (reach_env ps w w')
  then have "I w'" "G w w'" using env by blast+
  with reach_env.IH show ?case using trans by blast
next
  case (reach_spawn ps w p)
  then show ?case using start refl by auto
next
  case (reach_step ps w i p' w')
  then obtain w0 where "G w0 w" "assured I G w0 (ps ! i) (\<lambda>_. anything)"
    using nth_mem by blast
  then have *: "I w' \<and> G w w' \<and> assured I G w' p' (\<lambda>_. anything)"
    using assured_pstep [OF _ _ _ reach_step.hyps(3)] reach_step.IH refl by blast
  have "\<exists>w0. G w0 w' \<and> assured I G w0 p (\<lambda>_. anything)" if "p \<in> set (ps[i := p'])" for p
  proof (cases "p = p'")
    case True
    then show ?thesis using * refl by blast
  next
    case False
    then have "p \<in> set ps" using that set_update_subset_insert [of ps i p'] by blast
    then show ?thesis using reach_step.IH * trans by blast
  qed
  then show ?case using * by blast
qed

end
