(* ===== verification/Entity_Ref.thy ===== *)
theory Entity_Ref
  imports App_Error
begin

text \<open>
  \<open>utils/entity-ref/src/lib.rs\<close>, \<open>utils/catalog-ingest/src/sc_ids.rs\<close> and
  \<open>api/src/common/sc_ids.rs\<close>: SoundCloud identifiers. A reference is a kind and a positive id
  that fits \<open>i64\<close>; it is parsed from a bare number or from a URN and printed as a URN, as an id
  or as the key of a storage object. The lemmas give the round trips, the canonical form and the
  injectivity of the printed names.
\<close>

section \<open>Data\<close>

datatype entity_kind = Track | Playlist | User

record entity_ref =
  er_kind :: entity_kind
  er_id :: nat

fun segment :: "entity_kind \<Rightarrow> str" where
  "segment Track = lit ''tracks''"
| "segment Playlist = lit ''playlists''"
| "segment User = lit ''users''"

definition from_segment :: "str \<Rightarrow> entity_kind option" where
  "from_segment s =
     (if s = lit ''tracks'' then Some Track
      else if s = lit ''playlists'' then Some Playlist
      else if s = lit ''users'' then Some User
      else None)"

definition URN_PREFIX :: str where
  "URN_PREFIX = lit ''soundcloud:''"

abbreviation colon :: rchar where
  "colon \<equiv> 58"

section \<open>Operations\<close>

definition new_ref :: "entity_kind \<Rightarrow> nat \<Rightarrow> entity_ref option" where
  "new_ref kind i =
     (if 0 < i \<and> i \<le> 2 ^ 63 - 1 then Some \<lparr>er_kind = kind, er_id = i\<rparr> else None)"

definition parse_digits :: "str \<Rightarrow> nat option" where
  "parse_digits raw =
     (if raw = [] \<or> 19 < str_len raw \<or> hd raw = 48 \<or> \<not> (\<forall>c \<in> set raw. is_ascii_digit c)
      then None else parse_u64 raw)"

definition parse_urn :: "str \<Rightarrow> entity_ref option" where
  "parse_urn input =
     Option.bind (strip_prefix (trim input) URN_PREFIX) (\<lambda>rest.
     Option.bind (split_once colon rest) (\<lambda>(seg, i).
     Option.bind (from_segment seg) (\<lambda>kind.
     Option.bind (parse_digits i) (\<lambda>n. new_ref kind n))))"

definition parse_ref :: "entity_kind \<Rightarrow> str \<Rightarrow> entity_ref option" where
  "parse_ref kind raw =
     (let input = trim raw in
      case parse_urn input of
        Some parsed \<Rightarrow> if er_kind parsed = kind then Some parsed else None
      | None \<Rightarrow>
          if colon \<in> set input then None
          else Option.bind (parse_digits input) (new_ref kind))"

definition sc_id :: "entity_ref \<Rightarrow> str" where
  "sc_id r = dec (er_id r)"

definition urn :: "entity_ref \<Rightarrow> str" where
  "urn r = URN_PREFIX @ segment (er_kind r) @ [colon] @ dec (er_id r)"

definition storage_name :: "entity_ref \<Rightarrow> str" where
  "storage_name r = map (\<lambda>c. if c = colon then 95 else c) (urn r)"

definition object_key :: "entity_ref \<Rightarrow> str" where
  "object_key r = storage_name r @ lit ''.m4a''"

definition track_urn :: "str \<Rightarrow> str option" where
  "track_urn input = map_option urn (parse_ref Track input)"

definition playlist_urn :: "str \<Rightarrow> str option" where
  "playlist_urn input = map_option urn (parse_ref Playlist input)"

definition track_object_key :: "str \<Rightarrow> str option" where
  "track_object_key input = map_option object_key (parse_ref Track input)"

definition sc_track_id :: "str \<Rightarrow> str option" where
  "sc_track_id input = map_option sc_id (parse_ref Track input)"

definition is_canonical_urn :: "entity_kind \<Rightarrow> str \<Rightarrow> bool" where
  "is_canonical_urn kind input =
     (case parse_urn input of None \<Rightarrow> False
      | Some parsed \<Rightarrow> er_kind parsed = kind \<and> urn parsed = input)"

definition normalize_sc_track_id :: "str \<Rightarrow> str option" where
  "normalize_sc_track_id input = sc_track_id input"

definition require_ref :: "entity_kind \<Rightarrow> str \<Rightarrow> entity_ref app_result" where
  "require_ref kind input =
     ok_or (BadRequest (case kind of
         Track \<Rightarrow> lit ''invalid track identifier''
       | Playlist \<Rightarrow> lit ''invalid playlist identifier''
       | User \<Rightarrow> lit ''invalid user identifier''))
       (parse_ref kind input)"

section \<open>Round trips\<close>

definition valid_ref :: "entity_ref \<Rightarrow> bool" where
  "valid_ref r \<longleftrightarrow> 0 < er_id r \<and> er_id r \<le> 2 ^ 63 - 1"

lemma new_ref_Some: "new_ref k i = Some r \<longleftrightarrow> valid_ref r \<and> er_kind r = k \<and> er_id r = i"
  by (auto simp: new_ref_def valid_ref_def)

lemma parse_digits_Some:
  "parse_digits s = Some n \<Longrightarrow> dec n = s \<and> 0 < n"
  using dec_undec [of s] by (auto simp: parse_digits_def parse_u64_def split: if_splits)

lemma parse_digits_dec: "0 < n \<Longrightarrow> n \<le> 2 ^ 63 - 1 \<Longrightarrow> parse_digits (dec n) = Some n"
proof -
  assume n: "0 < n" "n \<le> 2 ^ 63 - 1"
  then have "n < 10 ^ 19" by simp
  then have "length (dec n) \<le> 19" by (rule length_dec_le) simp
  moreover have "str_len (dec n) = length (dec n)"
    by (rule str_len_ascii) (auto dest!: dec_digits simp: is_ascii_digit_def)
  ultimately show ?thesis
    using n hd_dec [of n] parse_u64_dec [of n] dec_digits [of _ n]
    by (auto simp: parse_digits_def)
qed

lemma segment_from: "from_segment (segment k) = Some k"
  by (cases k) (simp_all add: from_segment_def lit_def)

lemma from_segment_Some: "from_segment s = Some k \<longleftrightarrow> s = segment k"
  by (cases k) (auto simp: from_segment_def lit_def split: if_splits)

lemma colon_notin_segment [simp]: "colon \<notin> set (segment k)"
  by (cases k) (simp_all add: lit_def)

lemma digits_no_colon: "colon \<notin> set (dec n)"
  by (auto dest: dec_digits simp: is_ascii_digit_def)

lemma segment_no_whitespace: "\<forall>c \<in> set (segment k). \<not> is_whitespace c"
  by (cases k) (simp_all add: lit_def is_whitespace_def)

lemma prefix_no_whitespace: "\<forall>c \<in> set URN_PREFIX. \<not> is_whitespace c"
  by (simp add: URN_PREFIX_def lit_def is_whitespace_def)

lemma dec_no_whitespace: "\<forall>c \<in> set (dec n). \<not> is_whitespace c"
  by (blast dest: dec_digits digit_not_whitespace)

lemma trim_urn [simp]: "trim (urn r) = urn r"
proof (rule trim_no_whitespace)
  have "\<not> is_whitespace colon" by (simp add: is_whitespace_def)
  then show "\<forall>c \<in> set (urn r). \<not> is_whitespace c"
    using segment_no_whitespace [of "er_kind r"] prefix_no_whitespace dec_no_whitespace [of "er_id r"]
    by (simp add: urn_def ball_Un)
qed

lemma trim_dec [simp]: "trim (dec n) = dec n"
  by (rule trim_no_whitespace) (rule dec_no_whitespace)

lemma parse_urn_Some:
  "parse_urn s = Some r \<longleftrightarrow> valid_ref r \<and> trim s = urn r"
proof
  assume "parse_urn s = Some r"
  then obtain rest seg i kind n where
      "strip_prefix (trim s) URN_PREFIX = Some rest" "split_once colon rest = Some (seg, i)"
      "from_segment seg = Some kind" "parse_digits i = Some n" "new_ref kind n = Some r"
    by (auto simp: parse_urn_def bind_eq_Some_conv split: prod.splits)
  then show "valid_ref r \<and> trim s = urn r"
    by (auto simp: strip_prefix_Some split_once_Some from_segment_Some new_ref_Some urn_def
        dest: parse_digits_Some)
next
  assume r: "valid_ref r \<and> trim s = urn r"
  then have "strip_prefix (trim s) URN_PREFIX = Some (segment (er_kind r) @ colon # dec (er_id r))"
    by (simp add: strip_prefix_Some urn_def)
  moreover have "split_once colon (segment (er_kind r) @ colon # dec (er_id r)) =
      Some (segment (er_kind r), dec (er_id r))"
    by (simp add: split_once_Some)
  moreover have "new_ref (er_kind r) (er_id r) = Some r"
    using r by (simp add: new_ref_Some)
  ultimately show "parse_urn s = Some r"
    using r parse_digits_dec [of "er_id r"]
    by (simp add: parse_urn_def segment_from valid_ref_def)
qed

interpretation urn_codec: round_trip urn parse_urn valid_ref
  by unfold_locales (simp add: parse_urn_Some)

lemma parse_ref_Some:
  "parse_ref k s = Some r \<longleftrightarrow>
     valid_ref r \<and> er_kind r = k \<and> (trim s = urn r \<or> trim s = dec (er_id r))"
proof -
  have no_colon: "trim s = dec n \<Longrightarrow> colon \<notin> set (trim s) \<and> parse_urn (trim s) = None" for n
    using digits_no_colon [of n] parse_urn_Some [of "trim s"]
    by (cases "parse_urn (trim s)") (auto simp: urn_def)
  have colon: "trim s = urn r \<Longrightarrow> valid_ref r \<Longrightarrow> parse_urn (trim s) = Some r" for r
    by (simp add: parse_urn_Some)
  have sound: "parse_ref k s = Some r \<Longrightarrow>
      valid_ref r \<and> er_kind r = k \<and> (trim s = urn r \<or> trim s = dec (er_id r))"
    by (auto simp: parse_ref_def Let_def parse_urn_Some new_ref_Some bind_eq_Some_conv
        split: option.splits if_splits dest: parse_digits_Some)
  show ?thesis
    using sound no_colon colon parse_digits_dec [of "er_id r"]
    by (auto simp: parse_ref_def Let_def valid_ref_def new_ref_def)
qed

lemma object_key_inject: "object_key r = object_key r' \<longleftrightarrow> r = r'"
proof
  have name: "storage_name r = lit ''soundcloud_'' @ segment (er_kind r) @ 95 # dec (er_id r)" for r
  proof -
    have "map (\<lambda>c. if c = colon then 95 else c) (segment (er_kind r)) = segment (er_kind r)"
      by (cases "er_kind r") (simp_all add: lit_def)
    moreover have "map (\<lambda>c. if c = colon then 95 else c) (dec (er_id r)) = dec (er_id r)"
      using digits_no_colon by (intro map_idI) auto
    ultimately show ?thesis
      by (simp add: storage_name_def urn_def URN_PREFIX_def lit_def)
  qed
  assume "object_key r = object_key r'"
  then have "segment (er_kind r) @ 95 # dec (er_id r) = segment (er_kind r') @ 95 # dec (er_id r')"
    by (simp add: object_key_def name)
  then have "er_kind r = er_kind r' \<and> dec (er_id r) = dec (er_id r')"
    by (cases "er_kind r"; cases "er_kind r'") (simp_all add: lit_def)
  then show "r = r'" by simp
qed simp

text \<open>
  C40. Identifiers round-trip: what is written as a urn or as a bare id is read back as the same
  reference, references have different storage keys, and whatever spelling of a track is accepted
  (blanks around it, a bare number, a urn) becomes one canonical urn, which is its own canonical
  form.
\<close>

theorem entity_ref_round_trip:
  assumes "valid_ref r"
  shows "parse_ref (er_kind r) (urn r) = Some r \<and> parse_ref (er_kind r) (sc_id r) = Some r \<and>
    is_canonical_urn (er_kind r) (urn r) \<and> (object_key r = object_key r' \<longleftrightarrow> r = r') \<and>
    (track_urn s = Some u \<longrightarrow> track_urn u = Some u \<and> is_canonical_urn Track u)"
proof -
  have "parse_ref (er_kind x) (urn x) = Some x" "is_canonical_urn (er_kind x) (urn x)" if "valid_ref x" for x
    using that parse_urn_Some [of "urn x" x] by (simp_all add: parse_ref_Some is_canonical_urn_def)
  moreover have "parse_ref (er_kind r) (sc_id r) = Some r"
    using assms by (simp add: parse_ref_Some sc_id_def)
  moreover have "\<exists>x. valid_ref x \<and> er_kind x = Track \<and> u = urn x" if "track_urn s = Some u"
    using that by (auto simp: track_urn_def parse_ref_Some)
  ultimately show ?thesis
    using assms object_key_inject by (auto simp: track_urn_def) metis+
qed

theorem entity_ref_round_trip_witness:
  "parse_ref Track (urn \<lparr>er_kind = Track, er_id = 42\<rparr>) = Some \<lparr>er_kind = Track, er_id = 42\<rparr>"
  using entity_ref_round_trip [of "\<lparr>er_kind = Track, er_id = 42\<rparr>"] by (simp add: valid_ref_def)

end
