(* ===== verification/Room_Model.thy ===== *)
theory Room_Model
  imports Entity_Ref
begin

text \<open>
  \<open>api/src/modules/rooms/model.rs\<close> and \<open>model/*.rs\<close>: the listening room, its members and every
  operation that changes it. Operations of the code that mutate \<open>&mut self\<close> return the new room
  here; one that fails returns the error and no room, as every caller discards the copy it was
  changing. URL parsing (crate \<open>url\<close>), the byte size of a serialised JSON value and the random
  draws of a room code are arguments. Finite \<open>f64\<close> playback rates are rationals: the code only
  compares them.
\<close>

section \<open>Data\<close>

type_synonym user = str
type_synonym room_code = str

record member =
  user_id :: user
  name :: str
  avatar_url :: "str option"
  joined_at :: int
  ready_urn :: "str option"
  chat_from_seq :: int

datatype playback_status = Idle | Loading | Playing | Paused

record playback =
  pb_status :: playback_status
  pb_track :: "json option"
  pb_track_urn :: "str option"
  pb_next_track :: "json option"
  pb_position_ms :: int
  pb_at :: int
  pb_rate :: rat
  pb_crossfade_sec :: nat

definition default_playback :: playback where
  "default_playback =
     \<lparr>pb_status = Idle, pb_track = None, pb_track_urn = None, pb_next_track = None,
      pb_position_ms = 0, pb_at = 0, pb_rate = 1, pb_crossfade_sec = 0\<rparr>"

record mute =
  mute_user_id :: user
  until_ms :: int

record perks =
  star_host :: bool
  perk_capacity :: nat
  mods_max :: nat

record cover =
  cover_url :: str
  accent :: nat

datatype room_images = Members | Mods | Off

datatype backdrop = Preset str | Image uuid

record room =
  code :: room_code
  host_id :: user
  version :: nat
  created_at :: int
  members :: "member list"
  playback :: playback
  public :: bool
  title :: "str option"
  chat_id :: "uuid option"
  moderators :: "user list"
  banned :: "user list"
  muted :: "mute list"
  slow_mode_s :: "nat option"
  chat_enabled :: bool
  links :: bool
  unlisted :: bool
  room_perks :: perks
  room_cover :: "cover option"
  room_images :: "room_images option"
  room_backdrop :: "backdrop option"
  room_id :: uuid

record profile =
  profile_name :: str
  profile_avatar_url :: "str option"

record playback_update =
  upd_status :: playback_status
  upd_track :: "json option"
  upd_track_urn :: "str option"
  upd_next_track :: "json option"
  upd_position_ms :: int
  upd_lead_ms :: int
  upd_rate :: "rat option"
  upd_crossfade_sec :: "nat option"

text \<open>What \<open>url::Url\<close> offers of a parsed URL.\<close>

record url =
  url_scheme :: str
  url_host_str :: "str option"
  url_string :: str

type_synonym url_parse = "str \<Rightarrow> url option"
type_synonym json_size = "json \<Rightarrow> nat"

definition MAX_TRACK_BYTES :: nat where "MAX_TRACK_BYTES = 24 * 1024"
definition MAX_START_LEAD_MS :: int where "MAX_START_LEAD_MS = 3000"

definition not_member :: app_error where
  "not_member = coded 404 (lit ''room_not_member'') (lit ''You are not in this room'')"

definition banned_error :: app_error where
  "banned_error = coded 403 (lit ''room_banned'') (lit ''You were banned from this room'')"

section \<open>Text: codes, names, titles, pictures\<close>

definition CODE_LEN :: nat where "CODE_LEN = 6"

definition CODE_ALPHABET :: str where
  "CODE_ALPHABET = lit ''ABCDEFGHJKLMNPQRSTUVWXYZ23456789''"

text \<open>The draws are what \<open>gen_range(0..CODE_ALPHABET.len())\<close> returned, one per character.\<close>

definition new_code :: "nat list \<Rightarrow> room_code" where
  "new_code draws = map (\<lambda>i. CODE_ALPHABET ! (draws ! i)) [0..<CODE_LEN]"

definition normalize_code :: "str \<Rightarrow> room_code option" where
  "normalize_code input =
     (let c = map to_ascii_uppercase (filter (\<lambda>c. \<not> is_whitespace c \<and> c \<noteq> 45) input)
      in if str_len c = CODE_LEN \<and> (\<forall>b \<in> set c. b \<in> set CODE_ALPHABET) then Some c else None)"

definition MAX_TITLE_CHARS :: nat where "MAX_TITLE_CHARS = 48"

definition invisible :: "rchar \<Rightarrow> bool" where
  "invisible c \<longleftrightarrow>
     (0x200B \<le> c \<and> c \<le> 0x200F) \<or> (0x202A \<le> c \<and> c \<le> 0x202E) \<or> (0x2060 \<le> c \<and> c \<le> 0x2069) \<or>
     c = 0xFEFF"

definition clean_title :: "str \<Rightarrow> str option" where
  "clean_title raw =
     (let visible = filter (\<lambda>c. \<not> is_control c \<and> \<not> invisible c)
                      (map (\<lambda>c. if is_whitespace c then 0x20 else c) raw);
          t = trim_end (take MAX_TITLE_CHARS (join_with [0x20] (split_whitespace visible)))
      in if t = [] then None else Some t)"

definition MAX_NAME_CHARS :: nat where "MAX_NAME_CHARS = 64"
definition MAX_AVATAR_CHARS :: nat where "MAX_AVATAR_CHARS = 512"

definition clean_name :: "str \<Rightarrow> str \<Rightarrow> str" where
  "clean_name nm fallback =
     (let n = take MAX_NAME_CHARS (filter (\<lambda>c. \<not> is_control c) (trim nm))
      in if n = [] then fallback else n)"

definition clean_avatar :: "str option \<Rightarrow> str option" where
  "clean_avatar u =
     Option.bind u (\<lambda>raw. let t = trim raw in
       if starts_with t (lit ''https://'') \<and> str_len t \<le> MAX_AVATAR_CHARS then Some t else None)"

definition new_member :: "user \<Rightarrow> profile \<Rightarrow> int \<Rightarrow> member" where
  "new_member uid prof now =
     \<lparr>user_id = uid, name = clean_name (profile_name prof) uid,
      avatar_url = clean_avatar (profile_avatar_url prof), joined_at = now, ready_urn = None,
      chat_from_seq = 0\<rparr>"

definition reading_from :: "int \<Rightarrow> member \<Rightarrow> member" where
  "reading_from seq m = m\<lparr>chat_from_seq := max seq 0\<rparr>"

definition MAX_IMAGE_CHARS :: nat where "MAX_IMAGE_CHARS = 512"
definition IMAGE_HOST :: str where "IMAGE_HOST = lit ''sndcdn.com''"

definition artwork_url :: "url_parse \<Rightarrow> str \<Rightarrow> str option" where
  "artwork_url parse raw =
     (if MAX_IMAGE_CHARS < str_len raw then None
      else Option.bind (parse raw) (\<lambda>u.
           Option.bind (url_host_str u) (\<lambda>host.
             let trusted = host = IMAGE_HOST \<or>
                   (case strip_suffix host IMAGE_HOST of None \<Rightarrow> False | Some rest \<Rightarrow> ends_with rest [46])
             in if url_scheme u = lit ''https'' \<and> trusted then Some (url_string u) else None)))"

section \<open>Perks, covers, backdrops\<close>

definition FREE_CAPACITY :: nat where "FREE_CAPACITY = 10"
definition FREE_MODS_MAX :: nat where "FREE_MODS_MAX = 3"
definition STAR_CAPACITY :: nat where "STAR_CAPACITY = 25"
definition STAR_MODS_MAX :: nat where "STAR_MODS_MAX = 8"
definition COVER_ACCENTS :: nat where "COVER_ACCENTS = 8"

definition perks_free :: perks where
  "perks_free = \<lparr>star_host = False, perk_capacity = FREE_CAPACITY, mods_max = FREE_MODS_MAX\<rparr>"

definition perks_star :: perks where
  "perks_star = \<lparr>star_host = True, perk_capacity = STAR_CAPACITY, mods_max = STAR_MODS_MAX\<rparr>"

definition perks_of :: "bool \<Rightarrow> perks" where
  "perks_of star = (if star then perks_star else perks_free)"

definition cover_checked :: "url_parse \<Rightarrow> cover \<Rightarrow> cover option" where
  "cover_checked parse c =
     Option.bind (artwork_url parse (cover_url c)) (\<lambda>u.
       if accent c < COVER_ACCENTS then Some \<lparr>cover_url = u, accent = accent c\<rparr> else None)"

fun images_resolve :: "room_images option \<Rightarrow> bool \<Rightarrow> room_images" where
  "images_resolve None True = Mods"
| "images_resolve (Some Members) True = Mods"
| "images_resolve None False = Members"
| "images_resolve (Some policy) _ = policy"

definition images_policy :: "room \<Rightarrow> room_images" where
  "images_policy r = images_resolve (room_images r) (public r)"

definition capacity :: "room \<Rightarrow> nat" where
  "capacity r = perk_capacity (room_perks r)"

definition is_full :: "room \<Rightarrow> bool" where
  "is_full r \<longleftrightarrow> capacity r \<le> length (members r)"

definition cover_shown :: "room \<Rightarrow> cover option" where
  "cover_shown r = (if star_host (room_perks r) then room_cover r else None)"

definition PRESETS :: "str list" where
  "PRESETS =
     [lit ''aurora'', lit ''vinyl'', lit ''sunset-clouds'', lit ''ocean-rays'', lit ''dunes'',
      lit ''misty-forest'', lit ''snow-lamp'', lit ''satin'', lit ''paper'', lit ''peach-clouds'',
      lit ''pastel-lake'', lit ''watercolor'', lit ''candy-sky'']"

fun backdrop_known :: "backdrop \<Rightarrow> bool" where
  "backdrop_known (Preset i) = (i \<in> set PRESETS)"
| "backdrop_known (Image _) = True"

fun backdrop_image :: "backdrop \<Rightarrow> uuid option" where
  "backdrop_image (Image media_id) = Some media_id"
| "backdrop_image (Preset _) = None"

definition backdrop_shown :: "room \<Rightarrow> backdrop option" where
  "backdrop_shown r = (if star_host (room_perks r) then room_backdrop r else None)"

definition backdrop_in_public :: "room \<Rightarrow> backdrop option" where
  "backdrop_in_public r =
     Option.bind (backdrop_shown r) (\<lambda>b. if backdrop_image b = None then Some b else None)"

definition image_backdrop :: "room \<Rightarrow> uuid option" where
  "image_backdrop r = Option.bind (room_backdrop r) backdrop_image"

definition image_shown :: "room \<Rightarrow> uuid option" where
  "image_shown r = Option.bind (backdrop_shown r) backdrop_image"

definition drop_image_backdrop :: "room \<Rightarrow> room" where
  "drop_image_backdrop r = (if image_backdrop r \<noteq> None then r\<lparr>room_backdrop := None\<rparr> else r)"

definition clear_image_backdrop :: "uuid \<Rightarrow> room \<Rightarrow> room \<times> bool" where
  "clear_image_backdrop media r =
     (if image_backdrop r \<noteq> Some media then (r, False) else (r\<lparr>room_backdrop := None\<rparr>, True))"

end
