(* ===== verification/Room_Ops.thy ===== *)
theory Room_Ops
  imports Room_Model
begin

text \<open>
  The operations of \<open>impl Room\<close> (\<open>rooms/model.rs\<close>, \<open>model/handoff.rs\<close>, \<open>model/moderation.rs\<close>,
  \<open>model/playback.rs\<close>, \<open>model/settings.rs\<close>). An operation that fails changes nothing: every
  caller drops the copy it was changing.
\<close>

section \<open>Membership\<close>

definition new_room :: "room_code \<Rightarrow> member \<Rightarrow> bool \<Rightarrow> int \<Rightarrow> uuid \<Rightarrow> room" where
  "new_room c host pub now fresh =
     \<lparr>code = c, host_id = user_id host, version = 1, created_at = now, members = [host],
      playback = default_playback, public = pub, title = None, chat_id = None, moderators = [],
      banned = [], muted = [], slow_mode_s = None, chat_enabled = True, links = True,
      unlisted = False, room_perks = perks_free, room_cover = None, room_images = None,
      room_backdrop = None, room_id = fresh\<rparr>"

definition is_member :: "room \<Rightarrow> user \<Rightarrow> bool" where
  "is_member r u \<longleftrightarrow> (\<exists>m \<in> set (members r). user_id m = u)"

definition member_of :: "room \<Rightarrow> user \<Rightarrow> member option" where
  "member_of r u = find (\<lambda>m. user_id m = u) (members r)"

definition is_host :: "room \<Rightarrow> user \<Rightarrow> bool" where
  "is_host r u \<longleftrightarrow> host_id r = u"

definition is_banned :: "room \<Rightarrow> user \<Rightarrow> bool" where
  "is_banned r u \<longleftrightarrow> u \<in> set (banned r)"

definition set_public :: "user \<Rightarrow> bool \<Rightarrow> room \<Rightarrow> room app_result" where
  "set_public u pub r =
     (if \<not> is_host r u then Inl (Forbidden (lit ''Only the host opens or closes the room''))
      else Inr (r\<lparr>public := pub\<rparr>))"

definition keep_members_only :: "room \<Rightarrow> room" where
  "keep_members_only r =
     r\<lparr>moderators := filter (\<lambda>u. u \<in> set (map user_id (members r))) (moderators r)\<rparr>"

definition drop_absent :: "user list \<Rightarrow> int \<Rightarrow> room \<Rightarrow> room" where
  "drop_absent online joined_after r =
     keep_members_only
       (r\<lparr>members := filter (\<lambda>m. user_id m = host_id r \<or> joined_at m > joined_after \<or>
                                user_id m \<in> set online) (members r)\<rparr>)"

definition room_full :: app_error where
  "room_full = coded 409 (lit ''room_full'') (lit ''This listening room is full'')"

definition join :: "member \<Rightarrow> room \<Rightarrow> room app_result" where
  "join m r =
     (if is_member r (user_id m)
      then Inr (r\<lparr>members := update_first (\<lambda>x. user_id x = user_id m)
                               (\<lambda>x. x\<lparr>name := name m, avatar_url := avatar_url m\<rparr>) (members r)\<rparr>)
      else if is_banned r (user_id m) then Inl banned_error
      else if is_full r then Inl room_full
      else Inr (r\<lparr>members := members r @ [m]\<rparr>))"

definition remove_member :: "user \<Rightarrow> room \<Rightarrow> room \<times> bool" where
  "remove_member u r =
     (let r' = keep_members_only (r\<lparr>members := filter (\<lambda>m. user_id m \<noteq> u) (members r)\<rparr>)
      in (r', length (members r') \<noteq> length (members r)))"

section \<open>Passing the room on\<close>

definition next_host :: "user \<Rightarrow> user list \<Rightarrow> room \<Rightarrow> user option" where
  "next_host leaving candidates r =
     map_option user_id
       (min_by (\<lambda>a b. (joined_at a, user_id a) < (joined_at b, user_id b))
         (filter (\<lambda>m. user_id m \<noteq> leaving \<and> user_id m \<in> set candidates) (members r)))"

definition hand_off :: "user \<Rightarrow> user list \<Rightarrow> room \<Rightarrow> (room \<times> user) option" where
  "hand_off leaving candidates r =
     (case next_host leaving candidates r of
        None \<Rightarrow> None
      | Some next \<Rightarrow>
          let r1 = fst (remove_member leaving r);
              r2 = r1\<lparr>host_id := next,
                      moderators := filter (\<lambda>u. u \<noteq> next) (moderators r1),
                      muted := filter (\<lambda>m. mute_user_id m \<noteq> next) (muted r1)\<rparr>
          in Some (drop_image_backdrop r2, next))"

section \<open>Moderation\<close>

definition MAX_BANNED :: nat where "MAX_BANNED = 200"
definition MAX_MUTE_SECS :: nat where "MAX_MUTE_SECS = 24 * 3600"
definition MAX_MUTED :: nat where "MAX_MUTED = 200"
definition MAX_USER_ID_CHARS :: nat where "MAX_USER_ID_CHARS = 24"

definition not_allowed :: app_error where
  "not_allowed =
     coded 403 (lit ''room_not_allowed'') (lit ''Only the host or a moderator can do this'')"

definition host_only :: app_error where
  "host_only = coded 403 (lit ''room_host_only'') (lit ''Only the host can do this'')"

definition missing :: app_error where
  "missing = coded 404 (lit ''room_member_missing'') (lit ''This person is not in the room'')"

definition moderators_full :: app_error where
  "moderators_full =
     coded 409 (lit ''room_moderators_full'') (lit ''This room has all the moderators it can have'')"

definition plausible_user :: "str \<Rightarrow> bool" where
  "plausible_user i =
     (let digits = (case strip_prefix i (lit ''lt:'') of None \<Rightarrow> i | Some d \<Rightarrow> d)
      in str_len i \<le> MAX_USER_ID_CHARS \<and> digits \<noteq> [] \<and> (\<forall>b \<in> set digits. is_ascii_digit b))"

definition is_moderator :: "room \<Rightarrow> user \<Rightarrow> bool" where
  "is_moderator r u \<longleftrightarrow> u \<in> set (moderators r)"

definition can_moderate :: "room \<Rightarrow> user \<Rightarrow> bool" where
  "can_moderate r u \<longleftrightarrow> is_host r u \<or> is_moderator r u"

definition may_act_on :: "user \<Rightarrow> user \<Rightarrow> room \<Rightarrow> unit app_result" where
  "may_act_on actor target r =
     (let outranked = is_host r target \<or> (\<not> is_host r actor \<and> is_moderator r target)
      in if \<not> can_moderate r actor \<or> actor = target \<or> outranked then Inl not_allowed else Inr ())"

definition kick :: "user \<Rightarrow> user \<Rightarrow> room \<Rightarrow> room app_result" where
  "kick actor target r =
     and_then (may_act_on actor target r) (\<lambda>_.
       case remove_member target r of (r', gone) \<Rightarrow> if \<not> gone then Inl missing else Inr r')"

definition ban :: "user \<Rightarrow> user \<Rightarrow> room \<Rightarrow> room app_result" where
  "ban actor target r =
     (if \<not> is_host r actor then Inl host_only
      else if actor = target then Inl not_allowed
      else if \<not> is_member r target \<and> \<not> plausible_user target then Inl missing
      else let r1 = fst (remove_member target r);
               b = (if is_banned r1 target then banned r1 else banned r1 @ [target])
           in Inr (r1\<lparr>banned := trim_front MAX_BANNED b\<rparr>))"

definition mute_member :: "user \<Rightarrow> user \<Rightarrow> nat \<Rightarrow> int \<Rightarrow> room \<Rightarrow> room app_result" where
  "mute_member actor target seconds now r =
     and_then (may_act_on actor target r) (\<lambda>_.
       if \<not> is_member r target then Inl missing
       else let kept = filter (\<lambda>m. until_ms m > now \<and> mute_user_id m \<noteq> target) (muted r);
                added = (if 0 < seconds
                         then [\<lparr>mute_user_id = target,
                                until_ms = now + int (min seconds MAX_MUTE_SECS) * 1000\<rparr>] else [])
            in Inr (r\<lparr>muted := trim_front MAX_MUTED (kept @ added)\<rparr>))"

definition muted_until :: "room \<Rightarrow> user \<Rightarrow> int \<Rightarrow> int option" where
  "muted_until r u now =
     map_option until_ms (find (\<lambda>m. mute_user_id m = u \<and> until_ms m > now) (muted r))"

definition set_moderator :: "user \<Rightarrow> user \<Rightarrow> bool \<Rightarrow> room \<Rightarrow> room app_result" where
  "set_moderator actor target on r =
     (if \<not> is_host r actor then Inl host_only
      else if is_host r target then Inl not_allowed
      else if \<not> on then Inr (r\<lparr>moderators := filter (\<lambda>u. u \<noteq> target) (moderators r)\<rparr>)
      else if \<not> is_member r target then Inl missing
      else if is_moderator r target then Inr r
      else if mods_max (room_perks r) \<le> length (moderators r) then Inl moderators_full
      else Inr (r\<lparr>moderators := moderators r @ [target]\<rparr>))"

section \<open>Playback\<close>

definition MIN_RATE :: rat where "MIN_RATE = 1 / 2"
definition MAX_RATE :: rat where "MAX_RATE = 2"
definition MAX_CROSSFADE_SEC :: nat where "MAX_CROSSFADE_SEC = 12"

definition check_snapshot :: "json_size \<Rightarrow> json option \<Rightarrow> unit app_result" where
  "check_snapshot bytes track =
     (case track of None \<Rightarrow> Inr ()
      | Some v \<Rightarrow> if MAX_TRACK_BYTES < bytes v \<or> \<not> is_object v
                  then Inl (BadRequest (lit ''track snapshot is too large'')) else Inr ())"

definition update_urn :: "playback_update \<Rightarrow> str option app_result" where
  "update_urn upd =
     (case upd_track_urn upd of None \<Rightarrow> Inr None
      | Some raw \<Rightarrow> and_then (require_ref Track raw) (\<lambda>ref. Inr (Some (urn ref))))"

definition set_playback ::
  "json_size \<Rightarrow> user \<Rightarrow> playback_update \<Rightarrow> int \<Rightarrow> room \<Rightarrow> room app_result" where
  "set_playback bytes u upd now r =
     (if \<not> is_host r u then Inl (Forbidden (lit ''Only the host controls playback''))
      else and_then (update_urn upd) (\<lambda>t_urn.
        if t_urn = None \<and> upd_status upd \<noteq> Idle then Inl (BadRequest (lit ''trackUrn is required''))
        else and_then (check_snapshot bytes (upd_track upd)) (\<lambda>_.
             and_then (check_snapshot bytes (upd_next_track upd)) (\<lambda>_.
          let old = playback r;
              same_track = (t_urn = pb_track_urn old);
              track = (case upd_track upd of Some t \<Rightarrow> Some t
                       | None \<Rightarrow> if same_track then pb_track old else None);
              next_track = (case upd_next_track upd of Some t \<Rightarrow> Some t
                            | None \<Rightarrow> if same_track then pb_next_track old else None)
          in Inr (r\<lparr>playback :=
               \<lparr>pb_status = upd_status upd, pb_track = track, pb_track_urn = t_urn,
                pb_next_track = next_track,
                pb_position_ms = max (upd_position_ms upd) 0,
                pb_at = now + max 0 (min (upd_lead_ms upd) MAX_START_LEAD_MS),
                pb_rate = max MIN_RATE (min (case upd_rate upd of None \<Rightarrow> 1 | Some x \<Rightarrow> x) MAX_RATE),
                pb_crossfade_sec =
                  min (case upd_crossfade_sec upd of None \<Rightarrow> pb_crossfade_sec old | Some x \<Rightarrow> x)
                    MAX_CROSSFADE_SEC\<rparr>\<rparr>)))))"

definition mark_ready :: "user \<Rightarrow> str \<Rightarrow> room \<Rightarrow> (room \<times> bool) app_result" where
  "mark_ready u t_urn r =
     and_then (require_ref Track t_urn) (\<lambda>ref.
     and_then (ok_or not_member (member_of r u)) (\<lambda>m.
       if ready_urn m = Some (urn ref) then Inr (r, False)
       else Inr (r\<lparr>members := update_first (\<lambda>x. user_id x = u)
                                (\<lambda>x. x\<lparr>ready_urn := Some (urn ref)\<rparr>) (members r)\<rparr>, True)))"

section \<open>Settings\<close>

definition MAX_SLOW_MODE_SECS :: nat where "MAX_SLOW_MODE_SECS = 600"
definition PUBLIC_SLOW_MODE_SECS :: nat where "PUBLIC_SLOW_MODE_SECS = 3"

record settings_patch =
  patch_title :: "str option"
  patch_slow_mode_s :: "nat option"
  patch_chat_enabled :: "bool option"
  patch_links :: "bool option"
  patch_cover :: "cover option option"
  patch_room_images :: "room_images option"
  patch_backdrop :: "backdrop option option"

definition wanted_image :: "settings_patch \<Rightarrow> uuid option" where
  "wanted_image p = Option.bind (patch_backdrop p) (\<lambda>b. Option.bind b backdrop_image)"

definition sets_star_perk :: "settings_patch \<Rightarrow> bool" where
  "sets_star_perk p \<longleftrightarrow>
     (case patch_cover p of Some (Some _) \<Rightarrow> True | _ \<Rightarrow> False) \<or>
     (case patch_backdrop p of Some (Some _) \<Rightarrow> True | _ \<Rightarrow> False)"

definition star_required :: app_error where
  "star_required = coded 403 (lit ''room_star_required'') (lit ''Only a STAR host can do this'')"

definition invalid :: app_error where
  "invalid = coded 400 (lit ''room_invalid'') (lit ''This room setting is not valid'')"

definition cooling_down :: app_error where
  "cooling_down =
     coded 403 (lit ''room_backdrop_cooldown'') (lit ''The room image backdrop is paused for now'')"

definition set_backdrop :: "backdrop option \<Rightarrow> int option \<Rightarrow> room \<Rightarrow> room app_result" where
  "set_backdrop b cooldown r =
     (case b of None \<Rightarrow> Inr (r\<lparr>room_backdrop := None\<rparr>)
      | Some bd \<Rightarrow>
          if \<not> backdrop_known bd then Inl invalid
          else if backdrop_image bd \<noteq> None \<and> cooldown \<noteq> None then Inl cooling_down
          else Inr (r\<lparr>room_backdrop := Some bd\<rparr>))"

definition patch_the_cover :: "url_parse \<Rightarrow> settings_patch \<Rightarrow> room \<Rightarrow> room app_result" where
  "patch_the_cover parse p r =
     (case patch_cover p of None \<Rightarrow> Inr r
      | Some None \<Rightarrow> Inr (r\<lparr>room_cover := None\<rparr>)
      | Some (Some c) \<Rightarrow>
          and_then (ok_or invalid (cover_checked parse c)) (\<lambda>c'. Inr (r\<lparr>room_cover := Some c'\<rparr>)))"

definition patch_the_images :: "settings_patch \<Rightarrow> room \<Rightarrow> room app_result" where
  "patch_the_images p r =
     (case patch_room_images p of None \<Rightarrow> Inr r
      | Some policy \<Rightarrow>
          if policy = Members \<and> public r then Inl invalid
          else Inr (r\<lparr>room_images := Some policy\<rparr>))"

definition patch_the_backdrop :: "int option \<Rightarrow> settings_patch \<Rightarrow> room \<Rightarrow> room app_result" where
  "patch_the_backdrop cooldown p r =
     (case patch_backdrop p of None \<Rightarrow> Inr r | Some b \<Rightarrow> set_backdrop b cooldown r)"

definition patch_the_rest :: "settings_patch \<Rightarrow> room \<Rightarrow> room" where
  "patch_the_rest p r =
     (let r1 = (case patch_title p of None \<Rightarrow> r | Some t \<Rightarrow> r\<lparr>title := clean_title t\<rparr>);
          r2 = (case patch_slow_mode_s p of None \<Rightarrow> r1
                | Some s \<Rightarrow> r1\<lparr>slow_mode_s := Some (min s MAX_SLOW_MODE_SECS)\<rparr>);
          r3 = (case patch_chat_enabled p of None \<Rightarrow> r2 | Some on \<Rightarrow> r2\<lparr>chat_enabled := on\<rparr>)
      in (case patch_links p of None \<Rightarrow> r3 | Some on \<Rightarrow> r3\<lparr>links := on\<rparr>))"

definition apply_settings ::
  "url_parse \<Rightarrow> user \<Rightarrow> settings_patch \<Rightarrow> int option \<Rightarrow> room \<Rightarrow> room app_result" where
  "apply_settings parse actor p cooldown r =
     (if \<not> is_host r actor then Inl host_only
      else if sets_star_perk p \<and> \<not> star_host (room_perks r) then Inl star_required
      else and_then (patch_the_cover parse p r) (\<lambda>r1.
           and_then (patch_the_images p r1) (\<lambda>r2.
           and_then (patch_the_backdrop cooldown p r2) (\<lambda>r3. Inr (patch_the_rest p r3)))))"

definition slow_mode :: "room \<Rightarrow> nat" where
  "slow_mode r =
     (case slow_mode_s r of Some s \<Rightarrow> s | None \<Rightarrow> if public r then PUBLIC_SLOW_MODE_SECS else 0)"

end
