(* ===== verification/Room_Title.thy ===== *)
theory Room_Title
  imports Room_Model
begin

text \<open>
  \<open>rooms/model/title.rs\<close>: what \<open>clean_title\<close> returns is a clean text of at most 48 characters,
  and cleaning it again changes nothing.
\<close>

section \<open>Room titles\<close>

text \<open>A clean title: visible characters, single inner spaces, no space at either end.\<close>

definition title_char :: "rchar \<Rightarrow> bool" where
  "title_char c \<longleftrightarrow> \<not> is_control c \<and> \<not> invisible c \<and> (is_whitespace c \<longrightarrow> c = 0x20)"

fun single_spaced :: "str \<Rightarrow> bool" where
  "single_spaced [] = True"
| "single_spaced [c] = True"
| "single_spaced (c # d # cs) = (\<not> (is_whitespace c \<and> is_whitespace d) \<and> single_spaced (d # cs))"

definition clean_text :: "str \<Rightarrow> bool" where
  "clean_text t \<longleftrightarrow>
     (\<forall>c \<in> set t. title_char c) \<and> single_spaced t \<and>
     t \<noteq> [] \<and> \<not> is_whitespace (hd t) \<and> \<not> is_whitespace (last t)"

lemma space_is_whitespace [simp]: "is_whitespace 32"
  by (simp add: is_whitespace_def)

lemma single_spaced_take: "single_spaced s \<Longrightarrow> single_spaced (take n s)"
proof (induction s arbitrary: n rule: single_spaced.induct)
  case (3 c d cs)
  show ?case
  proof (cases n)
    case (Suc k)
    have "single_spaced (take k (d # cs))"
      using 3 by auto
    with 3 Suc show ?thesis by (cases k) auto
  qed simp
qed (auto simp: take_Cons split: nat.splits)

lemma trim_end_prefix: "\<exists>w. s = trim_end s @ w"
  unfolding trim_end_def by (metis rev_append rev_rev_ident takeWhile_dropWhile_id)

lemma prefix_take: "s = t @ w \<Longrightarrow> t = take (length t) s"
  by simp

lemma trim_end_take: "\<exists>n. trim_end s = take n s"
  by (rule exE [OF trim_end_prefix [of s]], rule exI, erule prefix_take)

lemma words_acc_clean:
  assumes "\<forall>c \<in> set s. title_char c" and "\<forall>c \<in> set w. title_char c \<and> \<not> is_whitespace c"
  shows "\<forall>v \<in> set (words_acc w s). v \<noteq> [] \<and> (\<forall>c \<in> set v. title_char c \<and> \<not> is_whitespace c)"
  using assms
proof (induction w s rule: words_acc.induct)
  case (1 w)
  then show ?case by simp
next
  case (2 w c cs)
  have cs: "\<forall>c \<in> set cs. title_char c" and c: "title_char c"
    using "2.prems" by simp_all
  consider (stop) "is_whitespace c" "w = []" | (cut) "is_whitespace c" "w \<noteq> []" | (go) "\<not> is_whitespace c"
    by blast
  then show ?case
  proof cases
    case stop
    with "2.IH"(1) cs show ?thesis by simp
  next
    case cut
    with "2.IH"(2) cs "2.prems"(2) show ?thesis by simp
  next
    case go
    with "2.IH"(3) cs c "2.prems"(2) show ?thesis by simp
  qed
qed

lemma single_spaced_word:
  "\<forall>c \<in> set w. \<not> is_whitespace c \<Longrightarrow> single_spaced (w @ s) \<longleftrightarrow> single_spaced s"
proof (induction w)
  case (Cons c w)
  then show ?case by (cases "w @ s") auto
qed simp

lemma join_words:
  assumes "\<forall>v \<in> set ws. v \<noteq> [] \<and> (\<forall>c \<in> set v. title_char c \<and> \<not> is_whitespace c)" and "ws \<noteq> []"
  shows "(\<forall>c \<in> set (join_with [32] ws). title_char c) \<and> single_spaced (join_with [32] ws) \<and>
    join_with [32] ws \<noteq> [] \<and> \<not> is_whitespace (hd (join_with [32] ws))"
  using assms
proof (induction "[32 :: nat]" ws rule: join_with.induct)
  case (2 w)
  then show ?case
    using single_spaced_word [of w "[]"] by auto
next
  case (3 w v ws)
  then have IH: "(\<forall>c \<in> set (join_with [32] (v # ws)). title_char c)"
      "single_spaced (join_with [32] (v # ws))" "join_with [32] (v # ws) \<noteq> []"
      "\<not> is_whitespace (hd (join_with [32] (v # ws)))"
    by auto
  then obtain d ds where d: "join_with [32] (v # ws) = d # ds" "\<not> is_whitespace d"
    by (cases "join_with [32] (v # ws)") auto
  have w: "w \<noteq> []" "\<forall>c \<in> set w. title_char c \<and> \<not> is_whitespace c"
    using 3 by auto
  moreover have "title_char 32"
    by (simp add: title_char_def is_control_def invisible_def)
  moreover have "single_spaced (w @ 32 # d # ds)"
    using w d IH by (simp add: single_spaced_word)
  ultimately show ?case
    using IH d by (auto simp: hd_append)
qed simp

lemma clean_title_clean:
  assumes "clean_title raw = Some t"
  shows "clean_text t \<and> length t \<le> MAX_TITLE_CHARS"
proof -
  define visible where "visible = filter (\<lambda>c. \<not> is_control c \<and> \<not> invisible c)
      (map (\<lambda>c. if is_whitespace c then 0x20 else c) raw)"
  define ws where "ws = split_whitespace visible"
  have t: "t = trim_end (take MAX_TITLE_CHARS (join_with [32] ws))" "t \<noteq> []"
    using assms by (auto simp: clean_title_def Let_def visible_def ws_def split: if_splits)
  have "\<forall>c \<in> set visible. title_char c"
    by (auto simp: visible_def title_char_def)
  then have ws: "\<forall>v \<in> set ws. v \<noteq> [] \<and> (\<forall>c \<in> set v. title_char c \<and> \<not> is_whitespace c)"
    unfolding ws_def split_whitespace_def by (rule words_acc_clean) simp
  moreover have "ws \<noteq> []"
    using t by (auto simp: trim_end_def)
  ultimately have j: "\<forall>c \<in> set (join_with [32] ws). title_char c"
      "single_spaced (join_with [32] ws)" "\<not> is_whitespace (hd (join_with [32] ws))"
    using join_words [of ws] by blast+
  obtain n where n: "t = take n (take MAX_TITLE_CHARS (join_with [32] ws))"
    using trim_end_take t(1) by metis
  then have "\<forall>c \<in> set t. title_char c" "single_spaced t" "hd t = hd (join_with [32] ws)"
    using j t(2) by (auto simp: single_spaced_take dest!: in_set_takeD)
  moreover have "\<not> is_whitespace (last t)"
    using t by (metis last_trim_end)
  ultimately show ?thesis
    using j t(2) n by (auto simp: clean_text_def)
qed

lemma words_acc_join:
  assumes "\<forall>c \<in> set w. \<not> is_whitespace c" "single_spaced (rev w @ s)"
    "\<forall>c \<in> set s. is_whitespace c \<longrightarrow> c = 32"
    "s = [] \<or> \<not> is_whitespace (last s)" "w \<noteq> [] \<or> (s \<noteq> [] \<and> \<not> is_whitespace (hd s))"
  shows "words_acc w s \<noteq> [] \<and> join_with [32] (words_acc w s) = rev w @ s"
  using assms
proof (induction w s rule: words_acc.induct)
  case (1 w)
  then show ?case by auto
next
  case (2 w c cs)
  show ?case
  proof (cases "is_whitespace c")
    case False
    then have "words_acc (c # w) cs \<noteq> [] \<and>
        join_with [32] (words_acc (c # w) cs) = rev (c # w) @ cs"
      using 2 by (intro "2.IH") (auto split: if_splits)
    with False show ?thesis by simp
  next
    case True
    with 2 have w: "w \<noteq> []" and c: "c = 32" and cs: "cs \<noteq> []"
      by auto
    have ss: "single_spaced (c # cs)"
      using "2.prems"(1,2) single_spaced_word [of "rev w" "c # cs"] by simp
    with True cs have hd: "\<not> is_whitespace (hd cs)" and "single_spaced cs"
      by (cases cs; auto)+
    then have "words_acc [] cs \<noteq> [] \<and> join_with [32] (words_acc [] cs) = cs"
      using 2 True w cs by (auto split: if_splits)
    then show ?thesis
      using True w c by (cases "words_acc [] cs") auto
  qed
qed

lemma clean_title_idem:
  assumes "clean_text t" and "length t \<le> MAX_TITLE_CHARS"
  shows "clean_title t = Some t"
proof -
  have chars: "\<forall>c \<in> set t. title_char c"
    using assms by (simp add: clean_text_def)
  then have m: "map (\<lambda>c. if is_whitespace c then 32 else c) t = t"
    by (intro map_idI) (auto simp: title_char_def)
  have f: "filter (\<lambda>c. \<not> is_control c \<and> \<not> invisible c) t = t"
    using chars by (intro filter_True) (auto simp: title_char_def)
  have j: "join_with [32] (words_acc [] t) = t"
    using words_acc_join [of "[]" t] assms chars by (auto simp: clean_text_def title_char_def)
  show ?thesis
    using assms by (auto simp: clean_title_def Let_def m f j split_whitespace_def clean_text_def trim_end_id)
qed

corollary clean_title_stable: "clean_title raw = Some t \<Longrightarrow> clean_title t = Some t"
  by (blast dest: clean_title_clean intro: clean_title_idem)

text \<open>
  A cleaned title has 1 to 48 characters, none of them a control or an invisible formatting
  character and every blank a plain single space; cleaning it again changes nothing.
\<close>

theorem clean_title_normal_form:
  assumes "clean_title raw = Some t"
  shows "clean_title t = Some t \<and> t \<noteq> [] \<and> length t \<le> 48 \<and>
    (\<forall>c \<in> set t. \<not> is_control c \<and> \<not> invisible c \<and> (is_whitespace c \<longrightarrow> c = 32)) \<and> single_spaced t"
  using assms clean_title_clean [OF assms] clean_title_stable [OF assms]
  by (auto simp: clean_text_def title_char_def clean_title_def Let_def MAX_TITLE_CHARS_def split: if_splits)

theorem clean_title_normal_form_witness:
  "clean_title (lit '' a  b'') = Some (lit ''a b'') \<and> clean_title (lit ''a b'') = Some (lit ''a b'')"
proof -
  have raw: "clean_title (lit '' a  b'') = Some (lit ''a b'')"
    by (simp add: clean_title_def Let_def lit_def split_whitespace_def is_whitespace_def is_control_def
        invisible_def trim_end_def MAX_TITLE_CHARS_def)
  with clean_title_normal_form [OF raw] show ?thesis by simp
qed

end
