(* ===== verification/Room_Wf.thy ===== *)
theory Room_Wf
  imports Room_Ops Room_Title
begin

text \<open>
  The invariant of a listening room and the lemmas that every operation of \<open>impl Room\<close> keeps it:
  the host is a member who is neither banned nor muted nor a moderator, members and moderators are
  listed once, moderators are members, nobody banned is a member, every list is bounded, and the
  settings hold values the code accepts.
\<close>

section \<open>The invariant\<close>

abbreviation ids :: "room \<Rightarrow> user list" where
  "ids r \<equiv> map user_id (members r)"

definition people_wf :: "room \<Rightarrow> bool" where
  "people_wf r \<longleftrightarrow>
     distinct (ids r) \<and> host_id r \<in> set (ids r) \<and> length (members r) \<le> STAR_CAPACITY \<and>
     distinct (moderators r) \<and> set (moderators r) \<subseteq> set (ids r) - {host_id r} \<and>
     length (moderators r) \<le> STAR_MODS_MAX \<and>
     distinct (banned r) \<and> set (banned r) \<inter> set (ids r) = {} \<and> length (banned r) \<le> MAX_BANNED \<and>
     distinct (map mute_user_id (muted r)) \<and> host_id r \<notin> set (map mute_user_id (muted r)) \<and>
     length (muted r) \<le> MAX_MUTED"

definition playback_wf :: "playback \<Rightarrow> bool" where
  "playback_wf p \<longleftrightarrow>
     0 \<le> pb_position_ms p \<and> MIN_RATE \<le> pb_rate p \<and> pb_rate p \<le> MAX_RATE \<and>
     pb_crossfade_sec p \<le> MAX_CROSSFADE_SEC \<and>
     pred_option (is_canonical_urn Track) (pb_track_urn p) \<and>
     (pb_status p \<noteq> Idle \<longrightarrow> pb_track_urn p \<noteq> None)"

definition look_wf :: "room \<Rightarrow> bool" where
  "look_wf r \<longleftrightarrow>
     (room_perks r = perks_free \<or> room_perks r = perks_star) \<and>
     pred_option (\<lambda>s. s \<le> MAX_SLOW_MODE_SECS) (slow_mode_s r) \<and>
     pred_option (\<lambda>c. accent c < COVER_ACCENTS) (room_cover r) \<and>
     pred_option backdrop_known (room_backdrop r) \<and>
     pred_option (\<lambda>t. clean_title t = Some t) (title r)"

definition room_wf :: "room \<Rightarrow> bool" where
  "room_wf r \<longleftrightarrow> people_wf r \<and> playback_wf (playback r) \<and> look_wf r"

lemmas limits =
  STAR_CAPACITY_def FREE_CAPACITY_def STAR_MODS_MAX_def FREE_MODS_MAX_def MAX_BANNED_def MAX_MUTED_def

lemmas room_tests = is_member_def is_host_def is_banned_def is_moderator_def can_moderate_def

section \<open>People\<close>

lemma is_member_ids: "is_member r u \<longleftrightarrow> u \<in> set (ids r)"
  by (auto simp: is_member_def)

lemma ids_keep [simp]: "members (keep_members_only r) = members r"
  by (simp add: keep_members_only_def)

lemma people_wf_cong:
  assumes "ids r' = ids r" "host_id r' = host_id r" "moderators r' = moderators r"
    "banned r' = banned r" "muted r' = muted r"
  shows "people_wf r' = people_wf r"
proof -
  have "length (members r') = length (members r)"
    using assms(1) by (metis length_map)
  with assms show ?thesis by (simp add: people_wf_def)
qed

text \<open>Dropping members other than the host.\<close>

lemma people_wf_filter:
  assumes "people_wf r" and "\<And>m. m \<in> set (members r) \<Longrightarrow> user_id m = host_id r \<Longrightarrow> P m"
  shows "people_wf (keep_members_only (r\<lparr>members := filter P (members r)\<rparr>))"
proof -
  have host: "host_id r \<in> set (map user_id (filter P (members r)))"
    using assms by (auto simp: people_wf_def)
  have sub: "set (map user_id (filter P (members r))) \<subseteq> set (ids r)"
    by auto
  have "distinct (map user_id (filter P (members r)))"
    using assms(1) by (simp add: people_wf_def distinct_map_filter)
  moreover have "length (filter P (members r)) \<le> STAR_CAPACITY"
    using assms(1) by (intro le_trans [OF length_filter_le]) (simp add: people_wf_def)
  moreover have "length (filter (\<lambda>u. u \<in> set (map user_id (filter P (members r)))) (moderators r))
      \<le> STAR_MODS_MAX"
    using assms(1) by (intro le_trans [OF length_filter_le]) (simp add: people_wf_def)
  ultimately show ?thesis
    using assms(1) host sub by (auto simp: people_wf_def keep_members_only_def)
qed

lemma people_wf_new:
  "people_wf (new_room c host pub now fresh)"
  by (simp add: people_wf_def new_room_def limits)

lemma people_wf_drop_absent: "people_wf r \<Longrightarrow> people_wf (drop_absent online after r)"
  unfolding drop_absent_def by (rule people_wf_filter) auto

lemma people_wf_remove:
  "people_wf r \<Longrightarrow> u \<noteq> host_id r \<Longrightarrow> people_wf (fst (remove_member u r))"
  unfolding remove_member_def Let_def fst_conv by (rule people_wf_filter) auto

lemma remove_member_ids: "set (ids (fst (remove_member u r))) = set (ids r) - {u}"
  by (auto simp: remove_member_def Let_def)

lemma remove_member_frame [simp]:
  "host_id (fst (remove_member u r)) = host_id r"
  "banned (fst (remove_member u r)) = banned r"
  "muted (fst (remove_member u r)) = muted r"
  "playback (fst (remove_member u r)) = playback r"
  "room_backdrop (fst (remove_member u r)) = room_backdrop r"
  "room_perks (fst (remove_member u r)) = room_perks r"
  "code (fst (remove_member u r)) = code r"
  "version (fst (remove_member u r)) = version r"
  by (simp_all add: remove_member_def keep_members_only_def Let_def)

lemma people_wf_join:
  assumes "people_wf r" and "look_wf r" and "join m r = Inr r'"
  shows "people_wf r'"
proof (cases "is_member r (user_id m)")
  case True
  then have "r' = r\<lparr>members := update_first (\<lambda>x. user_id x = user_id m)
      (\<lambda>x. x\<lparr>name := name m, avatar_url := avatar_url m\<rparr>) (members r)\<rparr>"
    using assms(3) by (simp add: join_def)
  then have "people_wf r' = people_wf r"
    by (intro people_wf_cong) (simp_all add: map_update_first)
  with assms(1) show ?thesis by simp
next
  case False
  with assms(3) have r': "r' = r\<lparr>members := members r @ [m]\<rparr>" "\<not> is_banned r (user_id m)"
    and room: "length (members r) < capacity r"
    by (auto simp: join_def is_full_def split: if_splits)
  have "capacity r \<le> STAR_CAPACITY"
    using assms(2) by (auto simp: look_wf_def capacity_def perks_free_def perks_star_def limits)
  with room have "length (members r @ [m]) \<le> STAR_CAPACITY"
    by simp
  with assms(1) False r' show ?thesis
    by (auto simp: people_wf_def is_member_ids is_banned_def)
qed

lemma next_host_Some:
  assumes "next_host leaving cands r = Some u"
  shows "u \<in> set (ids r) \<and> u \<noteq> leaving \<and> u \<in> set cands"
  using assms by (auto simp: next_host_def dest: min_by_in)

lemma drop_image_frame [simp]:
  "host_id (drop_image_backdrop r) = host_id r" "members (drop_image_backdrop r) = members r"
  "moderators (drop_image_backdrop r) = moderators r" "banned (drop_image_backdrop r) = banned r"
  "muted (drop_image_backdrop r) = muted r" "playback (drop_image_backdrop r) = playback r"
  "room_perks (drop_image_backdrop r) = room_perks r" "slow_mode_s (drop_image_backdrop r) = slow_mode_s r"
  "room_cover (drop_image_backdrop r) = room_cover r" "title (drop_image_backdrop r) = title r"
  "code (drop_image_backdrop r) = code r" "version (drop_image_backdrop r) = version r"
  by (simp_all add: drop_image_backdrop_def)

lemma people_wf_hand_off:
  assumes "people_wf r" and "host_id r = leaving" and "hand_off leaving cands r = Some (r', next)"
  shows "people_wf r' \<and> host_id r' = next \<and> next \<in> set (ids r) \<and> next \<noteq> leaving"
proof -
  from assms(3) have nh: "next_host leaving cands r = Some next"
    by (auto simp: hand_off_def Let_def split: option.splits)
  note nxt = next_host_Some [OF nh]
  let ?P = "\<lambda>m. user_id m \<noteq> leaving"
  let ?mem = "filter ?P (members r)"
  let ?mods = "filter (\<lambda>u. u \<noteq> next) (filter (\<lambda>u. u \<in> set (map user_id ?mem)) (moderators r))"
  let ?mut = "filter (\<lambda>m. mute_user_id m \<noteq> next) (muted r)"
  from assms(3) nh have eq: "members r' = ?mem" "host_id r' = next" "banned r' = banned r"
      "moderators r' = ?mods" "muted r' = ?mut"
    by (auto simp: hand_off_def Let_def remove_member_def keep_members_only_def)
  have "length ?mem \<le> STAR_CAPACITY" "length ?mods \<le> STAR_MODS_MAX" "length ?mut \<le> MAX_MUTED"
    using assms(1) unfolding people_wf_def
    by (meson le_trans length_filter_le)+
  moreover have "distinct (map user_id ?mem)" "distinct (map mute_user_id ?mut)"
    using assms(1) by (simp_all add: people_wf_def distinct_map_filter)
  ultimately show ?thesis
    using assms(1) nxt eq by (auto simp: people_wf_def)
qed

lemma may_act_on_Inr:
  "may_act_on actor target r = Inr () \<longleftrightarrow>
     can_moderate r actor \<and> actor \<noteq> target \<and> \<not> is_host r target \<and>
     (is_host r actor \<or> \<not> is_moderator r target)"
  by (auto simp: may_act_on_def Let_def)

lemma people_wf_kick: "people_wf r \<Longrightarrow> kick actor target r = Inr r' \<Longrightarrow> people_wf r'"
proof -
  assume r: "people_wf r" and k: "kick actor target r = Inr r'"
  then have "target \<noteq> host_id r" and "r' = fst (remove_member target r)"
    by (auto simp: kick_def and_then_eq_Inr may_act_on_Inr is_host_def split: prod.splits if_splits)
  with r show ?thesis by (simp add: people_wf_remove)
qed

lemma ban_Inr:
  assumes "ban actor target r = Inr r'"
  shows "host_id r = actor \<and> target \<noteq> actor \<and>
    r' = (fst (remove_member target r))\<lparr>banned := trim_front MAX_BANNED
      (if target \<in> set (banned r) then banned r else banned r @ [target])\<rparr>"
  using assms by (auto simp: ban_def Let_def is_host_def is_banned_def split: if_splits)

lemma people_wf_ban: "people_wf r \<Longrightarrow> ban actor target r = Inr r' \<Longrightarrow> people_wf r'"
proof -
  assume r: "people_wf r" and "ban actor target r = Inr r'"
  note b = ban_Inr [OF this(2)]
  let ?l = "if target \<in> set (banned r) then banned r else banned r @ [target]"
  have "people_wf (fst (remove_member target r))"
    using r b by (intro people_wf_remove) auto
  moreover have "set ?l \<inter> set (ids (fst (remove_member target r))) = {}" "distinct ?l"
    using r by (auto simp: people_wf_def remove_member_ids simp del: set_map)
  then have "set (trim_front MAX_BANNED ?l) \<inter> set (ids (fst (remove_member target r))) = {}"
      "distinct (trim_front MAX_BANNED ?l)"
    using set_trim_front [of MAX_BANNED ?l] by (blast, simp add: distinct_trim_front)
  ultimately show ?thesis
    using b by (simp add: people_wf_def)
qed

lemma people_wf_mute:
  assumes "people_wf r" and "mute_member actor target seconds now r = Inr r'"
  shows "people_wf r'"
proof -
  from assms(2) have ok: "\<not> is_host r target"
    by (auto simp: mute_member_def and_then_eq_Inr may_act_on_Inr)
  define kept where "kept = filter (\<lambda>m. until_ms m > now \<and> mute_user_id m \<noteq> target) (muted r)"
  define added where "added = (if 0 < seconds
      then [\<lparr>mute_user_id = target, until_ms = now + int (min seconds MAX_MUTE_SECS) * 1000\<rparr>]
      else [])"
  from assms(2) have r': "r' = r\<lparr>muted := trim_front MAX_MUTED (kept @ added)\<rparr>"
    by (auto simp: mute_member_def and_then_eq_Inr Let_def kept_def added_def split: if_splits)
  have "distinct (map mute_user_id (kept @ added))"
    using assms(1) by (auto simp: people_wf_def kept_def added_def distinct_map_filter)
  then have "distinct (map mute_user_id (trim_front MAX_MUTED (kept @ added)))"
    by (simp add: map_trim_front distinct_trim_front)
  moreover have "host_id r \<notin> mute_user_id ` set (kept @ added)"
    using assms(1) ok by (auto simp: people_wf_def kept_def added_def is_host_def)
  then have "host_id r \<notin> mute_user_id ` set (trim_front MAX_MUTED (kept @ added))"
    using set_trim_front [of MAX_MUTED "kept @ added"] by blast
  ultimately show ?thesis
    using assms(1) r' by (simp add: people_wf_def)
qed

lemma people_wf_set_moderator:
  assumes "people_wf r" and "look_wf r" and "set_moderator actor target on r = Inr r'"
  shows "people_wf r'"
proof -
  have "mods_max (room_perks r) \<le> STAR_MODS_MAX"
    using assms(2) by (auto simp: look_wf_def perks_free_def perks_star_def limits)
  moreover have "length (filter (\<lambda>u. u \<noteq> target) (moderators r)) \<le> STAR_MODS_MAX"
    using assms(1) by (intro le_trans [OF length_filter_le]) (simp add: people_wf_def)
  ultimately show ?thesis
    using assms(1,3)
    by (auto simp: set_moderator_def people_wf_def is_member_ids is_moderator_def is_host_def
        split: if_splits)
qed

section \<open>Playback and settings\<close>

lemma canonical_urn: "valid_ref r \<Longrightarrow> is_canonical_urn (er_kind r) (urn r)"
  using parse_urn_Some [of "urn r" r] by (simp add: is_canonical_urn_def)

lemma require_ref_Inr: "require_ref k s = Inr r \<Longrightarrow> valid_ref r \<and> er_kind r = k"
  by (auto simp: require_ref_def ok_or_eq_Inr parse_ref_Some)

lemma update_urn_canonical:
  "update_urn upd = Inr t \<Longrightarrow> pred_option (is_canonical_urn Track) t"
  by (auto simp: update_urn_def and_then_eq_Inr split: option.splits
      dest!: require_ref_Inr dest: canonical_urn)

lemma set_playback_wf:
  assumes "set_playback bytes u upd now r = Inr r'"
  shows "playback_wf (playback r')"
proof -
  obtain t where t: "update_urn upd = Inr t" "\<not> (t = None \<and> upd_status upd \<noteq> Idle)"
    and p: "pb_track_urn (playback r') = t" "pb_status (playback r') = upd_status upd"
      "0 \<le> pb_position_ms (playback r')" "MIN_RATE \<le> pb_rate (playback r')"
      "pb_rate (playback r') \<le> MAX_RATE" "pb_crossfade_sec (playback r') \<le> MAX_CROSSFADE_SEC"
    using assms
    by (auto simp: set_playback_def and_then_eq_Inr Let_def MIN_RATE_def MAX_RATE_def
        split: if_splits)
  with update_urn_canonical [OF t(1)] show ?thesis
    by (auto simp: playback_wf_def)
qed

lemma set_playback_frame:
  assumes "set_playback bytes u upd now r = Inr r'"
  shows "\<exists>p. r' = r\<lparr>playback := p\<rparr>"
  using assms by (auto simp: set_playback_def and_then_eq_Inr Let_def split: if_splits)

lemma cover_checked_accent: "cover_checked parse c = Some c' \<Longrightarrow> accent c' < COVER_ACCENTS"
  by (auto simp: cover_checked_def bind_eq_Some_conv split: if_splits)

lemma patch_the_rest_look: "look_wf r \<Longrightarrow> look_wf (patch_the_rest p r)"
  by (auto simp: look_wf_def patch_the_rest_def Let_def option.pred_set clean_title_stable
      split: option.splits)

lemma apply_settings_look:
  assumes "look_wf r" and "apply_settings parse actor p cooldown r = Inr r'"
  shows "look_wf r'"
proof -
  obtain r1 r2 r3 where
      r1: "patch_the_cover parse p r = Inr r1" and r2: "patch_the_images p r1 = Inr r2"
    and r3: "patch_the_backdrop cooldown p r2 = Inr r3" and r': "r' = patch_the_rest p r3"
    using assms(2) by (auto simp: apply_settings_def and_then_eq_Inr split: if_splits)
  have "look_wf r1"
    using assms(1) r1 by (auto simp: patch_the_cover_def look_wf_def and_then_eq_Inr ok_or_eq_Inr
        split: option.splits dest: cover_checked_accent)
  then have "look_wf r2"
    using r2 by (auto simp: patch_the_images_def look_wf_def split: option.splits if_splits)
  then have "look_wf r3"
    using r3 by (auto simp: patch_the_backdrop_def set_backdrop_def look_wf_def
        split: option.splits if_splits)
  then show ?thesis
    using r' by (simp add: patch_the_rest_look)
qed

text \<open>Settings touch neither people nor playback.\<close>

definition same_people :: "room \<Rightarrow> room \<Rightarrow> bool" where
  "same_people r r' \<longleftrightarrow>
     members r' = members r \<and> host_id r' = host_id r \<and> moderators r' = moderators r \<and>
     banned r' = banned r \<and> muted r' = muted r \<and> playback r' = playback r \<and>
     room_perks r' = room_perks r \<and> code r' = code r \<and> version r' = version r \<and> public r' = public r"

lemma same_people_trans: "same_people a b \<Longrightarrow> same_people b c \<Longrightarrow> same_people a c"
  by (simp add: same_people_def)

lemma patch_the_cover_people: "patch_the_cover parse p r = Inr r' \<Longrightarrow> same_people r r'"
  by (auto simp: patch_the_cover_def same_people_def and_then_eq_Inr split: option.splits)

lemma patch_the_images_people: "patch_the_images p r = Inr r' \<Longrightarrow> same_people r r'"
  by (auto simp: patch_the_images_def same_people_def split: option.splits if_splits)

lemma patch_the_backdrop_people: "patch_the_backdrop cooldown p r = Inr r' \<Longrightarrow> same_people r r'"
  by (auto simp: patch_the_backdrop_def set_backdrop_def same_people_def
      split: option.splits if_splits)

lemma patch_the_rest_people: "same_people r (patch_the_rest p r)"
  by (simp add: patch_the_rest_def Let_def same_people_def split: option.splits)

lemma apply_settings_people:
  assumes "apply_settings parse actor p cooldown r = Inr r'"
  shows "same_people r r'"
proof -
  obtain r1 r2 r3 where
      r1: "patch_the_cover parse p r = Inr r1" and r2: "patch_the_images p r1 = Inr r2"
    and r3: "patch_the_backdrop cooldown p r2 = Inr r3" and r': "r' = patch_the_rest p r3"
    using assms by (auto simp: apply_settings_def and_then_eq_Inr split: if_splits)
  show ?thesis
    unfolding r' using r1 r2 r3 patch_the_rest_people
    by (metis patch_the_cover_people patch_the_images_people patch_the_backdrop_people
        same_people_trans)
qed

lemma same_people_wf:
  assumes "same_people r r'"
  shows "people_wf r' = people_wf r" and "playback r' = playback r"
  using assms people_wf_cong [of r' r] by (simp_all add: same_people_def)

section \<open>Every operation keeps the invariant\<close>

text \<open>The look of a room does not depend on its people.\<close>

lemma look_wf_cong:
  assumes "room_perks r' = room_perks r" "slow_mode_s r' = slow_mode_s r"
    "room_cover r' = room_cover r" "room_backdrop r' = room_backdrop r" "title r' = title r"
  shows "look_wf r' = look_wf r"
  using assms by (simp add: look_wf_def)

lemma remove_member_look: "look_wf (fst (remove_member u r)) = look_wf r"
  by (rule look_wf_cong) (simp_all add: remove_member_def keep_members_only_def Let_def)

lemma room_wf_new:
  assumes "pred_option (\<lambda>t. clean_title t = Some t) t" and "p = perks_free \<or> p = perks_star"
  shows "room_wf ((new_room c host pub now fresh)\<lparr>title := t, room_perks := p\<rparr>)"
proof -
  have "people_wf ((new_room c host pub now fresh)\<lparr>title := t, room_perks := p\<rparr>)"
    using people_wf_new [of c host pub now fresh] by (simp add: people_wf_def)
  moreover have "playback_wf default_playback"
    by (simp add: playback_wf_def default_playback_def MIN_RATE_def MAX_RATE_def)
  ultimately show ?thesis
    using assms by (simp add: room_wf_def look_wf_def new_room_def)
qed

lemma room_wf_drop_absent [wf_intros]: "room_wf r \<Longrightarrow> room_wf (drop_absent online after r)"
  using people_wf_drop_absent [of r online after]
  by (auto simp: room_wf_def look_wf_def drop_absent_def keep_members_only_def)

lemma room_wf_join [wf_intros]: "room_wf r \<Longrightarrow> join m r = Inr r' \<Longrightarrow> room_wf r'"
  using people_wf_join [of r m r']
  by (auto simp: room_wf_def look_wf_def join_def split: if_splits)

lemma room_wf_remove [wf_intros]:
  "room_wf r \<Longrightarrow> u \<noteq> host_id r \<Longrightarrow> room_wf (fst (remove_member u r))"
  by (simp add: room_wf_def people_wf_remove remove_member_look)

lemma room_wf_hand_off [wf_intros]:
  assumes "room_wf r" and "host_id r = leaving" and "hand_off leaving cands r = Some (r', next)"
    and "p = perks_free \<or> p = perks_star"
  shows "room_wf (r'\<lparr>room_perks := p\<rparr>)"
proof -
  have "people_wf (r'\<lparr>room_perks := p\<rparr>)"
    using people_wf_hand_off [of r leaving cands r' "next"] assms
      people_wf_cong [of "r'\<lparr>room_perks := p\<rparr>" r']
    by (simp add: room_wf_def)
  moreover have keep: "playback r' = playback r" "slow_mode_s r' = slow_mode_s r"
      "room_cover r' = room_cover r" "title r' = title r"
      "room_backdrop r' = None \<or> room_backdrop r' = room_backdrop r"
    using assms(3)
    by (auto simp: hand_off_def Let_def remove_member_def keep_members_only_def
        drop_image_backdrop_def split: option.splits)
  moreover have "pred_option backdrop_known (room_backdrop r')"
    using assms(1) keep(5) by (elim disjE) (simp_all add: room_wf_def look_wf_def)
  ultimately show ?thesis
    using assms(1,4) by (simp add: room_wf_def look_wf_def)
qed

lemma room_wf_kick [wf_intros]: "room_wf r \<Longrightarrow> kick actor target r = Inr r' \<Longrightarrow> room_wf r'"
  using people_wf_kick [of r actor target r'] remove_member_look [of target r]
  by (auto simp: room_wf_def kick_def and_then_eq_Inr remove_member_def keep_members_only_def
      look_wf_def Let_def split: if_splits prod.splits)

lemma room_wf_ban [wf_intros]: "room_wf r \<Longrightarrow> ban actor target r = Inr r' \<Longrightarrow> room_wf r'"
  using people_wf_ban [of r actor target r'] remove_member_look [of target r]
  by (auto simp: room_wf_def look_wf_def dest!: ban_Inr)

lemma room_wf_mute [wf_intros]:
  "room_wf r \<Longrightarrow> mute_member actor target seconds now r = Inr r' \<Longrightarrow> room_wf r'"
  using people_wf_mute [of r actor target seconds now r']
  by (auto simp: room_wf_def look_wf_def mute_member_def and_then_eq_Inr Let_def split: if_splits)

lemma room_wf_set_moderator [wf_intros]:
  "room_wf r \<Longrightarrow> set_moderator actor target on r = Inr r' \<Longrightarrow> room_wf r'"
  using people_wf_set_moderator [of r actor target on r']
  by (auto simp: room_wf_def look_wf_def set_moderator_def split: if_splits)

lemma room_wf_set_playback [wf_intros]:
  assumes "room_wf r" and "set_playback bytes u upd now r = Inr r'"
  shows "room_wf r'"
proof -
  obtain p where "r' = r\<lparr>playback := p\<rparr>"
    using set_playback_frame [OF assms(2)] by blast
  then have "people_wf r' = people_wf r" "look_wf r' = look_wf r"
    using people_wf_cong [of r' r] look_wf_cong [of r' r] by simp_all
  with set_playback_wf [OF assms(2)] assms(1) show ?thesis
    by (simp add: room_wf_def)
qed

lemma room_wf_mark_ready [wf_intros]:
  assumes "room_wf r" and "mark_ready u t r = Inr (r', changed)"
  shows "room_wf r'"
proof -
  have "ids r' = ids r \<and> host_id r' = host_id r \<and> moderators r' = moderators r \<and>
      banned r' = banned r \<and> muted r' = muted r"
    using assms(2) by (auto simp: mark_ready_def and_then_eq_Inr map_update_first split: if_splits)
  then have "people_wf r' = people_wf r"
    by (intro people_wf_cong) simp_all
  moreover have "playback r' = playback r \<and> look_wf r' = look_wf r"
    using assms(2) by (auto simp: mark_ready_def and_then_eq_Inr look_wf_def split: if_splits)
  ultimately show ?thesis
    using assms(1) by (simp add: room_wf_def)
qed

lemma room_wf_apply_settings [wf_intros]:
  assumes "room_wf r" and "apply_settings parse actor p cooldown r = Inr r'"
  shows "room_wf r'"
  using assms apply_settings_look [OF _ assms(2)] same_people_wf [OF apply_settings_people [OF assms(2)]]
  by (simp add: room_wf_def)

lemma room_wf_set_public [wf_intros]:
  "room_wf r \<Longrightarrow> set_public u pub r = Inr r' \<Longrightarrow> room_wf r'"
  using people_wf_cong [of "r\<lparr>public := pub\<rparr>" r] look_wf_cong [of "r\<lparr>public := pub\<rparr>" r]
  by (auto simp: set_public_def room_wf_def split: if_splits)

lemma room_wf_clear_image [wf_intros]: "room_wf r \<Longrightarrow> room_wf (fst (clear_image_backdrop media r))"
  by (auto simp: room_wf_def clear_image_backdrop_def people_wf_def look_wf_def)

text \<open>Updates of single fields the invariant does not constrain, or constrains alone.\<close>

lemma room_wf_fields [simp]:
  "room_wf (r\<lparr>version := v\<rparr>) = room_wf r" "room_wf (r\<lparr>code := c\<rparr>) = room_wf r"
  "room_wf (r\<lparr>chat_id := x\<rparr>) = room_wf r" "room_wf (r\<lparr>unlisted := b\<rparr>) = room_wf r"
  by (simp_all add: room_wf_def people_wf_def look_wf_def)

lemma room_wf_perks [wf_intros]: "room_wf r \<Longrightarrow> room_wf (r\<lparr>room_perks := perks_of star\<rparr>)"
  by (simp add: room_wf_def people_wf_def look_wf_def perks_of_def)

end
