(* ===== verification/Room_Listing.thy ===== *)
theory Room_Listing
  imports Room_Wf "HOL-Library.Multiset"
begin

text \<open>
  What a room shows of itself: \<open>rooms/service/view.rs\<close> (the view of a member),
  \<open>rooms/listing.rs\<close> (the public list and its order) and the pure part of
  \<open>rooms/service/preview.rs\<close> (the card behind a room link).
\<close>

section \<open>The view of a member\<close>

record member_view =
  mv_user_id :: user
  mv_name :: str
  mv_avatar_url :: "str option"
  mv_joined_at :: int
  mv_ready_urn :: "str option"

record room_view =
  view_code :: room_code
  view_host_id :: user
  view_version :: nat
  view_created_at :: int
  view_members :: "member_view list"
  view_playback :: playback
  view_public :: bool
  view_title :: "str option"
  view_chat_id :: "uuid option"
  view_chat_enabled :: bool
  view_moderators :: "user list"
  view_muted :: "mute list"
  view_slow_mode_s :: nat
  view_links :: bool
  view_perks :: perks
  view_cover :: "cover option"
  view_room_images :: room_images
  view_backdrop :: "backdrop option"
  view_backdrop_cooldown_until :: "int option"
  view_banned :: "user list option"
  view_online :: "user list"
  view_server_now :: int

definition member_view_from :: "member \<Rightarrow> member_view" where
  "member_view_from m =
     \<lparr>mv_user_id = user_id m, mv_name = name m, mv_avatar_url = avatar_url m,
      mv_joined_at = joined_at m, mv_ready_urn = ready_urn m\<rparr>"

definition for_viewer :: "room \<Rightarrow> user \<Rightarrow> user list \<Rightarrow> int \<Rightarrow> room_view" where
  "for_viewer r viewer online now =
     \<lparr>view_code = code r, view_host_id = host_id r, view_version = version r,
      view_created_at = created_at r, view_members = map member_view_from (members r),
      view_playback = playback r, view_public = public r, view_title = title r,
      view_chat_id = chat_id r, view_chat_enabled = chat_enabled r, view_moderators = moderators r,
      view_muted = filter (\<lambda>m. until_ms m > now) (muted r), view_slow_mode_s = slow_mode r,
      view_links = links r, view_perks = room_perks r, view_cover = cover_shown r,
      view_room_images = images_policy r, view_backdrop = backdrop_shown r,
      view_backdrop_cooldown_until = None,
      view_banned = (if can_moderate r viewer then Some (banned r) else None),
      view_online = online, view_server_now = now\<rparr>"

definition view_cooling_until :: "int option \<Rightarrow> room_view \<Rightarrow> room_view" where
  "view_cooling_until until v = v\<lparr>view_backdrop_cooldown_until := until\<rparr>"

section \<open>The public list\<close>

definition MAX_TEXT_CHARS :: nat where "MAX_TEXT_CHARS = 120"

record public_track =
  pt_title :: str
  pt_artist :: "str option"
  pt_artwork_url :: "str option"

record public_room =
  pr_host_id :: user
  pr_title :: "str option"
  pr_host_name :: str
  pr_host_avatar_url :: "str option"
  pr_status :: playback_status
  pr_track :: "public_track option"
  pr_listeners :: nat
  pr_capacity :: nat
  pr_full :: bool
  pr_star_host :: bool
  pr_cover :: "cover option"
  pr_backdrop :: "backdrop option"
  pr_created_at :: int
  pr_banned :: "user list"

definition json_text :: "json \<Rightarrow> str option" where
  "json_text v =
     Option.bind (as_str v) (\<lambda>s.
       let t = take MAX_TEXT_CHARS (filter (\<lambda>c. \<not> is_control c) (trim s))
       in if t = [] then None else Some t)"

definition public_track_of :: "url_parse \<Rightarrow> json \<Rightarrow> public_track option" where
  "public_track_of parse track =
     (let picture = (\<lambda>v. Option.bind (as_str v) (artwork_url parse));
          artwork = (case picture (jget track (lit ''artwork_url'')) of
                       Some u \<Rightarrow> Some u
                     | None \<Rightarrow> picture (jget (jget track (lit ''user'')) (lit ''avatar_url'')))
      in Option.bind (json_text (jget track (lit ''title''))) (\<lambda>t.
           Some \<lparr>pt_title = t,
                 pt_artist = json_text (jget (jget track (lit ''user'')) (lit ''username'')),
                 pt_artwork_url = artwork\<rparr>))"

definition listeners_of :: "room \<Rightarrow> user list \<Rightarrow> nat" where
  "listeners_of r online =
     length (filter (\<lambda>m. user_id m = host_id r \<or> user_id m \<in> set online) (members r))"

definition public_room_of :: "url_parse \<Rightarrow> room \<Rightarrow> user list \<Rightarrow> public_room option" where
  "public_room_of parse r online =
     (if unlisted r then None
      else Option.bind (find (\<lambda>m. user_id m = host_id r) (members r)) (\<lambda>host.
        Some \<lparr>pr_host_id = user_id host, pr_title = title r, pr_host_name = name host,
              pr_host_avatar_url = Option.bind (avatar_url host) (artwork_url parse),
              pr_status = pb_status (playback r),
              pr_track = Option.bind (pb_track (playback r)) (public_track_of parse),
              pr_listeners = listeners_of r online, pr_capacity = capacity r,
              pr_full = (capacity r \<le> listeners_of r online),
              pr_star_host = star_host (room_perks r), pr_cover = cover_shown r,
              pr_backdrop = backdrop_in_public r, pr_created_at = created_at r,
              pr_banned = banned r\<rparr>))"

definition ranked_listeners :: "public_room \<Rightarrow> nat" where
  "ranked_listeners r = min (pr_listeners r) FREE_CAPACITY"

text \<open>
  The comparison of \<open>rank\<close>, whose \<open>sort_by\<close> is stable: open rooms before full ones, then more
  (ranked) listeners, then the older room, then the host.
\<close>

definition rank_less :: "public_room \<Rightarrow> public_room \<Rightarrow> bool" where
  "rank_less a b \<longleftrightarrow>
     (if pr_full a \<noteq> pr_full b then \<not> pr_full a
      else if ranked_listeners a \<noteq> ranked_listeners b then ranked_listeners b < ranked_listeners a
      else if pr_created_at a \<noteq> pr_created_at b then pr_created_at a < pr_created_at b
      else pr_host_id a < pr_host_id b)"

definition rank_key :: "public_room \<Rightarrow> bool \<times> int \<times> int \<times> user" where
  "rank_key r = (pr_full r, - int (ranked_listeners r), pr_created_at r, pr_host_id r)"

definition rank :: "public_room list \<Rightarrow> public_room list" where
  "rank rooms = sort_key rank_key rooms"

lemma rank_key_less: "rank_key a < rank_key b \<longleftrightarrow> rank_less a b"
  by (auto simp: rank_key_def rank_less_def less_prod_def')

section \<open>The card behind a link\<close>

record preview_host =
  ph_id :: user
  ph_name :: str
  ph_avatar_url :: "str option"

record preview_track =
  pv_urn :: str
  pv_track_title :: str
  pv_artist :: "str option"
  pv_artwork_url :: "str option"
  pv_duration_ms :: "int option"

record room_preview =
  pv_code :: room_code
  pv_title :: "str option"
  pv_host :: preview_host
  pv_track :: "preview_track option"
  pv_listeners :: nat
  pv_capacity :: nat
  pv_star_host :: bool
  pv_cover :: "cover option"
  pv_backdrop :: "backdrop option"
  pv_public :: bool
  pv_alive :: bool

definition track_duration :: "json \<Rightarrow> int option" where
  "track_duration track =
     Option.bind
       (Option.bind
         (find (\<lambda>k. as_i64 (jget track k) \<noteq> None)
            [lit ''duration'', lit ''full_duration'', lit ''durationMs''])
         (\<lambda>k. as_i64 (jget track k)))
       (\<lambda>ms. if ms > 0 then Some ms else None)"

definition preview_track_of :: "url_parse \<Rightarrow> room \<Rightarrow> preview_track option" where
  "preview_track_of parse r =
     Option.bind (pb_track_urn (playback r)) (\<lambda>u.
     Option.bind (pb_track (playback r)) (\<lambda>track.
     Option.bind (public_track_of parse track) (\<lambda>card.
       Some \<lparr>pv_urn = u, pv_track_title = pt_title card, pv_artist = pt_artist card,
             pv_artwork_url = pt_artwork_url card, pv_duration_ms = track_duration track\<rparr>)))"

definition room_preview_of :: "url_parse \<Rightarrow> room \<Rightarrow> user list \<Rightarrow> room_preview option" where
  "room_preview_of parse r online =
     Option.bind (member_of r (host_id r)) (\<lambda>host.
       Some \<lparr>pv_code = code r, pv_title = title r,
             pv_host = \<lparr>ph_id = user_id host, ph_name = name host,
                        ph_avatar_url = Option.bind (avatar_url host) (artwork_url parse)\<rparr>,
             pv_track = preview_track_of parse r, pv_listeners = listeners_of r online,
             pv_capacity = capacity r, pv_star_host = star_host (room_perks r),
             pv_cover = cover_shown r, pv_backdrop = backdrop_in_public r, pv_public = public r,
             pv_alive = True\<rparr>)"

lemma host_found: "people_wf r \<Longrightarrow> \<exists>m. find (\<lambda>m. user_id m = host_id r) (members r) = Some m \<and>
    user_id m = host_id r"
  by (cases "find (\<lambda>m. user_id m = host_id r) (members r)")
     (auto simp: people_wf_def find_None_iff dest: find_in)

lemma preview_listed:
  "people_wf r \<Longrightarrow> \<exists>p. room_preview_of parse r online = Some p \<and> ph_id (pv_host p) = host_id r"
  using host_found [of r] by (auto simp: room_preview_of_def member_of_def)

lemma listeners_bounds:
  "people_wf r \<Longrightarrow> 1 \<le> listeners_of r online \<and> listeners_of r online \<le> length (members r)"
proof -
  assume "people_wf r"
  then obtain m where "m \<in> set (members r)" "user_id m = host_id r"
    by (auto simp: people_wf_def)
  then have "m \<in> set (filter (\<lambda>m. user_id m = host_id r \<or> user_id m \<in> set online) (members r))"
    by simp
  then have "0 < listeners_of r online"
    unfolding listeners_of_def by (metis length_pos_if_in_set)
  moreover have "listeners_of r online \<le> length (members r)"
    by (simp add: listeners_of_def)
  ultimately show ?thesis by simp
qed

lemma public_backdrop_no_image: "backdrop_in_public r = Some b \<Longrightarrow> backdrop_image b = None"
  by (auto simp: backdrop_in_public_def bind_eq_Some_conv split: if_splits)

text \<open>
  The public list is ranked: the result holds exactly the rooms given, none stands behind a room
  that ranks after it (full rooms last, then more listeners up to the free capacity, then older,
  then by host), and rooms that rank alike keep their order.
\<close>

theorem rank_sorts:
  "mset (rank rooms) = mset rooms \<and> sorted_wrt (\<lambda>a b. \<not> rank_less b a) (rank rooms) \<and>
   filter (\<lambda>r. rank_key r = k) (rank rooms) = filter (\<lambda>r. rank_key r = k) rooms"
proof -
  have "sorted (map rank_key (rank rooms))"
    by (simp add: rank_def)
  then have "sorted_wrt (\<lambda>a b. \<not> rank_less b a) (rank rooms)"
    by (simp add: sorted_map not_less rank_key_less [symmetric])
  then show ?thesis
    by (simp add: rank_def sort_key_stable)
qed

text \<open>
  What a well-formed room shows to strangers: it is listed only if not unlisted, its host is
  named from its members, the listeners shown are at least the host and at most the members, and
  neither a member's picture nor, without STAR, any cover or backdrop is shown.
\<close>

theorem public_card_discreet:
  assumes "room_wf r" "public_room_of parse r online = Some p"
  shows "\<not> unlisted r \<and> pr_host_id p = host_id r \<and> 1 \<le> pr_listeners p \<and>
    pr_listeners p \<le> length (members r) \<and>
    (\<forall>media. pr_backdrop p \<noteq> Some (Image media)) \<and>
    (\<not> star_host (room_perks r) \<longrightarrow> pr_cover p = None \<and> pr_backdrop p = None)"
proof -
  have people: "people_wf r" using assms(1) by (simp add: room_wf_def)
  obtain m where "find (\<lambda>m. user_id m = host_id r) (members r) = Some m" "user_id m = host_id r"
    using host_found [OF people] by blast
  with assms(2) have "\<not> unlisted r" "pr_host_id p = host_id r" "pr_listeners p = listeners_of r online"
    "pr_backdrop p = backdrop_in_public r" "pr_cover p = cover_shown r"
    by (auto simp: public_room_of_def split: if_splits)
  then show ?thesis
    using listeners_bounds [OF people, of online] public_backdrop_no_image [of r]
    by (auto simp: cover_shown_def backdrop_in_public_def backdrop_shown_def)
qed

theorem public_card_discreet_witness:
  "\<exists>p. public_room_of (\<lambda>_. None) ((new_room [65] (new_member [49] \<lparr>profile_name = [], profile_avatar_url = None\<rparr> 0)
       True 0 7)\<lparr>title := None, room_perks := perks_free\<rparr>) [] = Some p \<and> pr_listeners p = 1"
proof -
  let ?m = "new_member [49] \<lparr>profile_name = [], profile_avatar_url = None\<rparr> 0"
  let ?r = "(new_room [65] ?m True 0 7)\<lparr>title := None, room_perks := perks_free\<rparr>"
  have wf: "room_wf ?r"
    by (rule room_wf_new) simp_all
  obtain p where p: "public_room_of (\<lambda>_. None) ?r [] = Some p"
    by (simp add: public_room_of_def new_room_def)
  show ?thesis
    using public_card_discreet [OF wf p] p by (auto simp: new_room_def)
qed

end
