(* ===== verification/Redis_Keys.thy ===== *)
theory Redis_Keys
  imports Rust_Str "HOL-Library.List_Lexorder" "HOL-Library.Product_Lexorder"
begin

text \<open>
  The Redis values the services share: keys with a deadline in server milliseconds, which read as
  absent once it passed, sorted sets, and counters with \<open>GET\<close>, \<open>INCRBY\<close>, \<open>PTTL\<close> and \<open>PEXPIRE\<close>.
\<close>

section \<open>Keys with a deadline and sorted sets\<close>

type_synonym ('k, 'v) keyed = "'k \<Rightarrow> ('v \<times> int option) option"

definition live :: "int \<Rightarrow> ('k, 'v) keyed \<Rightarrow> 'k \<Rightarrow> 'v option" where
  "live t m k =
     (case m k of None \<Rightarrow> None
      | Some (v, d) \<Rightarrow> (case d of None \<Rightarrow> Some v | Some e \<Rightarrow> if t \<le> e then Some v else None))"

definition set_ex :: "int \<Rightarrow> int \<Rightarrow> 'k \<Rightarrow> 'v \<Rightarrow> ('k, 'v) keyed \<Rightarrow> ('k, 'v) keyed" where
  "set_ex t ttl k v m = m(k \<mapsto> (v, Some (t + ttl)))"

definition expire :: "int \<Rightarrow> int \<Rightarrow> 'k \<Rightarrow> ('k, 'v) keyed \<Rightarrow> ('k, 'v) keyed" where
  "expire t ttl k m = (case live t m k of None \<Rightarrow> m | Some v \<Rightarrow> set_ex t ttl k v m)"

definition del :: "'k \<Rightarrow> ('k, 'v) keyed \<Rightarrow> ('k, 'v) keyed" where
  "del k m = m(k := None)"

type_synonym zset = "(str \<times> int) list"

definition zset_at :: "int \<Rightarrow> ('k, zset) keyed \<Rightarrow> 'k \<Rightarrow> zset" where
  "zset_at t m k = (case live t m k of None \<Rightarrow> [] | Some z \<Rightarrow> z)"

definition zadd :: "int \<Rightarrow> 'k \<Rightarrow> str \<Rightarrow> int \<Rightarrow> ('k, zset) keyed \<Rightarrow> ('k, zset) keyed" where
  "zadd t k x score m =
     (case live t m k of
        None \<Rightarrow> m(k \<mapsto> ([(x, score)], None))
      | Some z \<Rightarrow> m(k \<mapsto> (filter (\<lambda>p. fst p \<noteq> x) z @ [(x, score)], snd (the (m k)))))"

definition zfilter :: "int \<Rightarrow> 'k \<Rightarrow> (str \<times> int \<Rightarrow> bool) \<Rightarrow> ('k, zset) keyed \<Rightarrow> ('k, zset) keyed" where
  "zfilter t k P m =
     (case live t m k of None \<Rightarrow> m
      | Some z \<Rightarrow> if filter P z = [] then del k m else m(k \<mapsto> (filter P z, snd (the (m k)))))"

definition zrem :: "int \<Rightarrow> 'k \<Rightarrow> str \<Rightarrow> ('k, zset) keyed \<Rightarrow> ('k, zset) keyed" where
  "zrem t k x = zfilter t k (\<lambda>p. fst p \<noteq> x)"

definition zremrangebyscore_below :: "int \<Rightarrow> 'k \<Rightarrow> int \<Rightarrow> ('k, zset) keyed \<Rightarrow> ('k, zset) keyed" where
  "zremrangebyscore_below t k since = zfilter t k (\<lambda>p. since \<le> snd p)"

definition zrangebyscore :: "int \<Rightarrow> zset \<Rightarrow> str list" where
  "zrangebyscore since z = map fst (sort_key (\<lambda>p. (snd p, fst p)) (filter (\<lambda>p. since \<le> snd p) z))"

section \<open>Counters\<close>

definition get_count :: "int \<Rightarrow> ('k, int) keyed \<Rightarrow> 'k \<Rightarrow> int" where
  "get_count t m k = (case live t m k of None \<Rightarrow> 0 | Some v \<Rightarrow> v)"

definition incrby :: "int \<Rightarrow> 'k \<Rightarrow> int \<Rightarrow> ('k, int) keyed \<Rightarrow> ('k, int) keyed" where
  "incrby t k c m =
     (case live t m k of
        None \<Rightarrow> m(k \<mapsto> (c, None))
      | Some v \<Rightarrow> m(k \<mapsto> (v + c, snd (the (m k)))))"

definition pttl :: "int \<Rightarrow> ('k, 'v) keyed \<Rightarrow> 'k \<Rightarrow> int" where
  "pttl t m k =
     (case live t m k of None \<Rightarrow> - 2
      | Some _ \<Rightarrow> (case snd (the (m k)) of None \<Rightarrow> - 1 | Some e \<Rightarrow> e - t))"

text \<open>A deadline that is not in the future deletes the key.\<close>

definition pexpire :: "int \<Rightarrow> int \<Rightarrow> 'k \<Rightarrow> ('k, 'v) keyed \<Rightarrow> ('k, 'v) keyed" where
  "pexpire t ttl k m = (if 0 < ttl then expire t ttl k m else del k m)"

section \<open>Laws\<close>

lemma live_set_ex: "0 \<le> ttl \<Longrightarrow> live t (set_ex t ttl k v m) k' = (if k' = k then Some v else live t m k')"
  by (simp add: live_def set_ex_def)

lemma live_del: "live t (del k m) k' = (if k' = k then None else live t m k')"
  by (simp add: live_def del_def)

lemma live_expire: "0 \<le> ttl \<Longrightarrow> live t (expire t ttl k m) k' = live t m k'"
  by (auto simp: expire_def live_set_ex split: option.splits)

lemma live_incrby:
  "live t (incrby t k c m) k' = (if k' = k then Some (get_count t m k + c) else live t m k')"
  by (auto simp: incrby_def get_count_def live_def split: option.splits if_splits)

lemma incrby_other: "k' \<noteq> k \<Longrightarrow> incrby t k c m k' = m k'"
  by (simp add: incrby_def split: option.splits)

lemma pexpire_other: "k' \<noteq> k \<Longrightarrow> pexpire t ttl k m k' = m k'"
  by (simp add: pexpire_def expire_def set_ex_def del_def split: option.splits)

lemma live_pexpire: "0 < ttl \<Longrightarrow> live t (pexpire t ttl k m) k' = live t m k'"
  by (simp add: pexpire_def live_expire)

lemma live_later:
  assumes "live t m k = None" "t \<le> t'"
  shows "live t' m k = None"
  using assms by (auto simp: live_def split: option.splits if_splits)

end
