(* ===== verification/Room_World.thy ===== *)
theory Room_World
  imports Effects Room_Listing Redis_Keys
begin

text \<open>
  What the rooms service acts on: the Redis keys of \<open>rooms/store.rs\<close>, \<open>store/cas.rs\<close> and
  \<open>rooms/directory.rs\<close>, the caches of the process, the clocks, the answers of the systems it asks
  (STAR subscriptions, block lists, the chat database, random numbers) and the log of what it
  tells others. A key carries its deadline in server milliseconds and is absent once that passed.
  The body of a room is the decoded value; \<open>None\<close> is a body that does not decode.

  The kinds of keys are separate maps; \<open>keys_apart\<close> shows that for room codes no key of one kind
  is a key of another.
\<close>

section \<open>Keys\<close>

definition room_key :: "room_code \<Rightarrow> str" where
  "room_key c = lit ''rooms:'' @ c"

definition seen_key :: "room_code \<Rightarrow> str" where
  "seen_key c = lit ''rooms:'' @ c @ lit '':seen''"

definition moved_key :: "room_code \<Rightarrow> str" where
  "moved_key c = lit ''rooms:'' @ c @ lit '':moved''"

definition chat_key :: "str \<Rightarrow> str" where
  "chat_key chat = lit ''rooms:chat:'' @ chat"

definition cooldown_key :: "user \<Rightarrow> str" where
  "cooldown_key host = lit ''rooms:host:'' @ host @ lit '':backdrop_cooldown''"

definition host_key :: "user \<Rightarrow> str" where
  "host_key u = lit ''rooms:host:'' @ u"

definition PUBLIC_KEY :: str where "PUBLIC_KEY = lit ''rooms:public''"
definition ROOMS_ALIVE :: str where "ROOMS_ALIVE = lit ''rooms:alive''"

definition is_code :: "str \<Rightarrow> bool" where
  "is_code c \<longleftrightarrow> length c = CODE_LEN \<and> set c \<subseteq> set CODE_ALPHABET"

definition code_of :: "str \<Rightarrow> room_code app_result" where
  "code_of raw = ok_or (NotFound (lit ''Room not found'')) (normalize_code raw)"

section \<open>The world\<close>

datatype cause = Member_Cause | Moderation user bool | Quiet

datatype event =
    Announce room_code
  | After_Change room room cause
  | Keep_Alive_Chat uuid
  | End_Chat room

record world =
  redis_time :: int
  wall :: int
  instant :: int
  kv_rooms :: "(room_code, nat \<times> room option) keyed"
  kv_seen :: "(room_code, zset) keyed"
  kv_moved :: "(room_code, room_code) keyed"
  kv_chat :: "(uuid, room_code) keyed"
  kv_cooldown :: "(user, int) keyed"
  kv_host :: "(user, room_code) keyed"
  kv_public :: "(unit, zset) keyed"
  kv_alive :: "(unit, zset) keyed"
  kv_guard :: "(str, str) keyed"
  alive_cache :: "room_code \<Rightarrow> bool"
  preview_cache :: "room_code \<Rightarrow> room_preview option option"
  listing_cache :: "(int \<times> public_room list) option"
  hub_closed :: bool
  chat_up :: bool
  ext_star :: "user \<Rightarrow> bool app_result"
  ext_blocks :: "user \<Rightarrow> user \<Rightarrow> bool app_result"
  ext_last_seq :: "uuid \<Rightarrow> int app_result"
  ext_draws :: "nat list"
  ext_uuid :: uuid
  event_log :: "event list"

type_synonym 'a op = "(world, 'a) eff"

text \<open>A process that has just started on an empty Redis, with the chat not connected.\<close>

definition blank :: world where
  "blank =
     \<lparr>redis_time = 0, wall = 0, instant = 0, kv_rooms = (\<lambda>_. None), kv_seen = (\<lambda>_. None),
      kv_moved = (\<lambda>_. None), kv_chat = (\<lambda>_. None), kv_cooldown = (\<lambda>_. None), kv_host = (\<lambda>_. None),
      kv_public = (\<lambda>_. None), kv_alive = (\<lambda>_. None), kv_guard = (\<lambda>_. None),
      alive_cache = (\<lambda>_. False), preview_cache = (\<lambda>_. None), listing_cache = None,
      hub_closed = False, chat_up = False, ext_star = (\<lambda>_. Inr False),
      ext_blocks = (\<lambda>_ _. Inr False), ext_last_seq = (\<lambda>_. Inr 0), ext_draws = [0, 1, 2, 3, 4, 5],
      ext_uuid = 7, event_log = []\<rparr>"

definition now_ms :: "(world, int) prog" where
  "now_ms = inside id wall"

definition tell :: "event \<Rightarrow> (world, unit) prog" where
  "tell e = inside (\<lambda>w. w\<lparr>event_log := event_log w @ [e]\<rparr>) (\<lambda>_. ())"

definition read_world :: "(world \<Rightarrow> 'a) \<Rightarrow> (world, 'a) prog" where
  "read_world f = inside id f"

text \<open>A script or a single command: one atomic action that answers.\<close>

definition script :: "(world \<Rightarrow> 'a \<times> world) \<Rightarrow> 'a op" where
  "script f = command (\<lambda>w. snd (f w)) (\<lambda>w. fst (f w))"

definition query :: "(world \<Rightarrow> 'a) \<Rightarrow> 'a op" where
  "query f = command id f"

definition execute :: "(world \<Rightarrow> world) \<Rightarrow> unit op" where
  "execute u = command u (\<lambda>_. ())"

text \<open>
  A pipeline is not a transaction: its commands run one by one, others may run in between, and
  when the connection fails any of them may have run.
\<close>

fun pipe :: "(world \<Rightarrow> world) list \<Rightarrow> unit op" where
  "pipe [] = ok ()"
| "pipe (u # us) =
     bind (execute u) (\<lambda>x. bind (pipe us) (\<lambda>y. Ret (case x of Inl e \<Rightarrow> Inl e | Inr _ \<Rightarrow> y)))"

fun pipe_queries :: "(world \<Rightarrow> 'a) list \<Rightarrow> 'a list op" where
  "pipe_queries [] = ok []"
| "pipe_queries (f # fs) = await (query f) (\<lambda>x. await (pipe_queries fs) (\<lambda>xs. ok (x # xs)))"

section \<open>Keys do not collide\<close>

lemma code_char_upper: "c \<in> set CODE_ALPHABET \<Longrightarrow> c < 91 \<and> c \<noteq> 58"
  by (auto simp: CODE_ALPHABET_def lit_def)

lemma is_codeD: "is_code c \<Longrightarrow> length c = 6 \<and> (\<forall>x \<in> set c. x < 91 \<and> x \<noteq> 58)"
  using code_char_upper by (auto simp: is_code_def CODE_LEN_def)

lemma normalize_code_is_code:
  assumes "normalize_code raw = Some c"
  shows "is_code c"
proof -
  have c: "str_len c = CODE_LEN" "\<forall>b \<in> set c. b \<in> set CODE_ALPHABET"
    using assms by (auto simp: normalize_code_def Let_def split: if_splits)
  then have "str_len c = length c"
    by (intro str_len_ascii) (auto dest!: bspec code_char_upper)
  with c show ?thesis by (auto simp: is_code_def)
qed

lemma keys_apart:
  assumes "is_code c" "is_code d"
  shows "room_key c = room_key d \<longleftrightarrow> c = d" "seen_key c = seen_key d \<longleftrightarrow> c = d"
    "moved_key c = moved_key d \<longleftrightarrow> c = d"
    "room_key c \<noteq> seen_key d" "room_key c \<noteq> moved_key d" "seen_key c \<noteq> moved_key d"
    "k \<in> {room_key c, seen_key c, moved_key c} \<Longrightarrow>
       k \<notin> {chat_key x, host_key u, cooldown_key v, PUBLIC_KEY, ROOMS_ALIVE}"
proof -
  note len = is_codeD [OF assms(1), THEN conjunct1] is_codeD [OF assms(2), THEN conjunct1]
  show "room_key c = room_key d \<longleftrightarrow> c = d" "seen_key c = seen_key d \<longleftrightarrow> c = d"
    "moved_key c = moved_key d \<longleftrightarrow> c = d"
    by (simp_all add: room_key_def seen_key_def moved_key_def)
  show "room_key c \<noteq> seen_key d" "room_key c \<noteq> moved_key d" "seen_key c \<noteq> moved_key d"
    using len by (auto simp: room_key_def seen_key_def moved_key_def lit_def dest: arg_cong [of _ _ length])
  obtain x0 rest where c: "c = x0 # rest" and x0: "x0 < 91"
    using is_codeD [OF assms(1)] by (cases c) auto
  show "k \<in> {room_key c, seen_key c, moved_key c} \<Longrightarrow>
       k \<notin> {chat_key x, host_key u, cooldown_key v, PUBLIC_KEY, ROOMS_ALIVE}"
    using x0
    by (auto simp: c room_key_def seen_key_def moved_key_def chat_key_def host_key_def
        cooldown_key_def PUBLIC_KEY_def ROOMS_ALIVE_def lit_def)
qed

end
