(* ===== verification/Room_Store.thy ===== *)
theory Room_Store
  imports Room_World
begin

text \<open>
  \<open>rooms/store.rs\<close>, \<open>rooms/store/cas.rs\<close> and \<open>rooms/directory.rs\<close>: the commands and Lua scripts
  by which rooms are created, read, swapped by compare-and-set, moved to a new code, found by
  host and by chat, and forgotten. A closure passed to \<open>update\<close> or \<open>relocate\<close> may read the clock
  or draw an identifier, so it is a function of the world at that moment.
\<close>

definition ROOM_TTL_SECS :: int where "ROOM_TTL_SECS = 6 * 60 * 60"
definition MOVED_TTL_SECS :: int where "MOVED_TTL_SECS = 10 * 60"
definition CAS_ATTEMPTS :: nat where "CAS_ATTEMPTS = 8"

abbreviation room_ttl :: int where "room_ttl \<equiv> ROOM_TTL_SECS * 1000"

definition room_not_found :: app_error where
  "room_not_found = NotFound (lit ''Room not found'')"

definition too_quickly :: app_error where
  "too_quickly = Conflict (lit ''The room changed too quickly, try again'')"

definition changed_elsewhere :: app_error where
  "changed_elsewhere = Conflict (lit ''The room changed elsewhere, try again'')"

text \<open>The hash a client sees under a room key: \<open>v\<close> and \<open>body\<close>.\<close>

definition row :: "world \<Rightarrow> room_code \<Rightarrow> (nat \<times> room option) option" where
  "row w c = live (redis_time w) (kv_rooms w) c"

section \<open>Scripts\<close>

definition create_script :: "room \<Rightarrow> world \<Rightarrow> int \<times> world" where
  "create_script r w =
     (if row w (code r) \<noteq> None then (0, w)
      else (1, w\<lparr>kv_rooms :=
              set_ex (redis_time w) room_ttl (code r) (version r, Some r) (kv_rooms w)\<rparr>))"

record guard =
  guard_key :: str
  guard_token :: str

definition guard_holds :: "guard option \<Rightarrow> world \<Rightarrow> bool" where
  "guard_holds g w =
     (case g of None \<Rightarrow> True
      | Some gd \<Rightarrow> guard_token gd = [] \<or>
          live (redis_time w) (kv_guard w) (guard_key gd) = Some (guard_token gd))"

definition swap_script ::
  "room_code \<Rightarrow> guard option \<Rightarrow> nat \<Rightarrow> room \<Rightarrow> world \<Rightarrow> int \<times> world" where
  "swap_script c g expected r w =
     (if map_option fst (row w c) \<noteq> Some expected then (0, w)
      else if \<not> guard_holds g w then (- 1, w)
      else (1, w\<lparr>kv_rooms := set_ex (redis_time w) room_ttl c (version r, Some r) (kv_rooms w),
                 kv_seen := expire (redis_time w) room_ttl c (kv_seen w)\<rparr>))"

definition move_script :: "room_code \<Rightarrow> nat \<Rightarrow> room \<Rightarrow> world \<Rightarrow> int \<times> world" where
  "move_script c expected r w =
     (if map_option fst (row w c) \<noteq> Some expected then (0, w)
      else if row w (code r) \<noteq> None then (0, w)
      else
        let t = redis_time w;
            seen = (case live t (kv_seen w) c of None \<Rightarrow> kv_seen w
                    | Some z \<Rightarrow> set_ex t room_ttl (code r) z (del c (kv_seen w)))
        in (1, w\<lparr>kv_rooms := del c (set_ex t room_ttl (code r) (version r, Some r) (kv_rooms w)),
                 kv_seen := seen,
                 kv_moved := set_ex t (MOVED_TTL_SECS * 1000) c (code r) (kv_moved w)\<rparr>))"

section \<open>The store\<close>

definition store_insert :: "room \<Rightarrow> bool op" where
  "store_insert r = await (script (create_script r)) (\<lambda>created. ok (created = 1))"

definition decoded :: "(nat \<times> room option) option \<Rightarrow> room option" where
  "decoded x = Option.bind x snd"

definition load :: "room_code \<Rightarrow> room option op" where
  "load c =
     await (query (\<lambda>w. row w c)) (\<lambda>x.
       case x of None \<Rightarrow> ok None
       | Some (v, None) \<Rightarrow> err (Internal (lit ''room decode''))
       | Some (v, Some r) \<Rightarrow> ok (Some r))"

definition load_many :: "room_code list \<Rightarrow> room list op" where
  "load_many codes =
     await (pipe_queries (map (\<lambda>c w. decoded (row w c)) codes)) (\<lambda>bodies.
       ok (List.map_filter (\<lambda>x. x) bodies))"

definition alive_since :: "int \<Rightarrow> room_code list op" where
  "alive_since since =
     query (\<lambda>w. zrangebyscore since (zset_at (redis_time w) (kv_alive w) ()))"

definition seen_since :: "room_code \<Rightarrow> int \<Rightarrow> user list op" where
  "seen_since c since = query (\<lambda>w. zrangebyscore since (zset_at (redis_time w) (kv_seen w) c))"

definition load_with_presence :: "room_code list \<Rightarrow> int \<Rightarrow> (room \<times> user list) list op" where
  "load_with_presence codes since =
     await (pipe_queries (map (\<lambda>c w. decoded (row w c)) codes)) (\<lambda>bodies.
     await (pipe_queries
              (map (\<lambda>c w. zrangebyscore since (zset_at (redis_time w) (kv_seen w) c)) codes))
       (\<lambda>presence.
         ok (List.map_filter (\<lambda>(body, online). map_option (\<lambda>r. (r, online)) body)
               (zip bodies presence))))"

definition room_version :: "room_code \<Rightarrow> nat option op" where
  "room_version c = query (\<lambda>w. map_option fst (row w c))"

definition moved_to :: "room_code \<Rightarrow> room_code option op" where
  "moved_to c = query (\<lambda>w. live (redis_time w) (kv_moved w) c)"

definition forget_room :: "room \<Rightarrow> unit op" where
  "forget_room r =
     pipe ([\<lambda>w. w\<lparr>kv_rooms := del (code r) (kv_rooms w), kv_seen := del (code r) (kv_seen w)\<rparr>,
            \<lambda>w. w\<lparr>kv_alive := zrem (redis_time w) () (code r) (kv_alive w)\<rparr>] @
           (case chat_id r of None \<Rightarrow> []
            | Some chat \<Rightarrow> [\<lambda>w. w\<lparr>kv_chat := del chat (kv_chat w)\<rparr>]))"

definition store_keep_alive :: "room \<Rightarrow> int \<Rightarrow> unit op" where
  "store_keep_alive r now =
     pipe ([\<lambda>w. w\<lparr>kv_rooms := expire (redis_time w) room_ttl (code r) (kv_rooms w)\<rparr>,
            \<lambda>w. w\<lparr>kv_alive := zadd (redis_time w) () (code r) now (kv_alive w)\<rparr>,
            \<lambda>w. w\<lparr>kv_alive :=
                   zremrangebyscore_below (redis_time w) () (now - room_ttl) (kv_alive w)\<rparr>,
            \<lambda>w. w\<lparr>kv_alive := expire (redis_time w) room_ttl () (kv_alive w)\<rparr>] @
           (case chat_id r of None \<Rightarrow> []
            | Some chat \<Rightarrow>
                [\<lambda>w. w\<lparr>kv_chat := set_ex (redis_time w) room_ttl chat (code r) (kv_chat w)\<rparr>]))"

definition forget_alive :: "room_code \<Rightarrow> unit op" where
  "forget_alive c = execute (\<lambda>w. w\<lparr>kv_alive := zrem (redis_time w) () c (kv_alive w)\<rparr>)"

definition index_chat :: "uuid \<Rightarrow> room_code \<Rightarrow> unit op" where
  "index_chat chat c =
     execute (\<lambda>w. w\<lparr>kv_chat := set_ex (redis_time w) room_ttl chat c (kv_chat w)\<rparr>)"

definition chat_code :: "uuid \<Rightarrow> room_code option op" where
  "chat_code chat = query (\<lambda>w. live (redis_time w) (kv_chat w) chat)"

definition store_touch :: "room_code \<Rightarrow> user \<Rightarrow> int \<Rightarrow> unit op" where
  "store_touch c u now =
     pipe [\<lambda>w. w\<lparr>kv_seen := zadd (redis_time w) c u now (kv_seen w)\<rparr>,
           \<lambda>w. w\<lparr>kv_seen := expire (redis_time w) room_ttl c (kv_seen w)\<rparr>]"

definition forget_seen :: "room_code \<Rightarrow> user \<Rightarrow> unit op" where
  "forget_seen c u = execute (\<lambda>w. w\<lparr>kv_seen := zrem (redis_time w) c u (kv_seen w)\<rparr>)"

definition cool_down :: "user \<Rightarrow> int \<Rightarrow> int \<Rightarrow> unit op" where
  "cool_down host until now =
     execute (\<lambda>w. w\<lparr>kv_cooldown := set_ex (redis_time w) (max (until - now) 1) host until (kv_cooldown w)\<rparr>)"

definition store_cooling_until :: "user \<Rightarrow> int \<Rightarrow> int option op" where
  "store_cooling_until host now =
     await (query (\<lambda>w. live (redis_time w) (kv_cooldown w) host)) (\<lambda>until.
       ok (Option.bind until (\<lambda>u. if u > now then Some u else None)))"

section \<open>Compare and set\<close>

type_synonym 't change = "world \<Rightarrow> room \<Rightarrow> (room \<times> 't) app_result"

primrec update_loop :: "nat \<Rightarrow> room_code \<Rightarrow> guard option \<Rightarrow> 't change \<Rightarrow> (room \<times> 't) op" where
  "update_loop 0 c g change = err too_quickly"
| "update_loop (Suc n) c g change =
     await (load c) (\<lambda>loaded.
     await (Ret (ok_or room_not_found loaded)) (\<lambda>r.
     await (read_world (\<lambda>w. change w r)) (\<lambda>(r', outcome).
       let next = r'\<lparr>version := version r + 1\<rparr> in
       await (script (swap_script c g (version r) next)) (\<lambda>swapped.
         if swapped = 1 then ok (next, outcome)
         else if swapped = - 1 then err changed_elsewhere
         else update_loop n c g change))))"

definition update :: "room_code \<Rightarrow> guard option \<Rightarrow> 't change \<Rightarrow> (room \<times> 't) op" where
  "update c g change = update_loop CAS_ATTEMPTS c g change"

primrec relocate_loop :: "nat \<Rightarrow> room_code \<Rightarrow> 't change \<Rightarrow> (room \<times> 't) op" where
  "relocate_loop 0 c change = err too_quickly"
| "relocate_loop (Suc n) c change =
     await (load c) (\<lambda>loaded.
     await (Ret (ok_or room_not_found loaded)) (\<lambda>r.
     await (read_world (\<lambda>w. change w r)) (\<lambda>(r', outcome).
     bind (read_world (\<lambda>w. new_code (ext_draws w))) (\<lambda>fresh.
       let next = r'\<lparr>code := fresh, version := version r + 1\<rparr> in
       await (script (move_script c (version r) next)) (\<lambda>moved.
         if moved = 1 then ok (next, outcome) else relocate_loop n c change)))))"

definition store_relocate :: "room_code \<Rightarrow> 't change \<Rightarrow> (room \<times> 't) op" where
  "store_relocate c change = relocate_loop CAS_ATTEMPTS c change"

section \<open>The directory\<close>

definition hosted_by :: "user \<Rightarrow> room_code option op" where
  "hosted_by u = query (\<lambda>w. live (redis_time w) (kv_host w) u)"

definition host_seen :: "room \<Rightarrow> int \<Rightarrow> unit op" where
  "host_seen r now =
     pipe ([\<lambda>w. w\<lparr>kv_host := set_ex (redis_time w) room_ttl (host_id r) (code r) (kv_host w)\<rparr>] @
           (if public r \<and> \<not> unlisted r
            then [\<lambda>w. w\<lparr>kv_public := zadd (redis_time w) () (code r) now (kv_public w)\<rparr>,
                  \<lambda>w. w\<lparr>kv_public := expire (redis_time w) room_ttl () (kv_public w)\<rparr>]
            else []))"

definition directory_unlist :: "room_code \<Rightarrow> unit op" where
  "directory_unlist c = execute (\<lambda>w. w\<lparr>kv_public := zrem (redis_time w) () c (kv_public w)\<rparr>)"

definition release_script :: "user \<Rightarrow> room_code \<Rightarrow> world \<Rightarrow> world" where
  "release_script u c w =
     (if live (redis_time w) (kv_host w) u = Some c then w\<lparr>kv_host := del u (kv_host w)\<rparr> else w)"

definition release_host :: "user \<Rightarrow> room_code \<Rightarrow> unit op" where
  "release_host u c = execute (release_script u c)"

definition directory_close :: "room \<Rightarrow> unit op" where
  "directory_close r =
     await (directory_unlist (code r)) (\<lambda>_. release_host (host_id r) (code r))"

definition listed_since :: "int \<Rightarrow> nat \<Rightarrow> room_code list op" where
  "listed_since since limit =
     await (execute (\<lambda>w. w\<lparr>kv_public := zremrangebyscore_below (redis_time w) () since (kv_public w)\<rparr>))
       (\<lambda>_. query (\<lambda>w. take limit (rev (zrangebyscore since (zset_at (redis_time w) (kv_public w) ())))))"

end
