(* ===== verification/Room_Service.thy ===== *)
theory Room_Service
  imports Room_Store
begin

text \<open>
  \<open>rooms/service.rs\<close>, \<open>rooms/service/*.rs\<close> and \<open>rooms/public.rs\<close>: every operation of
  \<open>RoomsService\<close> as a program over the world. The closures the code hands to \<open>apply\<close> are the
  \<open>*_change\<close> definitions. A warning that is only logged leaves no trace in the world.
\<close>

definition ONLINE_WINDOW_MS :: int where "ONLINE_WINDOW_MS = 45000"
definition CODE_ATTEMPTS :: nat where "CODE_ATTEMPTS = 6"
definition LEAVE_ATTEMPTS :: nat where "LEAVE_ATTEMPTS = 4"
definition RECHECK_PAGE :: nat where "RECHECK_PAGE = 200"
definition LIST_LIMIT :: nat where "LIST_LIMIT = 50"
definition SCAN_LIMIT :: nat where "SCAN_LIMIT = 300"
definition LIST_FRESH_FOR :: int where "LIST_FRESH_FOR = 5000"
definition MAX_HOST_ID_LEN :: nat where "MAX_HOST_ID_LEN = 20"

section \<open>Applying a change and telling others\<close>

definition settle :: "room \<Rightarrow> room \<Rightarrow> cause \<Rightarrow> (world, unit) prog" where
  "settle before after cs =
     bind (tell (Announce (code before))) (\<lambda>_.
     bind (read_world chat_up) (\<lambda>up.
       if up then tell (After_Change before after cs) else Ret ()))"

text \<open>\<open>before\<close> is the room the last call of the closure was given.\<close>

definition keeping_before :: "'t change \<Rightarrow> (room \<times> 't) change" where
  "keeping_before change w r = and_then (change w r) (\<lambda>(r', t). Inr (r', (r, t)))"

definition apply_guarded ::
  "room_code \<Rightarrow> cause \<Rightarrow> guard option \<Rightarrow> 't change \<Rightarrow> (room \<times> 't) op" where
  "apply_guarded c cs g change =
     await (update c g (keeping_before change)) (\<lambda>(after, before, outcome).
     bind (settle before after cs) (\<lambda>_. ok (after, outcome)))"

definition apply_change :: "room_code \<Rightarrow> cause \<Rightarrow> 't change \<Rightarrow> (room \<times> 't) op" where
  "apply_change c cs change = apply_guarded c cs None change"

definition invalidate :: "room_code \<Rightarrow> (world, unit) prog" where
  "invalidate c = inside (\<lambda>w. w\<lparr>preview_cache := (preview_cache w)(c := None)\<rparr>) (\<lambda>_. ())"

definition forget_cached_alive :: "room_code \<Rightarrow> (world, unit) prog" where
  "forget_cached_alive c = inside (\<lambda>w. w\<lparr>alive_cache := (alive_cache w)(c := False)\<rparr>) (\<lambda>_. ())"

definition clear_listing :: "(world, unit) prog" where
  "clear_listing = inside (\<lambda>w. w\<lparr>listing_cache := None\<rparr>) (\<lambda>_. ())"

definition relocate :: "room_code \<Rightarrow> cause \<Rightarrow> unit change \<Rightarrow> room op" where
  "relocate c cs change =
     await (store_relocate c (keeping_before change)) (\<lambda>(after, before, _).
     await (forget_alive c) (\<lambda>_.
     bind (forget_cached_alive c) (\<lambda>_.
     bind (invalidate c) (\<lambda>_.
     await (case chat_id after of None \<Rightarrow> ok () | Some chat \<Rightarrow> index_chat chat (code after)) (\<lambda>_.
     bind (settle before after cs) (\<lambda>_. ok after))))))"

definition refresh_cards :: "room \<Rightarrow> (world, unit) prog" where
  "refresh_cards r =
     bind (invalidate (code r)) (\<lambda>_. if public r then clear_listing else Ret ())"

definition keep_alive :: "room \<Rightarrow> int \<Rightarrow> unit op" where
  "keep_alive r now =
     bind (read_world (\<lambda>w. alive_cache w (code r))) (\<lambda>known.
       if known then ok ()
       else bind (inside (\<lambda>w. w\<lparr>alive_cache := (alive_cache w)(code r := True)\<rparr>) (\<lambda>_. ())) (\<lambda>_.
            await (store_keep_alive r now) (\<lambda>_.
            bind (read_world chat_up) (\<lambda>up.
              case chat_id r of
                Some chat \<Rightarrow> if up then bind (tell (Keep_Alive_Chat chat)) (\<lambda>_. ok ()) else ok ()
              | None \<Rightarrow> ok ()))))"

definition star_perks :: "user \<Rightarrow> (world, perks) prog" where
  "star_perks u =
     read_world (\<lambda>w. if \<not> chat_up w then perks_free
                     else case ext_star w u of Inl _ \<Rightarrow> perks_free | Inr star \<Rightarrow> perks_of star)"

section \<open>Looking\<close>

definition find_room :: "room_code \<Rightarrow> room option op" where
  "find_room c = load c"

definition room_at :: "room_code \<Rightarrow> room op" where
  "room_at c = await (load c) (\<lambda>r. Ret (ok_or room_not_found r))"

definition show_room :: "room \<Rightarrow> user \<Rightarrow> room_view op" where
  "show_room r u =
     (if \<not> is_member r u then err not_member
      else bind now_ms (\<lambda>now.
        await (if is_host r u then await (host_seen r now) (\<lambda>_. store_cooling_until u now) else ok None)
          (\<lambda>cooldown.
        await (seen_since (code r) (now - ONLINE_WINDOW_MS)) (\<lambda>online.
          ok (view_cooling_until cooldown (for_viewer r u online now))))))"

definition view :: "room_code \<Rightarrow> user \<Rightarrow> room_view op" where
  "view c u = await (room_at c) (\<lambda>r. show_room r u)"

text \<open>
  The wait for a version other than \<open>since\<close>. A wake-up (a change announced, the hub closing, the
  pause over) is a step of the world; \<open>fuel\<close> bounds the wake-ups looked at, and \<open>None\<close> says the
  caller still waits after them.
\<close>

primrec wait_loop :: "nat \<Rightarrow> room_code \<Rightarrow> nat \<Rightarrow> int \<Rightarrow> nat \<Rightarrow> nat option op" where
  "wait_loop 0 c since deadline v = ok None"
| "wait_loop (Suc fuel) c since deadline v =
     bind (read_world (\<lambda>w. v \<noteq> since \<or> deadline \<le> instant w \<or> hub_closed w)) (\<lambda>over.
       if over then ok (Some v)
       else await (room_version c) (\<lambda>x.
            await (Ret (ok_or room_not_found x)) (\<lambda>v'. wait_loop fuel c since deadline v')))"

definition wait_on :: "nat \<Rightarrow> room_code \<Rightarrow> user \<Rightarrow> nat option \<Rightarrow> int \<Rightarrow> room_view option op" where
  "wait_on fuel c u since hold =
     await (room_at c) (\<lambda>r.
       if \<not> is_member r u then err not_member
       else bind now_ms (\<lambda>now.
         await (store_touch c u now) (\<lambda>_.
         await (keep_alive r now) (\<lambda>_.
         await (case since of None \<Rightarrow> ok (Some (version r))
                | Some s \<Rightarrow> bind (read_world (\<lambda>w. instant w + hold)) (\<lambda>deadline.
                              wait_loop fuel c s deadline (version r))) (\<lambda>v.
           case v of None \<Rightarrow> ok None
           | Some v \<Rightarrow> await (if v = version r then show_room r u else view c u) (\<lambda>x. ok (Some x)))))))"

definition wait :: "nat \<Rightarrow> room_code \<Rightarrow> user \<Rightarrow> nat option \<Rightarrow> int \<Rightarrow> bool \<Rightarrow> room_view option op" where
  "wait fuel c u since hold follow =
     bind (wait_on fuel c u since hold) (\<lambda>outcome.
       case outcome of
         Inr x \<Rightarrow> ok x
       | Inl e \<Rightarrow>
           if \<not> (follow \<and> error_status e = 404) then err e
           else await (moved_to c) (\<lambda>moved.
             case moved of None \<Rightarrow> err e
             | Some m \<Rightarrow> await (view m u) (\<lambda>v.
                 bind now_ms (\<lambda>now. await (store_touch m u now) (\<lambda>_. ok (Some v))))))"

section \<open>Ending and leaving\<close>

definition end_room :: "room_code \<Rightarrow> bool op" where
  "end_room c =
     await (load c) (\<lambda>loaded.
       case loaded of None \<Rightarrow> ok False
       | Some r \<Rightarrow>
           await (forget_room r) (\<lambda>_.
           await (directory_close r) (\<lambda>_.
           bind (forget_cached_alive (code r)) (\<lambda>_.
           bind (invalidate (code r)) (\<lambda>_.
           bind (if public r then clear_listing else Ret ()) (\<lambda>_.
           bind (tell (Announce c)) (\<lambda>_.
           bind (read_world chat_up) (\<lambda>up.
           bind (if up then tell (End_Chat r) else Ret ()) (\<lambda>_. ok True)))))))))"

definition RACED :: str where "RACED = lit ''room_raced''"

definition raced :: app_error where
  "raced = coded 409 RACED (lit ''The room changed too quickly, try again'')"

definition leave_change :: "user \<Rightarrow> bool change" where
  "leave_change u w r = (if is_host r u then Inl raced else Inr (remove_member u r))"

definition hand_off_change :: "user \<Rightarrow> user list \<Rightarrow> user \<Rightarrow> perks \<Rightarrow> user option change" where
  "hand_off_change host candidates expected p w r =
     (if \<not> is_host r host then Inr (fst (remove_member host r), None)
      else and_then (ok_or raced (hand_off host candidates r)) (\<lambda>(r', next).
        if next = expected then Inr (r'\<lparr>room_perks := p\<rparr>, None)
        else Inr (r'\<lparr>room_perks := perks_free\<rparr>, Some next)))"

definition settle_change :: "user \<Rightarrow> perks \<Rightarrow> unit change" where
  "settle_change host p w r =
     Inr (if host_id r = host then r\<lparr>room_perks := p\<rparr> else r, ())"

definition settle_perks :: "room_code \<Rightarrow> user \<Rightarrow> (world, unit) prog" where
  "settle_perks c host =
     bind (star_perks host) (\<lambda>p.
     bind (apply_change c Quiet (settle_change host p)) (\<lambda>_. Ret ()))"

fun free_users :: "room \<Rightarrow> user \<Rightarrow> user list \<Rightarrow> user list op" where
  "free_users r host [] = ok []"
| "free_users r host (u # online) =
     (if u = host \<or> \<not> is_member r u then free_users r host online
      else await (hosted_by u) (\<lambda>hosted.
           await (case hosted of
                    Some other \<Rightarrow> if other \<noteq> code r
                                  then await (room_version other) (\<lambda>v. ok (v \<noteq> None)) else ok False
                  | None \<Rightarrow> ok False) (\<lambda>busy.
           await (free_users r host online) (\<lambda>free. ok (if busy then free else u # free)))))"

definition host_candidates :: "room \<Rightarrow> user \<Rightarrow> user list op" where
  "host_candidates r host =
     bind now_ms (\<lambda>now.
     await (seen_since (code r) (now - ONLINE_WINDOW_MS)) (\<lambda>online. free_users r host online))"

definition service_hand_off :: "room \<Rightarrow> user \<Rightarrow> unit op" where
  "service_hand_off r host =
     await (host_candidates r host) (\<lambda>candidates.
       case next_host host candidates r of
         None \<Rightarrow> await (end_room (code r)) (\<lambda>_. ok ())
       | Some expected \<Rightarrow>
           bind (star_perks expected) (\<lambda>p.
           await (apply_change (code r) Member_Cause (hand_off_change host candidates expected p))
             (\<lambda>(after, surprise).
           bind (case surprise of None \<Rightarrow> Ret () | Some nxt \<Rightarrow> settle_perks (code after) nxt) (\<lambda>_.
           await (forget_seen (code after) host) (\<lambda>_.
           await (release_host host (code after)) (\<lambda>_.
           bind now_ms (\<lambda>now.
           await (host_seen after now) (\<lambda>_.
           bind (refresh_cards after) (\<lambda>_. ok ())))))))))"

definition leave_once :: "room_code \<Rightarrow> user \<Rightarrow> unit op" where
  "leave_once c u =
     await (load c) (\<lambda>loaded.
       case loaded of None \<Rightarrow> ok ()
       | Some r \<Rightarrow>
           if \<not> is_member r u then ok ()
           else if length (members r) = 1 then await (end_room c) (\<lambda>_. ok ())
           else if is_host r u then service_hand_off r u
           else await (apply_change c Member_Cause (leave_change u)) (\<lambda>(_, left).
                  if left then forget_seen c u else ok ()))"

fun is_raced :: "app_error \<Rightarrow> bool" where
  "is_raced (Coded _ c _ _) = (c = RACED)"
| "is_raced _ = False"

primrec leave_loop :: "nat \<Rightarrow> room_code \<Rightarrow> user \<Rightarrow> unit op" where
  "leave_loop 0 c u = err raced"
| "leave_loop (Suc n) c u =
     bind (leave_once c u) (\<lambda>outcome.
       case outcome of
         Inl e \<Rightarrow> if is_raced e then leave_loop n c u else err e
       | Inr x \<Rightarrow> ok x)"

definition leave :: "room_code \<Rightarrow> user \<Rightarrow> unit op" where
  "leave c u =
     await (load c) (\<lambda>loaded.
     await (if loaded \<noteq> None then ok None else moved_to c) (\<lambda>moved.
       leave_loop LEAVE_ATTEMPTS (case moved of None \<Rightarrow> c | Some m \<Rightarrow> m) u))"

section \<open>Creating and joining\<close>

definition fresh_room :: "user \<Rightarrow> profile \<Rightarrow> bool \<Rightarrow> str option \<Rightarrow> perks \<Rightarrow> int \<Rightarrow> world \<Rightarrow> room" where
  "fresh_room u prof pub ttl p now w =
     (new_room (new_code (ext_draws w)) (new_member u prof now) pub now (ext_uuid w))
       \<lparr>title := Option.bind ttl clean_title, room_perks := p\<rparr>"

primrec create_loop ::
  "nat \<Rightarrow> user \<Rightarrow> profile \<Rightarrow> bool \<Rightarrow> str option \<Rightarrow> perks \<Rightarrow> int \<Rightarrow> room_view op" where
  "create_loop 0 u prof pub ttl p now =
     err (ServiceUnavailable (lit ''Could not allocate a room code''))"
| "create_loop (Suc n) u prof pub ttl p now =
     bind (read_world (fresh_room u prof pub ttl p now)) (\<lambda>r.
     await (store_insert r) (\<lambda>inserted.
       if inserted then
         await (store_touch (code r) u now) (\<lambda>_.
         await (keep_alive r now) (\<lambda>_.
         bind (if pub then clear_listing else Ret ()) (\<lambda>_. view (code r) u)))
       else create_loop n u prof pub ttl p now))"

definition create :: "user \<Rightarrow> profile \<Rightarrow> bool \<Rightarrow> str option \<Rightarrow> room_view op" where
  "create u prof pub ttl =
     await (hosted_by u) (\<lambda>hosted.
     await (case hosted of None \<Rightarrow> ok () | Some previous \<Rightarrow> leave previous u) (\<lambda>_.
     bind (star_perks u) (\<lambda>p.
     bind now_ms (\<lambda>now. create_loop CODE_ATTEMPTS u prof pub ttl p now))))"

definition refusal :: "room \<Rightarrow> user \<Rightarrow> bool \<Rightarrow> app_error option" where
  "refusal r u public_only =
     (if public_only \<and> (\<not> public r \<or> unlisted r) then Some room_not_found
      else if is_banned r u then Some (if public_only then room_not_found else banned_error)
      else None)"

definition admit_change ::
  "user \<Rightarrow> bool \<Rightarrow> user \<Rightarrow> user list \<Rightarrow> int \<Rightarrow> member \<Rightarrow> unit change" where
  "admit_change u public_only checked_host online recent m w r =
     and_then
       (if is_member r u then Inr r
        else case refusal r u public_only of
               Some e \<Rightarrow> Inl e
             | None \<Rightarrow>
                 if host_id r \<noteq> checked_host then Inl too_quickly
                 else Inr (if length (members r) = capacity r then drop_absent online recent r else r))
       (\<lambda>r1. and_then (join m r1) (\<lambda>r2. Inr (r2, ())))"

definition chat_last_seq :: "room \<Rightarrow> int op" where
  "chat_last_seq r =
     read_world (\<lambda>w. case chat_id r of
        None \<Rightarrow> Inr 0
      | Some chat \<Rightarrow>
          if \<not> chat_up w then Inr 0
          else case ext_last_seq w chat of
                 Inl _ \<Rightarrow> Inl (ServiceUnavailable (lit ''The room chat is busy, try again''))
               | Inr n \<Rightarrow> Inr n)"

definition admit :: "room_code \<Rightarrow> user \<Rightarrow> profile \<Rightarrow> bool \<Rightarrow> room_view op" where
  "admit c u prof public_only =
     await (room_at c) (\<lambda>r.
     let known = is_member r u in
     await (if known then ok ()
            else case refusal r u public_only of
                   Some e \<Rightarrow> err e
                 | None \<Rightarrow> await (read_world (\<lambda>w. ext_blocks w (host_id r) u)) (\<lambda>blocks.
                             if blocks then err room_not_found else ok ())) (\<lambda>_.
     await (if known then ok 0 else chat_last_seq r) (\<lambda>from_seq.
     bind now_ms (\<lambda>now.
     let m = reading_from from_seq (new_member u prof now); recent = now - ONLINE_WINDOW_MS in
     await (seen_since c recent) (\<lambda>online.
     await (apply_change c Member_Cause (admit_change u public_only (host_id r) online recent m)) (\<lambda>_.
     bind now_ms (\<lambda>later.
     await (store_touch c u later) (\<lambda>_. view c u))))))))"

definition service_join :: "room_code \<Rightarrow> user \<Rightarrow> profile \<Rightarrow> room_view op" where
  "service_join c u prof = admit c u prof False"

section \<open>Playback and readiness\<close>

definition playback_change :: "json_size \<Rightarrow> user \<Rightarrow> playback_update \<Rightarrow> unit change" where
  "playback_change bytes u upd w r = and_then (set_playback bytes u upd (wall w) r) (\<lambda>r'. Inr (r', ()))"

definition service_set_playback :: "json_size \<Rightarrow> room_code \<Rightarrow> user \<Rightarrow> playback_update \<Rightarrow> room_view op" where
  "service_set_playback bytes c u upd =
     await (apply_change c Member_Cause (playback_change bytes u upd)) (\<lambda>_. view c u)"

definition ready_change :: "user \<Rightarrow> str \<Rightarrow> bool change" where
  "ready_change u t w r = mark_ready u t r"

definition service_mark_ready :: "room_code \<Rightarrow> user \<Rightarrow> str \<Rightarrow> room_view op" where
  "service_mark_ready c u t =
     await (room_at c) (\<lambda>r.
     await (Ret (mark_ready u t r)) (\<lambda>(_, changed).
     await (if changed then await (apply_change c Member_Cause (ready_change u t)) (\<lambda>_. ok ()) else ok ())
       (\<lambda>_. view c u)))"

section \<open>Moderation and settings\<close>

definition kick_change :: "user \<Rightarrow> user \<Rightarrow> bool \<Rightarrow> unit change" where
  "kick_change actor target with_ban w r =
     and_then (if with_ban then ban actor target r else kick actor target r) (\<lambda>r'. Inr (r', ()))"

definition service_kick :: "room_code \<Rightarrow> user \<Rightarrow> user \<Rightarrow> bool \<Rightarrow> unit op" where
  "service_kick c actor target with_ban =
     await (apply_change c (Moderation actor with_ban) (kick_change actor target with_ban))
       (\<lambda>(after, _). forget_seen (code after) target)"

definition mute_change :: "user \<Rightarrow> user \<Rightarrow> nat \<Rightarrow> unit change" where
  "mute_change actor target seconds w r =
     and_then (mute_member actor target seconds (wall w) r) (\<lambda>r'. Inr (r', ()))"

definition service_mute :: "room_code \<Rightarrow> user \<Rightarrow> user \<Rightarrow> nat \<Rightarrow> unit op" where
  "service_mute c actor target seconds =
     await (apply_change c (Moderation actor False) (mute_change actor target seconds)) (\<lambda>_. ok ())"

definition moderator_change :: "user \<Rightarrow> user \<Rightarrow> bool \<Rightarrow> unit change" where
  "moderator_change actor target on w r =
     and_then (set_moderator actor target on r) (\<lambda>r'. Inr (r', ()))"

definition service_set_moderator :: "room_code \<Rightarrow> user \<Rightarrow> user \<Rightarrow> bool \<Rightarrow> unit op" where
  "service_set_moderator c actor target on =
     await (apply_change c (Moderation actor False) (moderator_change actor target on)) (\<lambda>_. ok ())"

definition settings_change ::
  "url_parse \<Rightarrow> user \<Rightarrow> settings_patch \<Rightarrow> int option \<Rightarrow> uuid option change" where
  "settings_change parse actor p cooldown w r =
     and_then (apply_settings parse actor p cooldown r) (\<lambda>r'.
       Inr (r', if image_backdrop r' \<noteq> image_backdrop r then image_backdrop r else None))"

definition reconfigure_guarded ::
  "url_parse \<Rightarrow> room_code \<Rightarrow> user \<Rightarrow> settings_patch \<Rightarrow> int option \<Rightarrow> guard option \<Rightarrow> (room \<times> uuid option) op"
  where
  "reconfigure_guarded parse c actor p cooldown g =
     await (apply_guarded c (Moderation actor False) g (settings_change parse actor p cooldown))
       (\<lambda>(after, replaced). bind (refresh_cards after) (\<lambda>_. ok (after, replaced)))"

definition reconfigure :: "url_parse \<Rightarrow> room_code \<Rightarrow> user \<Rightarrow> settings_patch \<Rightarrow> room op" where
  "reconfigure parse c actor p =
     await (reconfigure_guarded parse c actor p None None) (\<lambda>(after, _). ok after)"

definition unlist_change :: "unit change" where
  "unlist_change w r = Inr (r\<lparr>unlisted := True\<rparr>, ())"

definition unlist :: "room_code \<Rightarrow> bool op" where
  "unlist c =
     await (load c) (\<lambda>loaded.
       if loaded = None then ok False
       else await (apply_change c Quiet unlist_change) (\<lambda>_.
            await (directory_unlist c) (\<lambda>_.
            bind clear_listing (\<lambda>_. ok True))))"

section \<open>Perks\<close>

definition upgrade_change :: "user \<Rightarrow> bool change" where
  "upgrade_change host w r =
     Inr (if \<not> is_host r host \<or> star_host (room_perks r) then (r, False)
          else (r\<lparr>room_perks := perks_star\<rparr>, True))"

definition upgrade_to_star :: "room_code \<Rightarrow> user \<Rightarrow> room op" where
  "upgrade_to_star c host =
     await (apply_change c Quiet (upgrade_change host)) (\<lambda>(after, upgraded).
     bind (if upgraded then refresh_cards after else Ret ()) (\<lambda>_. ok after))"

definition live_since :: "int \<Rightarrow> room_code list op" where
  "live_since since = alive_since since"

definition recheck_change :: "user \<Rightarrow> perks \<Rightarrow> bool change" where
  "recheck_change host p w r =
     Inr (if host_id r \<noteq> host \<or> room_perks r = p then (r, False) else (r\<lparr>room_perks := p\<rparr>, True))"

definition recheck_room :: "room \<Rightarrow> bool op" where
  "recheck_room r =
     bind (read_world (\<lambda>w. if chat_up w then Some (ext_star w (host_id r)) else None)) (\<lambda>answer.
       case answer of
         Some (Inr star) \<Rightarrow>
           (let p = perks_of star in
            if room_perks r = p then ok False
            else await (apply_change (code r) Quiet (recheck_change (host_id r) p)) (\<lambda>(after, changed).
                 bind (if changed then refresh_cards after else Ret ()) (\<lambda>_. ok changed)))
       | _ \<Rightarrow> ok False)"

text \<open>
  The rooms of a page are rechecked up to eight at a time; as programs of the pool they may
  interleave at will, so one after the other is one of the orders the pool allows.
\<close>

fun recheck_all :: "room list \<Rightarrow> (world, nat) prog" where
  "recheck_all [] = Ret 0"
| "recheck_all (r # rs) =
     bind (recheck_room r) (\<lambda>outcome.
     bind (recheck_all rs) (\<lambda>n. Ret (if outcome = Inr True then n + 1 else n)))"

fun chunks :: "nat \<Rightarrow> 'a list \<Rightarrow> 'a list list" where
  "chunks n [] = []"
| "chunks n (x # xs) = take (Suc (n - 1)) (x # xs) # chunks n (drop (n - 1) xs)"

fun recheck_pages :: "room_code list list \<Rightarrow> nat op" where
  "recheck_pages [] = ok 0"
| "recheck_pages (page # pages) =
     await (load_many page) (\<lambda>rooms.
     bind (recheck_all rooms) (\<lambda>n.
     await (recheck_pages pages) (\<lambda>m. ok (n + m))))"

definition recheck_perks :: "room_code list \<Rightarrow> nat op" where
  "recheck_perks codes = recheck_pages (chunks RECHECK_PAGE codes)"

section \<open>Backdrops\<close>

definition clear_image_change :: "uuid \<Rightarrow> bool change" where
  "clear_image_change media w r = Inr (clear_image_backdrop media r)"

definition service_clear_image_backdrop :: "room_code \<Rightarrow> uuid \<Rightarrow> guard \<Rightarrow> room option op" where
  "service_clear_image_backdrop c media g =
     await (load c) (\<lambda>loaded.
       case loaded of None \<Rightarrow> ok None
       | Some r \<Rightarrow>
           if image_backdrop r \<noteq> Some media then ok None
           else await (apply_guarded c Quiet (Some g) (clear_image_change media)) (\<lambda>(after, cleared).
                bind (refresh_cards after) (\<lambda>_. ok (if cleared then Some after else None))))"

definition backdrop_cooldown :: "user \<Rightarrow> int option op" where
  "backdrop_cooldown host = bind now_ms (\<lambda>now. store_cooling_until host now)"

definition cool_down_backdrop :: "user \<Rightarrow> int \<Rightarrow> unit op" where
  "cool_down_backdrop host until = bind now_ms (\<lambda>now. cool_down host until now)"

section \<open>The chat of a room\<close>

definition chat_off :: app_error where
  "chat_off = coded 403 (lit ''room_chat_disabled'') (lit ''The host turned the room chat off'')"

record opened_chat =
  opened_room :: room
  conversation_id :: uuid
  from_seq :: int

definition claim_change :: "user \<Rightarrow> uuid change" where
  "claim_change u w r =
     (if \<not> is_member r u then Inl not_member
      else case chat_id r of
             Some chat \<Rightarrow> Inr (r, chat)
           | None \<Rightarrow> Inr (r\<lparr>chat_id := Some (ext_uuid w)\<rparr>, ext_uuid w))"

definition claim_chat :: "room_code \<Rightarrow> user \<Rightarrow> opened_chat op" where
  "claim_chat c u =
     await (room_at c) (\<lambda>r.
     await (Ret (ok_or not_member (member_of r u))) (\<lambda>m.
       if \<not> chat_enabled r then err chat_off
       else await (case chat_id r of
                     Some chat \<Rightarrow> ok (r, chat)
                   | None \<Rightarrow> apply_change c Quiet (claim_change u)) (\<lambda>(r', chat).
            await (index_chat chat (code r')) (\<lambda>_.
              ok \<lparr>opened_room = r', conversation_id = chat, from_seq = chat_from_seq m\<rparr>))))"

definition room_by_chat :: "uuid \<Rightarrow> room option op" where
  "room_by_chat chat =
     await (chat_code chat) (\<lambda>found.
       case found of None \<Rightarrow> ok None
       | Some c \<Rightarrow> await (load c) (\<lambda>loaded.
           ok (Option.bind loaded (\<lambda>r. if chat_id r = Some chat then Some r else None))))"

section \<open>Public rooms\<close>

definition host_id_of :: "str \<Rightarrow> user app_result" where
  "host_id_of raw =
     (if raw \<noteq> [] \<and> str_len raw \<le> MAX_HOST_ID_LEN \<and> (\<forall>b \<in> set raw. is_ascii_digit b)
      then Inr raw else Inl room_not_found)"

definition public_change :: "user \<Rightarrow> bool \<Rightarrow> unit change" where
  "public_change u pub w r = and_then (set_public u pub r) (\<lambda>r'. Inr (r', ()))"

definition service_set_public :: "room_code \<Rightarrow> user \<Rightarrow> bool \<Rightarrow> room_view op" where
  "service_set_public c u pub =
     await (room_at c) (\<lambda>current.
       if \<not> is_host current u then err (Forbidden (lit ''Only the host opens or closes the room''))
       else if public current = pub then view c u
       else
         await (if pub then await (apply_change c Quiet (public_change u True)) (\<lambda>(r, _). ok r)
                else await (relocate c Quiet (public_change u False)) (\<lambda>r.
                     await (directory_unlist c) (\<lambda>_. ok r))) (\<lambda>r.
         bind now_ms (\<lambda>now.
         await (host_seen r now) (\<lambda>_.
         bind clear_listing (\<lambda>_. view (code r) u)))))"

definition public_rooms :: "url_parse \<Rightarrow> public_room list op" where
  "public_rooms parse =
     bind (read_world (\<lambda>w. case listing_cache w of
             Some (stamp, rooms) \<Rightarrow> if instant w - stamp < LIST_FRESH_FOR then Some rooms else None
           | None \<Rightarrow> None)) (\<lambda>cached.
       case cached of Some rooms \<Rightarrow> ok rooms
       | None \<Rightarrow>
           bind now_ms (\<lambda>now.
           let since = now - ONLINE_WINDOW_MS in
           await (listed_since since SCAN_LIMIT) (\<lambda>codes.
           await (load_with_presence codes since) (\<lambda>found.
             let rooms = take LIST_LIMIT (rank (List.map_filter (\<lambda>(r, online). public_room_of parse r online)
                           (filter (\<lambda>(r, _). public r) found))) in
             bind (inside (\<lambda>w. w\<lparr>listing_cache := Some (instant w, rooms)\<rparr>) (\<lambda>_. ())) (\<lambda>_. ok rooms)))))"

definition join_public :: "str \<Rightarrow> user \<Rightarrow> profile \<Rightarrow> room_view op" where
  "join_public host u prof =
     await (Ret (host_id_of host)) (\<lambda>h.
     await (hosted_by h) (\<lambda>hosted.
     await (Ret (ok_or room_not_found hosted)) (\<lambda>c.
     await (admit c u prof True) (\<lambda>v.
       if view_host_id v \<noteq> host then err room_not_found else ok v))))"

text \<open>What \<open>list_public\<close> of \<open>handlers.rs\<close> keeps of the list for a caller.\<close>

definition visible_to :: "user \<Rightarrow> user set \<Rightarrow> public_room list \<Rightarrow> public_room list" where
  "visible_to u blocked listed =
     filter (\<lambda>r. u \<notin> set (pr_banned r))
       (filter (\<lambda>r. pr_host_id r \<noteq> u \<and> pr_host_id r \<notin> blocked) listed)"

section \<open>Previews\<close>

definition preview :: "url_parse \<Rightarrow> room_code \<Rightarrow> room_preview option op" where
  "preview parse c =
     bind (read_world (\<lambda>w. preview_cache w c)) (\<lambda>cached.
       case cached of Some p \<Rightarrow> ok p
       | None \<Rightarrow>
           bind now_ms (\<lambda>now.
           await (load_with_presence [c] (now - ONLINE_WINDOW_MS)) (\<lambda>found.
             let p = (case found of [] \<Rightarrow> None | (r, online) # _ \<Rightarrow> room_preview_of parse r online) in
             bind (inside (\<lambda>w. w\<lparr>preview_cache := (preview_cache w)(c \<mapsto> p)\<rparr>) (\<lambda>_. ())) (\<lambda>_. ok p))))"

end
