(* ===== verification/Room_Safety.thy ===== *)
theory Room_Safety
  imports Room_Service
begin

text \<open>
  What holds of the stored rooms while any number of service operations run against each other,
  against failing connections and against expiry. \<open>store_inv\<close>: every room that decodes is
  well-formed, is stored under its own code and carries the version of its hash. \<open>guar\<close>: what one
  step may do to a room: nothing, remove it, put the next version, create it where there was none.

  The locale \<open>room_change\<close> is what \<open>update\<close> and \<open>relocate\<close> ask of the closure they are given; every
  closure of the service is an interpretation of it.
\<close>

section \<open>The invariant and the guarantee\<close>

definition rooms_ok :: "(room_code, nat \<times> room option) keyed \<Rightarrow> bool" where
  "rooms_ok m \<longleftrightarrow>
     (\<forall>c v r d. m c = Some ((v, Some r), d) \<longrightarrow> room_wf r \<and> code r = c \<and> version r = v)"

definition store_inv :: "world \<Rightarrow> bool" where
  "store_inv w \<longleftrightarrow> rooms_ok (kv_rooms w)"

definition evolves :: "(nat \<times> room option) option \<Rightarrow> (nat \<times> room option) option \<Rightarrow> bool" where
  "evolves x y \<longleftrightarrow>
     y = x \<or> y = None \<or> (\<exists>v b r. x = Some (v, b) \<and> y = Some (Suc v, Some r)) \<or>
     (x = None \<and> (\<exists>r. y = Some (version r, Some r)))"

definition guar :: "world \<Rightarrow> world \<Rightarrow> bool" where
  "guar w w' \<longleftrightarrow> redis_time w' = redis_time w \<and> (\<forall>c. evolves (row w c) (row w' c))"

text \<open>
  What happens by itself: time passes, the systems the service asks change their answers, leases
  of the chat come and go, cache entries are evicted.
\<close>

definition env :: "world \<Rightarrow> world \<Rightarrow> bool" where
  "env w w' \<longleftrightarrow>
     redis_time w \<le> redis_time w' \<and> kv_rooms w' = kv_rooms w \<and> kv_seen w' = kv_seen w \<and>
     kv_moved w' = kv_moved w \<and> kv_chat w' = kv_chat w \<and> kv_cooldown w' = kv_cooldown w \<and>
     kv_host w' = kv_host w \<and> kv_public w' = kv_public w \<and> kv_alive w' = kv_alive w \<and>
     event_log w' = event_log w \<and> (\<forall>c. alive_cache w' c \<longrightarrow> alive_cache w c) \<and>
     (\<forall>c. preview_cache w' c = None \<or> preview_cache w' c = preview_cache w c)"

abbreviation service_safe :: "(world, 'a) prog \<Rightarrow> ('a \<Rightarrow> bool) \<Rightarrow> bool" where
  "service_safe \<equiv> safe store_inv guar"

lemma evolves_refl [simp]: "evolves x x" and evolves_None [simp]: "evolves x None"
  by (simp_all add: evolves_def)

lemma guar_refl [simp]: "guar w w"
  by (simp add: guar_def)

lemma row_cong: "kv_rooms w' = kv_rooms w \<Longrightarrow> redis_time w' = redis_time w \<Longrightarrow> row w' c = row w c"
  by (simp add: row_def)

lemma untouched:
  "kv_rooms w' = kv_rooms w \<Longrightarrow> redis_time w' = redis_time w \<Longrightarrow> store_inv w \<Longrightarrow> store_inv w' \<and> guar w w'"
  by (simp add: store_inv_def guar_def row_def)

lemma env_inv: "store_inv w \<Longrightarrow> env w w' \<Longrightarrow> store_inv w'"
  by (simp add: env_def store_inv_def)

lemma row_stored: "row w c = Some x \<Longrightarrow> \<exists>d. kv_rooms w c = Some (x, d)"
  by (auto simp: row_def live_def split: option.splits if_splits)

lemma row_ok: "store_inv w \<Longrightarrow> row w c = Some (v, Some r) \<Longrightarrow> room_wf r \<and> code r = c \<and> version r = v"
  by (auto simp: store_inv_def rooms_ok_def dest!: row_stored)

section \<open>What the commands do to the rooms\<close>

lemma rooms_ok_set_ex:
  "rooms_ok m \<Longrightarrow> room_wf r \<Longrightarrow> rooms_ok (set_ex t ttl (code r) (version r, Some r) m)"
  by (simp add: rooms_ok_def set_ex_def)

lemma rooms_ok_del: "rooms_ok m \<Longrightarrow> rooms_ok (del k m)"
  by (simp add: rooms_ok_def del_def)

lemma rooms_ok_expire:
  assumes "rooms_ok m"
  shows "rooms_ok (expire t ttl k m)"
proof (cases "live t m k")
  case (Some x)
  then obtain d where "m k = Some (x, d)"
    by (auto simp: live_def split: option.splits if_splits)
  with assms Some show ?thesis
    by (auto simp: rooms_ok_def expire_def set_ex_def)
qed (simp add: expire_def assms)

lemma room_ttl_pos [simp]: "0 \<le> room_ttl"
  by (simp add: ROOM_TTL_SECS_def)

lemma create_script_safe:
  assumes "store_inv w" "room_wf r"
  shows "store_inv (snd (create_script r w)) \<and> guar w (snd (create_script r w))"
  using assms
  by (auto simp: create_script_def store_inv_def rooms_ok_set_ex guar_def evolves_def row_def live_set_ex)

lemma swap_script_safe:
  assumes "store_inv w" "room_wf r" "code r = c" "version r = Suc v"
  shows "store_inv (snd (swap_script c g v r w)) \<and> guar w (snd (swap_script c g v r w))"
proof -
  have "rooms_ok (set_ex t ttl c (Suc v, Some r) (kv_rooms w))" for t ttl
    using rooms_ok_set_ex [of "kv_rooms w" r t ttl] assms by (simp add: store_inv_def)
  then show ?thesis
    using assms
    by (auto simp: swap_script_def store_inv_def guar_def evolves_def row_def live_set_ex)
qed

lemma move_script_safe:
  assumes "store_inv w" "room_wf r"
  shows "store_inv (snd (move_script c v r w)) \<and> guar w (snd (move_script c v r w))"
  using assms
  by (auto simp: move_script_def Let_def store_inv_def rooms_ok_set_ex rooms_ok_del guar_def
      evolves_def row_def live_set_ex live_del)

section \<open>Rules\<close>

lemma await_any [keeps_intros]:
  "safe I G m (on_ok anything) \<Longrightarrow> (\<And>a. safe I G (k a) (on_ok Q)) \<Longrightarrow> safe I G (await m k) (on_ok Q)"
  by (rule safe_awaitI)

lemma bind_any [keeps_intros]:
  "safe I G p anything \<Longrightarrow> (\<And>a. safe I G (k a) Q) \<Longrightarrow> safe I G (bind p k) Q"
  by (rule safe_bindI)

lemma safe_if [keeps_intros]:
  "(b \<Longrightarrow> safe I G p Q) \<Longrightarrow> (\<not> b \<Longrightarrow> safe I G q Q) \<Longrightarrow> safe I G (if b then p else q) Q"
  by simp

lemma safe_option [keeps_intros]:
  "(x = None \<Longrightarrow> safe I G p Q) \<Longrightarrow> (\<And>y. x = Some y \<Longrightarrow> safe I G (f y) Q) \<Longrightarrow>
   safe I G (case x of None \<Rightarrow> p | Some y \<Rightarrow> f y) Q"
  by (cases x) auto

lemma safe_sum [keeps_intros]:
  "(\<And>e. x = Inl e \<Longrightarrow> safe I G (f e) Q) \<Longrightarrow> (\<And>y. x = Inr y \<Longrightarrow> safe I G (g y) Q) \<Longrightarrow>
   safe I G (case x of Inl e \<Rightarrow> f e | Inr y \<Rightarrow> g y) Q"
  by (cases x) auto

lemma safe_prod [keeps_intros]:
  "(\<And>y z. x = (y, z) \<Longrightarrow> safe I G (f y z) Q) \<Longrightarrow> safe I G (case x of (y, z) \<Rightarrow> f y z) Q"
  by (cases x) auto

declare TrueI [keeps_intros]

lemma safe_ret [keeps_intros]: "Q a \<Longrightarrow> safe I G (Ret a) Q"
  by simp

lemma on_ok_anything [keeps_intros]: "on_ok anything x"
  by (simp add: on_ok_def split: sum.splits)

lemma safe_read [keeps_intros]: "service_safe (read_world f) anything"
  by (simp add: read_world_def inside_def)

lemma safe_read_ok [keeps_intros]: "service_safe (read_world f) (on_ok anything)"
  by (rule safe_mono [OF safe_read]) (rule on_ok_anything)

lemma safe_now [keeps_intros]: "service_safe now_ms anything"
  by (simp add: now_ms_def inside_def)

lemma safe_update_inside:
  "(\<And>w. kv_rooms (u w) = kv_rooms w \<and> redis_time (u w) = redis_time w) \<Longrightarrow>
   service_safe (inside u (\<lambda>_. ())) anything"
  by (simp add: inside_def untouched)

lemma safe_tell [keeps_intros]: "service_safe (tell e) anything"
  unfolding tell_def by (rule safe_update_inside) simp

lemma safe_query [keeps_intros]: "service_safe (query f) (on_ok anything)"
  unfolding query_def by (rule safe_command) simp

lemma safe_execute:
  "(\<And>w. kv_rooms (u w) = kv_rooms w \<and> redis_time (u w) = redis_time w) \<Longrightarrow>
   service_safe (execute u) (on_ok anything)"
  unfolding execute_def by (rule safe_command) (simp add: untouched)

lemma safe_pipe:
  "(\<And>u w. u \<in> set us \<Longrightarrow> store_inv w \<Longrightarrow> store_inv (u w) \<and> guar w (u w)) \<Longrightarrow>
   service_safe (pipe us) (on_ok anything)"
proof (induction us)
  case (Cons u us)
  have "service_safe (execute u) (on_ok anything)"
    unfolding execute_def by (rule safe_command) (simp add: Cons.prems)
  moreover have "service_safe (pipe us) (on_ok anything)"
    by (rule Cons.IH) (simp add: Cons.prems)
  ultimately show ?case
    unfolding pipe.simps
    by (intro safe_bindI [where R = "on_ok anything"] safe_ret on_ok_anything)
qed simp

lemma safe_pipe_queries [keeps_intros]: "service_safe (pipe_queries fs) (on_ok anything)"
proof (induction fs)
  case (Cons f fs)
  show ?case
    unfolding pipe_queries.simps by (rule Cons.IH keeps_intros)+
qed simp

section \<open>Closures\<close>

locale room_change =
  fixes change :: "'t change"
  assumes change_wf: "room_wf r \<Longrightarrow> change w r = Inr (r', t) \<Longrightarrow> room_wf r'"
    and change_code: "change w r = Inr (r', t) \<Longrightarrow> code r' = code r"
begin

lemma keeping_before_change: "room_change (keeping_before change)"
  by unfold_locales
     (auto simp: keeping_before_def and_then_eq_Inr change_wf change_code split: prod.splits)

end

lemma load_safe:
  "service_safe (load c) (on_ok (pred_option (\<lambda>r. room_wf r \<and> code r = c)))"
proof -
  have "service_safe (query (\<lambda>w. row w c)) (on_ok (\<lambda>x. \<forall>v r. x = Some (v, Some r) \<longrightarrow> room_wf r \<and> code r = c))"
    unfolding query_def by (rule safe_command) (auto dest: row_ok)
  then show ?thesis
    unfolding load_def by (rule safe_awaitI) (auto split: option.splits prod.splits)
qed

lemma script_safe:
  "(\<And>w. store_inv w \<Longrightarrow> store_inv (snd (f w)) \<and> guar w (snd (f w))) \<Longrightarrow>
   service_safe (script f) (on_ok anything)"
  unfolding script_def by (rule safe_command) simp

lemma await_load:
  "service_safe (k None) (on_ok Q) \<Longrightarrow>
   (\<And>r. room_wf r \<Longrightarrow> code r = c \<Longrightarrow> service_safe (k (Some r)) (on_ok Q)) \<Longrightarrow>
   service_safe (await (load c) k) (on_ok Q)"
proof (rule safe_awaitI [OF load_safe])
  fix x :: "room option"
  assume "service_safe (k None) (on_ok Q)"
    and "\<And>r. room_wf r \<Longrightarrow> code r = c \<Longrightarrow> service_safe (k (Some r)) (on_ok Q)"
    and "pred_option (\<lambda>r. room_wf r \<and> code r = c) x"
  then show "service_safe (k x) (on_ok Q)"
    by (cases x) auto
qed

lemma await_ret:
  "(\<And>a. x = Inr a \<Longrightarrow> safe I G (k a) (on_ok Q)) \<Longrightarrow> safe I G (await (Ret x) k) (on_ok Q)"
  by (rule safe_awaitI [where R = "\<lambda>a. x = Inr a"]) (simp_all add: on_ok_def split: sum.splits)

lemma await_read:
  "(\<And>w a. f w = Inr a \<Longrightarrow> service_safe (k a) (on_ok Q)) \<Longrightarrow>
   service_safe (await (read_world f) k) (on_ok Q)"
  by (rule safe_awaitI [where R = "\<lambda>a. \<exists>w. f w = Inr a"])
     (auto simp: read_world_def inside_def on_ok_def split: sum.splits)

context room_change
begin

lemma update_loop_safe:
  "service_safe (update_loop n c g change) (on_ok (\<lambda>(r, t). room_wf r \<and> code r = c))"
proof (induction n)
  case (Suc n)
  let ?Q = "on_ok (\<lambda>(r, t). room_wf r \<and> code r = c)"
  have step: "service_safe (await (script (swap_script c g (version r) (r'\<lparr>version := version r + 1\<rparr>)))
      (\<lambda>s. if s = 1 then ok (r'\<lparr>version := version r + 1\<rparr>, t)
           else if s = - 1 then err changed_elsewhere else update_loop n c g change)) ?Q"
    if "room_wf r" "code r = c" "change w r = Inr (r', t)" for r w r' t
    using that change_wf change_code
    by (intro await_any script_safe swap_script_safe safe_if Suc.IH) auto
  show ?case
    unfolding update_loop.simps Let_def
    by (intro await_load await_ret await_read safe_prod; simp only: ok_or_eq_Inr option.distinct option.inject)
       (rule step; assumption)
qed simp

lemma relocate_loop_safe:
  "service_safe (relocate_loop n c change) (on_ok (\<lambda>(r, t). room_wf r))"
proof (induction n)
  case (Suc n)
  let ?next = "\<lambda>r r' fresh. r'\<lparr>code := fresh, version := version r + 1\<rparr>"
  have step: "service_safe (bind (read_world (\<lambda>w. new_code (ext_draws w))) (\<lambda>fresh.
      await (script (move_script c (version r) (?next r r' fresh)))
        (\<lambda>s. if s = 1 then ok (?next r r' fresh, t) else relocate_loop n c change)))
      (on_ok (\<lambda>(r, t). room_wf r))"
    if "room_wf r" "change w r = Inr (r', t)" for r w r' t
    using that change_wf
    by (intro bind_any safe_read await_any script_safe move_script_safe safe_if Suc.IH) auto
  show ?case
    unfolding relocate_loop.simps Let_def
    by (intro await_load await_ret await_read safe_prod; simp only: ok_or_eq_Inr option.distinct option.inject)
       (rule step; assumption)
qed simp

lemma update_safe: "service_safe (update c g change) (on_ok (\<lambda>(r, t). room_wf r \<and> code r = c))"
  unfolding update_def by (rule update_loop_safe)

lemma store_relocate_safe: "service_safe (store_relocate c change) (on_ok (\<lambda>(r, t). room_wf r))"
  unfolding store_relocate_def by (rule relocate_loop_safe)

end

section \<open>The closures of the service\<close>

lemma code_simps [simp]:
  "code (drop_absent online after r) = code r" "code (fst (remove_member u r)) = code r"
  "code (fst (clear_image_backdrop media r)) = code r"
  by (simp_all add: drop_absent_def keep_members_only_def remove_member_def clear_image_backdrop_def)

lemma code_kept:
  "join m r = Inr r' \<Longrightarrow> code r' = code r"
  "hand_off leaving cands r = Some (r', nxt) \<Longrightarrow> code r' = code r"
  "kick actor target r = Inr r' \<Longrightarrow> code r' = code r"
  "ban actor target r = Inr r' \<Longrightarrow> code r' = code r"
  "mute_member actor target seconds now r = Inr r' \<Longrightarrow> code r' = code r"
  "set_moderator actor target on r = Inr r' \<Longrightarrow> code r' = code r"
  "set_playback bytes u upd now r = Inr r' \<Longrightarrow> code r' = code r"
  "mark_ready u t r = Inr (r', changed) \<Longrightarrow> code r' = code r"
  "apply_settings parse actor p cooldown r = Inr r' \<Longrightarrow> code r' = code r"
  "set_public u pub r = Inr r' \<Longrightarrow> code r' = code r"
proof -
  show "join m r = Inr r' \<Longrightarrow> code r' = code r"
    by (auto simp: join_def split: if_splits)
  show "hand_off leaving cands r = Some (r', nxt) \<Longrightarrow> code r' = code r"
    by (auto simp: hand_off_def Let_def drop_image_backdrop_def split: option.splits)
  show "kick actor target r = Inr r' \<Longrightarrow> code r' = code r"
    by (auto simp: kick_def and_then_eq_Inr remove_member_def keep_members_only_def Let_def split: if_splits)
  show "ban actor target r = Inr r' \<Longrightarrow> code r' = code r"
    by (auto simp: ban_def Let_def split: if_splits)
  show "mute_member actor target seconds now r = Inr r' \<Longrightarrow> code r' = code r"
    by (auto simp: mute_member_def and_then_eq_Inr Let_def split: if_splits)
  show "set_moderator actor target on r = Inr r' \<Longrightarrow> code r' = code r"
    by (auto simp: set_moderator_def split: if_splits)
  show "set_playback bytes u upd now r = Inr r' \<Longrightarrow> code r' = code r"
    by (auto dest!: set_playback_frame)
  show "mark_ready u t r = Inr (r', changed) \<Longrightarrow> code r' = code r"
    by (auto simp: mark_ready_def and_then_eq_Inr split: if_splits)
  show "apply_settings parse actor p cooldown r = Inr r' \<Longrightarrow> code r' = code r"
    by (drule apply_settings_people) (simp add: same_people_def)
  show "set_public u pub r = Inr r' \<Longrightarrow> code r' = code r"
    by (auto simp: set_public_def split: if_splits)
qed

definition valid_perks :: "perks \<Rightarrow> bool" where
  "valid_perks p \<longleftrightarrow> p = perks_free \<or> p = perks_star"

lemma valid_perks_simps [simp]: "valid_perks perks_free" "valid_perks perks_star" "valid_perks (perks_of b)"
  by (simp_all add: valid_perks_def perks_of_def)

lemma room_wf_set_perks: "room_wf r \<Longrightarrow> valid_perks p \<Longrightarrow> room_wf (r\<lparr>room_perks := p\<rparr>)"
  using people_wf_cong [of "r\<lparr>room_perks := p\<rparr>" r] by (auto simp: room_wf_def look_wf_def valid_perks_def)

lemma remove_member_pair:
  assumes "remove_member u r = (r', gone)"
  shows "code r' = code r" "room_wf r \<Longrightarrow> u \<noteq> host_id r \<Longrightarrow> room_wf r'"
  using code_simps(2) [of u r] room_wf_remove [of r u] assms by (simp_all del: code_simps)

interpretation leaving: room_change "leave_change u" for u
  by unfold_locales
     (auto simp: leave_change_def is_host_def split: if_splits dest: remove_member_pair)

lemma hand_off_change_ok: "valid_perks p \<Longrightarrow> room_change (hand_off_change host candidates expected p)"
proof (unfold_locales, goal_cases)
  case (1 r w r' t)
  then show ?case
    using room_wf_hand_off [of r host candidates]
    by (auto simp: hand_off_change_def is_host_def and_then_eq_Inr ok_or_eq_Inr valid_perks_def
        room_wf_remove split: if_splits prod.splits)
next
  case (2 w r r' t)
  then show ?case
    by (auto simp: hand_off_change_def and_then_eq_Inr ok_or_eq_Inr code_kept split: if_splits prod.splits)
qed

interpretation handing_off: room_change "hand_off_change host candidates expected (perks_of b)"
  for host candidates expected b
  by (rule hand_off_change_ok) simp

lemma settle_change_ok: "valid_perks p \<Longrightarrow> room_change (settle_change host p)"
  by unfold_locales (auto simp: settle_change_def room_wf_set_perks split: if_splits)

interpretation settling: room_change "settle_change host (perks_of b)" for host b
  by (rule settle_change_ok) simp

interpretation admitting: room_change "admit_change u public_only host online recent m"
  for u public_only host online recent m
proof (unfold_locales, goal_cases)
  case (1 r w r' t)
  then show ?case
    by (auto simp: admit_change_def and_then_eq_Inr split: if_splits option.splits
        intro: room_wf_join room_wf_drop_absent)
next
  case (2 w r r' t)
  then show ?case
    by (auto simp: admit_change_def and_then_eq_Inr dest!: code_kept(1) split: if_splits option.splits)
qed

interpretation playing: room_change "playback_change bytes u upd" for bytes u upd
  by unfold_locales (auto simp: playback_change_def and_then_eq_Inr code_kept intro: room_wf_set_playback)

interpretation readying: room_change "ready_change u t" for u t
  by unfold_locales (auto simp: ready_change_def code_kept intro: room_wf_mark_ready)

interpretation kicking: room_change "kick_change actor target with_ban" for actor target with_ban
  by unfold_locales
     (auto simp: kick_change_def and_then_eq_Inr code_kept split: if_splits intro: room_wf_ban room_wf_kick)

interpretation muting: room_change "mute_change actor target seconds" for actor target seconds
  by unfold_locales (auto simp: mute_change_def and_then_eq_Inr code_kept intro: room_wf_mute)

interpretation promoting: room_change "moderator_change actor target on" for actor target on
  by unfold_locales (auto simp: moderator_change_def and_then_eq_Inr code_kept intro: room_wf_set_moderator)

interpretation configuring: room_change "settings_change parse actor p cooldown" for parse actor p cooldown
  by unfold_locales (auto simp: settings_change_def and_then_eq_Inr code_kept intro: room_wf_apply_settings)

interpretation unlisting: room_change unlist_change
  by unfold_locales (auto simp: unlist_change_def)

interpretation upgrading: room_change "upgrade_change host" for host
  by unfold_locales (auto simp: upgrade_change_def room_wf_set_perks split: if_splits)

interpretation rechecking: room_change "recheck_change host (perks_of b)" for host b
  by unfold_locales (auto simp: recheck_change_def room_wf_set_perks split: if_splits)

interpretation clearing: room_change "clear_image_change media" for media
proof (unfold_locales, goal_cases)
  case (1 r w r' t)
  then show ?case
    using room_wf_clear_image [of r media] by (simp add: clear_image_change_def)
next
  case (2 w r r' t)
  then show ?case
    using code_simps(3) [of media r] by (simp add: clear_image_change_def del: code_simps)
qed

interpretation claiming: room_change "claim_change u" for u
  by unfold_locales (auto simp: claim_change_def split: if_splits option.splits)

interpretation publishing: room_change "public_change u pub" for u pub
  by unfold_locales (auto simp: public_change_def and_then_eq_Inr code_kept intro: room_wf_set_public)

section \<open>Every operation is safe\<close>

lemma eff_any: "safe I G p (on_ok anything) \<Longrightarrow> safe I G p anything"
  by (rule safe_mono) simp_all

lemma load_any [keeps_intros]: "service_safe (load c) (on_ok anything)"
  by (rule safe_mono [OF load_safe]) (rule on_ok_anything)

lemma store_insert_safe: "room_wf r \<Longrightarrow> service_safe (store_insert r) (on_ok anything)"
  unfolding store_insert_def by (rule keeps_intros script_safe create_script_safe | assumption)+

lemma commands_safe [keeps_intros]:
  "service_safe (load_many codes) (on_ok anything)"
  "service_safe (alive_since since) (on_ok anything)"
  "service_safe (seen_since c since) (on_ok anything)"
  "service_safe (load_with_presence codes since) (on_ok anything)"
  "service_safe (room_version c) (on_ok anything)"
  "service_safe (moved_to c) (on_ok anything)"
  "service_safe (chat_code chat) (on_ok anything)"
  "service_safe (hosted_by u) (on_ok anything)"
  "service_safe (store_cooling_until u now) (on_ok anything)"
  unfolding load_many_def alive_since_def seen_since_def load_with_presence_def room_version_def
    moved_to_def chat_code_def hosted_by_def store_cooling_until_def
  by (rule keeps_intros)+

lemma writes_safe [keeps_intros]:
  "service_safe (forget_alive c) (on_ok anything)"
  "service_safe (index_chat chat c) (on_ok anything)"
  "service_safe (forget_seen c u) (on_ok anything)"
  "service_safe (cool_down u until now) (on_ok anything)"
  "service_safe (directory_unlist c) (on_ok anything)"
  "service_safe (release_host u c) (on_ok anything)"
  unfolding forget_alive_def index_chat_def forget_seen_def cool_down_def directory_unlist_def
    release_host_def release_script_def
  by (rule safe_execute; simp)+

lemma pipes_safe [keeps_intros]:
  "service_safe (forget_room r) (on_ok anything)"
  "service_safe (store_keep_alive r now) (on_ok anything)"
  "service_safe (store_touch c u now) (on_ok anything)"
  "service_safe (host_seen r now) (on_ok anything)"
proof -
  show "service_safe (forget_room r) (on_ok anything)"
    unfolding forget_room_def
    by (rule safe_pipe)
       (auto simp: store_inv_def rooms_ok_del guar_def row_def live_del split: option.splits)
  show "service_safe (store_keep_alive r now) (on_ok anything)"
    unfolding store_keep_alive_def
    by (rule safe_pipe)
       (auto simp: store_inv_def rooms_ok_expire guar_def row_def live_expire split: option.splits)
  show "service_safe (store_touch c u now) (on_ok anything)"
    unfolding store_touch_def by (rule safe_pipe) (auto simp: untouched)
  show "service_safe (host_seen r now) (on_ok anything)"
    unfolding host_seen_def by (rule safe_pipe) (auto simp: untouched)
qed

lemma inside_safe [keeps_intros]:
  "service_safe (settle before after cs) anything"
  "service_safe (invalidate c) anything"
  "service_safe (forget_cached_alive c) anything"
  "service_safe clear_listing anything"
  unfolding settle_def invalidate_def forget_cached_alive_def clear_listing_def
  by (rule keeps_intros safe_update_inside | simp)+

lemma cached_safe [keeps_intros]:
  "service_safe (refresh_cards r) anything"
  "service_safe (keep_alive r now) (on_ok anything)"
  "service_safe (directory_close r) (on_ok anything)"
  "service_safe (listed_since since limit) (on_ok anything)"
  unfolding refresh_cards_def keep_alive_def directory_close_def listed_since_def
  by (rule keeps_intros safe_update_inside safe_execute | simp)+

context room_change
begin

lemma apply_guarded_safe: "service_safe (apply_guarded c cs g change) (on_ok anything)"
proof -
  have "service_safe (update c g (keeping_before change)) (on_ok anything)"
    using room_change.update_safe [OF keeping_before_change]
    by (rule safe_mono) (rule on_ok_anything)
  then show ?thesis
    unfolding apply_guarded_def by (rule await_any) (rule keeps_intros)+
qed

lemma apply_change_safe: "service_safe (apply_change c cs change) (on_ok anything)"
  unfolding apply_change_def by (rule apply_guarded_safe)

end

lemma relocate_safe:
  assumes "room_change change"
  shows "service_safe (relocate c cs change) (on_ok anything)"
proof -
  have "service_safe (store_relocate c (keeping_before change)) (on_ok anything)"
    using room_change.store_relocate_safe [OF room_change.keeping_before_change [OF assms]]
    by (rule safe_mono) (rule on_ok_anything)
  then show ?thesis
    unfolding relocate_def by (rule await_any) (rule keeps_intros)+
qed

lemmas applied_safe [keeps_intros] =
  leaving.apply_change_safe admitting.apply_change_safe playing.apply_change_safe
  readying.apply_change_safe kicking.apply_change_safe muting.apply_change_safe
  promoting.apply_change_safe configuring.apply_guarded_safe unlisting.apply_change_safe
  upgrading.apply_change_safe rechecking.apply_change_safe clearing.apply_guarded_safe
  claiming.apply_change_safe publishing.apply_change_safe
  relocate_safe [OF publishing.room_change_axioms]

end
