(* ===== verification/Room_Pool.thy ===== *)
theory Room_Pool
  imports Room_Safety
begin

text \<open>
  The rooms service as a concurrent system: \<open>service_op\<close> lists the operations a request may run,
  the pool of \<open>Effects\<close> runs any number of them, and the stored rooms stay well-formed in every
  reachable state. \<open>update_atomic\<close> shows that a successful compare-and-set takes effect at one
  instant on exactly the room its closure was given.
\<close>

section \<open>Operations of the service\<close>

lemma looking_safe [keeps_intros]:
  "service_safe (find_room c) (on_ok anything)"
  "service_safe (room_at c) (on_ok anything)"
  "service_safe (show_room r u) (on_ok anything)"
  unfolding find_room_def room_at_def show_room_def by (rule keeps_intros)+

lemma view_safe [keeps_intros]: "service_safe (view c u) (on_ok anything)"
  unfolding view_def by (rule keeps_intros)+

lemma wait_loop_safe [keeps_intros]: "service_safe (wait_loop fuel c since deadline v) (on_ok anything)"
proof (induction fuel arbitrary: v)
  case (Suc fuel)
  show ?case
    unfolding wait_loop.simps by (rule Suc.IH keeps_intros)+
qed simp

lemma wait_on_safe [keeps_intros]: "service_safe (wait_on fuel c u since hold) (on_ok anything)"
  unfolding wait_on_def by (rule keeps_intros)+

lemma wait_safe [keeps_intros]: "service_safe (wait fuel c u since hold follow) (on_ok anything)"
  unfolding wait_def by (rule keeps_intros eff_any)+

lemma end_room_safe [keeps_intros]: "service_safe (end_room c) (on_ok anything)"
  unfolding end_room_def by (rule keeps_intros)+

lemma star_perks_safe: "service_safe (star_perks u) valid_perks"
  unfolding star_perks_def read_world_def by (rule safe_inside) (auto split: sum.splits)

lemma settle_perks_safe [keeps_intros]: "service_safe (settle_perks c host) anything"
proof -
  have "service_safe (apply_change c Quiet (settle_change host p)) anything" if "valid_perks p" for p
    using that by (intro eff_any room_change.apply_change_safe settle_change_ok)
  then show ?thesis
    unfolding settle_perks_def
    by (intro safe_bindI [OF star_perks_safe] bind_any [where k = "\<lambda>_. Ret ()"]) simp_all
qed

lemma free_users_safe [keeps_intros]: "service_safe (free_users r host online) (on_ok anything)"
proof (induction online)
  case (Cons u online)
  show ?case
    unfolding free_users.simps by (rule Cons.IH keeps_intros)+
qed simp

lemma host_candidates_safe [keeps_intros]: "service_safe (host_candidates r host) (on_ok anything)"
  unfolding host_candidates_def by (rule keeps_intros)+

lemma service_hand_off_safe [keeps_intros]: "service_safe (service_hand_off r host) (on_ok anything)"
  unfolding service_hand_off_def
  by (rule safe_bindI [OF star_perks_safe] room_change.apply_change_safe hand_off_change_ok keeps_intros
      | assumption)+

lemma leave_once_safe [keeps_intros]: "service_safe (leave_once c u) (on_ok anything)"
  unfolding leave_once_def by (rule keeps_intros)+

lemma leave_loop_safe [keeps_intros]: "service_safe (leave_loop n c u) (on_ok anything)"
proof (induction n)
  case (Suc n)
  show ?case
    unfolding leave_loop.simps by (rule Suc.IH keeps_intros eff_any)+
qed simp

lemma leave_safe [keeps_intros]: "service_safe (leave c u) (on_ok anything)"
  unfolding leave_def by (rule keeps_intros)+

lemma fresh_room_wf: "valid_perks p \<Longrightarrow> room_wf (fresh_room u prof pub ttl p now w)"
  unfolding fresh_room_def
  by (rule room_wf_new) (auto simp: valid_perks_def pred_option_def bind_eq_Some_conv clean_title_stable
      split: option.splits)

lemma create_loop_safe:
  "valid_perks p \<Longrightarrow> service_safe (create_loop n u prof pub ttl p now) (on_ok anything)"
proof (induction n)
  case (Suc n)
  have "service_safe (read_world (fresh_room u prof pub ttl p now)) room_wf"
    unfolding read_world_def by (rule safe_inside) (simp add: fresh_room_wf Suc.prems)
  then show ?case
    unfolding create_loop.simps
    by (rule safe_bindI) (rule Suc.IH [OF Suc.prems] store_insert_safe keeps_intros | assumption)+
qed simp

lemma create_safe [keeps_intros]: "service_safe (create u prof pub ttl) (on_ok anything)"
  unfolding create_def
  by (rule safe_bindI [OF star_perks_safe] create_loop_safe keeps_intros | assumption)+

lemma admission_safe [keeps_intros]:
  "service_safe (chat_last_seq r) (on_ok anything)"
  unfolding chat_last_seq_def by (rule keeps_intros)+

lemma admit_safe [keeps_intros]: "service_safe (admit c u prof public_only) (on_ok anything)"
  unfolding admit_def Let_def by (rule keeps_intros)+

lemma joining_safe [keeps_intros]:
  "service_safe (service_join c u prof) (on_ok anything)"
  "service_safe (join_public h u prof) (on_ok anything)"
  unfolding service_join_def join_public_def by (rule keeps_intros)+

lemma changing_safe [keeps_intros]:
  "service_safe (service_set_playback bytes c u upd) (on_ok anything)"
  "service_safe (service_mark_ready c u t) (on_ok anything)"
  "service_safe (service_kick c actor target with_ban) (on_ok anything)"
  "service_safe (service_mute c actor target seconds) (on_ok anything)"
  "service_safe (service_set_moderator c actor target on) (on_ok anything)"
  "service_safe (reconfigure_guarded parse c actor p cooldown g) (on_ok anything)"
  "service_safe (unlist c) (on_ok anything)"
  "service_safe (upgrade_to_star c host) (on_ok anything)"
  "service_safe (service_clear_image_backdrop c media gd) (on_ok anything)"
  "service_safe (claim_chat c u) (on_ok anything)"
  "service_safe (room_by_chat chat) (on_ok anything)"
  "service_safe (service_set_public c u pub) (on_ok anything)"
  unfolding service_set_playback_def service_mark_ready_def service_kick_def service_mute_def
    service_set_moderator_def reconfigure_guarded_def unlist_def upgrade_to_star_def
    service_clear_image_backdrop_def claim_chat_def room_by_chat_def service_set_public_def
  by (rule keeps_intros)+

lemma recheck_room_safe [keeps_intros]: "service_safe (recheck_room r) (on_ok anything)"
  unfolding recheck_room_def Let_def by (rule keeps_intros)+

lemma recheck_all_safe [keeps_intros]: "service_safe (recheck_all rs) anything"
proof (induction rs)
  case (Cons r rs)
  show ?case
    unfolding recheck_all.simps by (rule Cons.IH keeps_intros eff_any)+
qed simp

lemma recheck_pages_safe [keeps_intros]: "service_safe (recheck_pages pages) (on_ok anything)"
proof (induction pages)
  case (Cons page pages)
  show ?case
    unfolding recheck_pages.simps by (rule Cons.IH keeps_intros)+
qed simp

lemma rest_safe [keeps_intros]:
  "service_safe (recheck_perks codes) (on_ok anything)"
  "service_safe (reconfigure parse c actor p) (on_ok anything)"
  "service_safe (live_since since) (on_ok anything)"
  "service_safe (backdrop_cooldown host) (on_ok anything)"
  "service_safe (cool_down_backdrop host until) (on_ok anything)"
  "service_safe (public_rooms parse) (on_ok anything)"
  "service_safe (preview parse c) (on_ok anything)"
  unfolding recheck_perks_def reconfigure_def live_since_def backdrop_cooldown_def
    cool_down_backdrop_def public_rooms_def preview_def Let_def
  by (rule keeps_intros safe_update_inside | simp)+

section \<open>The pool\<close>

inductive service_op :: "(world, unit) prog \<Rightarrow> bool" where
  "service_op (discard (create u prof pub ttl))"
| "service_op (discard (find_room c))"
| "service_op (discard (view c u))"
| "service_op (discard (wait fuel c u since hold follow))"
| "service_op (discard (service_set_playback bytes c u upd))"
| "service_op (discard (service_mark_ready c u t))"
| "service_op (discard (service_join c u prof))"
| "service_op (discard (join_public h u prof))"
| "service_op (discard (leave c u))"
| "service_op (discard (end_room c))"
| "service_op (discard (service_kick c actor target with_ban))"
| "service_op (discard (service_mute c actor target seconds))"
| "service_op (discard (service_set_moderator c actor target on))"
| "service_op (discard (reconfigure parse c actor p))"
| "service_op (discard (reconfigure_guarded parse c actor p cooldown g))"
| "service_op (discard (unlist c))"
| "service_op (discard (upgrade_to_star c host))"
| "service_op (discard (live_since since))"
| "service_op (discard (recheck_perks codes))"
| "service_op (discard (service_clear_image_backdrop c media gd))"
| "service_op (discard (backdrop_cooldown host))"
| "service_op (discard (cool_down_backdrop host until))"
| "service_op (discard (claim_chat c u))"
| "service_op (discard (room_by_chat chat))"
| "service_op (discard (service_set_public c u pub))"
| "service_op (discard (public_rooms parse))"
| "service_op (discard (preview parse c))"

definition empty_store :: "world \<Rightarrow> bool" where
  "empty_store w \<longleftrightarrow> kv_rooms w = (\<lambda>_. None)"

lemma discard_safe: "service_safe p (on_ok anything) \<Longrightarrow> service_safe (discard p) anything"
  unfolding discard_def by (intro bind_any eff_any) simp_all

lemma service_op_safe: "service_op p \<Longrightarrow> service_safe p anything"
  by (induction rule: service_op.induct) (rule discard_safe, rule keeps_intros)+

lemma empty_store_inv: "empty_store w \<Longrightarrow> store_inv w"
  by (simp add: empty_store_def store_inv_def rooms_ok_def)

lemma reachable_inv:
  "reachable empty_store service_op env ps w \<Longrightarrow>
   store_inv w \<and> (\<forall>p \<in> set ps. service_safe p anything)"
  by (erule reachable_safe) (auto intro: empty_store_inv service_op_safe env_inv)

section \<open>Compare-and-set is atomic\<close>

text \<open>
  What the others may do while an update of the room \<open>c\<close> runs: everything the operations of the
  service do, except that a code once free is not drawn again for a new room meanwhile. The
  version alone tells rooms apart, so a room that ended and whose code was drawn again could
  otherwise reach the same version.
\<close>

definition peers :: "room_code \<Rightarrow> world \<Rightarrow> world \<Rightarrow> bool" where
  "peers c w w' \<longleftrightarrow>
     (store_inv w \<longrightarrow> store_inv w') \<and> (env w w' \<or> guar w w') \<and> (row w c = None \<longrightarrow> row w' c = None)"

definition later_row :: "(nat \<times> room option) option \<Rightarrow> (nat \<times> room option) option \<Rightarrow> bool" where
  "later_row x y \<longleftrightarrow>
     y = x \<or> y = None \<or> (\<exists>v b v' b'. x = Some (v, b) \<and> y = Some (v', b') \<and> v < v')"

lemma later_row_trans:
  assumes "later_row x y" "later_row y z"
  shows "later_row x z"
proof (cases z)
  case (Some zz)
  with assms(2) have yz: "y = Some zz \<or> (\<exists>yy. y = Some yy \<and> fst yy < fst zz)"
    by (cases zz) (auto simp: later_row_def)
  then have "x = Some zz \<or> (\<exists>xx. x = Some xx \<and> fst xx < fst zz)"
    using assms(1) by (auto simp: later_row_def)
  with Some show ?thesis
    by (cases zz) (auto simp: later_row_def)
qed (simp add: later_row_def)

lemma env_row: "env w w' \<Longrightarrow> row w' c = row w c \<or> row w' c = None"
  by (auto simp: env_def row_def live_def split: option.splits)

lemma peers_later: "peers c w w' \<Longrightarrow> later_row (row w c) (row w' c)"
  by (auto simp: peers_def guar_def evolves_def later_row_def dest!: env_row [of _ _ c] spec [of _ c])

lemma peers_star:
  assumes "(peers c)\<^sup>*\<^sup>* w w'"
  shows "later_row (row w c) (row w' c)" "store_inv w \<Longrightarrow> store_inv w'"
  using assms
proof induction
  case base
  show "later_row (row w c) (row w c)" by (simp add: later_row_def)
next
  case (step y z)
  then show "later_row (row w c) (row z c)"
    by (blast intro: later_row_trans peers_later)
  show "store_inv z" if "store_inv w"
    using step that by (auto simp: peers_def)
qed

lemma exec_scriptD:
  assumes "exec E (script f) w tr (Inr a) w'"
  shows "\<exists>s. E\<^sup>*\<^sup>* w s \<and> a = fst (f s) \<and> tr = [(s, snd (f s))] \<and> E\<^sup>*\<^sup>* (snd (f s)) w'"
  using exec_commandD [OF assms [unfolded script_def]] .

lemma exec_readD:
  assumes "exec E (read_world f) w tr a w'"
  shows "\<exists>s. E\<^sup>*\<^sup>* w s \<and> a = f s \<and> tr = [(s, s)] \<and> E\<^sup>*\<^sup>* s w'"
  using exec_insideD [OF assms [unfolded read_world_def]] by simp

lemma exec_loadD:
  assumes "exec E (load c) w tr (Inr (Some r)) w'"
  shows "\<exists>s v. E\<^sup>*\<^sup>* w s \<and> row s c = Some (v, Some r) \<and> tr = [(s, s)] \<and> E\<^sup>*\<^sup>* s w'"
proof -
  from exec_awaitD [OF assms [unfolded load_def]] obtain tr1 x w1 tr2 where
    q: "exec E (query (\<lambda>w. row w c)) w tr1 (Inr x) w1" and
    k: "exec E (case x of None \<Rightarrow> ok None | Some (v, None) \<Rightarrow> err (Internal (lit ''room decode''))
          | Some (v, Some r) \<Rightarrow> ok (Some r)) w1 tr2 (Inr (Some r)) w'" and tr: "tr = tr1 @ tr2"
    by blast
  from exec_commandD [OF q [unfolded query_def]] obtain s where
    s: "E\<^sup>*\<^sup>* w s" "x = row s c" "tr1 = [(s, s)]" "E\<^sup>*\<^sup>* s w1"
    by auto
  from k obtain v where "x = Some (v, Some r)" "tr2 = []" "E\<^sup>*\<^sup>* w1 w'"
    by (auto split: option.splits prod.splits dest: exec_RetD)
  with s tr show ?thesis
    by (metis append_Nil2 rtranclp_trans)
qed

lemma exec_await_RetD:
  assumes "exec E (await (Ret x) k) w tr (Inr b) w''"
  shows "\<exists>a w'. x = Inr a \<and> E\<^sup>*\<^sup>* w w' \<and> exec E (k a) w' tr (Inr b) w''"
  using exec_awaitD [OF assms] by (auto dest!: exec_RetD)

text \<open>One attempt: the room that was read, the closure on it, the swap on the world at that instant.\<close>

abbreviation next_of :: "room \<Rightarrow> room \<Rightarrow> room" where
  "next_of r r1 \<equiv> r1\<lparr>version := version r + 1\<rparr>"

abbreviation swapping :: "nat \<Rightarrow> room_code \<Rightarrow> guard option \<Rightarrow> 't change \<Rightarrow> room \<Rightarrow> room \<times> 't \<Rightarrow> (room \<times> 't) op"
  where
  "swapping n c g change r \<equiv> \<lambda>(r1, t).
     await (script (swap_script c g (version r) (next_of r r1))) (\<lambda>swapped.
       if swapped = 1 then ok (next_of r r1, t)
       else if swapped = - 1 then err changed_elsewhere
       else update_loop n c g change)"

lemma update_loop_Suc:
  "update_loop (Suc n) c g change =
     await (load c) (\<lambda>loaded. await (Ret (ok_or room_not_found loaded)) (\<lambda>r.
       await (read_world (\<lambda>w. change w r)) (swapping n c g change r)))"
  unfolding update_loop.simps Let_def ..

lemma exec_swapping:
  assumes "exec E (swapping n c g change r (r1, t1)) w tr (Inr (r', t)) w'"
  shows "\<exists>s tr2. E\<^sup>*\<^sup>* w s \<and>
    (let sw = swap_script c g (version r) (next_of r r1) s
     in tr = (s, snd sw) # tr2 \<and>
        (fst sw = 1 \<and> r' = next_of r r1 \<and> t = t1 \<and> tr2 = [] \<or>
         fst sw = 0 \<and> (\<exists>w2. E\<^sup>*\<^sup>* (snd sw) w2 \<and> exec E (update_loop n c g change) w2 tr2 (Inr (r', t)) w')))"
proof -
  from exec_awaitD [OF assms [unfolded prod.case]] obtain tr5 z w4 tr6 where
    sw: "exec E (script (swap_script c g (version r) (next_of r r1))) w tr5 (Inr z) w4" and
    tr: "tr = tr5 @ tr6" and
    k: "exec E (if z = 1 then ok (next_of r r1, t1) else if z = - 1 then err changed_elsewhere
           else update_loop n c g change) w4 tr6 (Inr (r', t)) w'"
    by blast
  from exec_scriptD [OF sw] obtain s where
    s: "E\<^sup>*\<^sup>* w s" "z = fst (swap_script c g (version r) (next_of r r1) s)"
      "tr5 = [(s, snd (swap_script c g (version r) (next_of r r1) s))]"
      "E\<^sup>*\<^sup>* (snd (swap_script c g (version r) (next_of r r1) s)) w4"
    by blast
  have "z = 1 \<or> z = - 1 \<or> z = 0"
    using s(2) by (auto simp: swap_script_def split: if_splits)
  then have "z = 1 \<and> r' = next_of r r1 \<and> t = t1 \<and> tr6 = [] \<or>
      z = 0 \<and> exec E (update_loop n c g change) w4 tr6 (Inr (r', t)) w'"
    using k by (auto dest: exec_RetD split: if_splits)
  with s tr show ?thesis
    by (intro exI [of _ s] exI [of _ tr6]) (auto simp: Let_def)
qed

lemma exec_attempt:
  assumes "exec E (update_loop (Suc n) c g change) w tr (Inr (r', t)) w'"
  shows "\<exists>s0 s1 w3 v r r1 t1 tr2.
    E\<^sup>*\<^sup>* w s0 \<and> row s0 c = Some (v, Some r) \<and> E\<^sup>*\<^sup>* s0 s1 \<and> change s1 r = Inr (r1, t1) \<and> E\<^sup>*\<^sup>* s1 w3 \<and>
    tr = (s0, s0) # (s1, s1) # tr2 \<and> exec E (swapping n c g change r (r1, t1)) w3 tr2 (Inr (r', t)) w'"
proof -
  from exec_awaitD [OF assms [unfolded update_loop_Suc]] obtain tr1 loaded w1 trk where
    l: "exec E (load c) w tr1 (Inr loaded) w1" and tr: "tr = tr1 @ trk" and
    k: "exec E (await (Ret (ok_or room_not_found loaded)) (\<lambda>r.
          await (read_world (\<lambda>w. change w r)) (swapping n c g change r))) w1 trk (Inr (r', t)) w'"
    by blast
  from exec_await_RetD [OF k] obtain r w2 where r: "loaded = Some r" "E\<^sup>*\<^sup>* w1 w2" and
    k2: "exec E (await (read_world (\<lambda>w. change w r)) (swapping n c g change r)) w2 trk (Inr (r', t)) w'"
    by (auto simp: ok_or_eq_Inr)
  from exec_loadD [OF l [unfolded r(1)]] obtain s0 v where
    s0: "E\<^sup>*\<^sup>* w s0" "row s0 c = Some (v, Some r)" "tr1 = [(s0, s0)]" "E\<^sup>*\<^sup>* s0 w1"
    by blast
  from exec_awaitD [OF k2] obtain tr3 y w3 tr4 where
    ch: "exec E (read_world (\<lambda>w. change w r)) w2 tr3 (Inr y) w3" and trk: "trk = tr3 @ tr4" and
    k3: "exec E (swapping n c g change r y) w3 tr4 (Inr (r', t)) w'"
    by blast
  obtain r1 t1 where y: "y = (r1, t1)" by (cases y)
  from exec_readD [OF ch] obtain s1 where
    s1: "E\<^sup>*\<^sup>* w2 s1" "change s1 r = Inr (r1, t1)" "tr3 = [(s1, s1)]" "E\<^sup>*\<^sup>* s1 w3"
    using y by auto
  have "E\<^sup>*\<^sup>* s0 s1"
    using s0(4) r(2) s1(1) by (blast intro: rtranclp_trans)
  with s0 s1 k3 y tr trk show ?thesis
    by (intro exI [of _ s0] exI [of _ s1] exI [of _ w3] exI [of _ v] exI [of _ r] exI [of _ r1]
        exI [of _ t1] exI [of _ tr4]) simp
qed

lemma update_loop_atomic:
  assumes "exec (peers c) (update_loop n c g change) w tr (Inr (r', t)) w'" and "store_inv w"
  shows "\<exists>tr0 s u r r1. change u r = Inr (r1, t) \<and> r' = next_of r r1 \<and>
    row s c = Some (version r, Some r) \<and> guard_holds g s \<and> (\<forall>(x, y) \<in> set tr0. y = x) \<and>
    tr = tr0 @ [(s, snd (swap_script c g (version r) r' s))]"
  using assms
proof (induction n arbitrary: w tr)
  case 0
  then show ?case by (auto dest: exec_RetD)
next
  case (Suc n)
  from exec_attempt [OF Suc.prems(1)] obtain s0 s1 w3 v r r1 t1 trk where
    p: "(peers c)\<^sup>*\<^sup>* w s0" "row s0 c = Some (v, Some r)" "(peers c)\<^sup>*\<^sup>* s0 s1"
      "change s1 r = Inr (r1, t1)" "(peers c)\<^sup>*\<^sup>* s1 w3" and trk: "tr = (s0, s0) # (s1, s1) # trk" and
    sw: "exec (peers c) (swapping n c g change r (r1, t1)) w3 trk (Inr (r', t)) w'"
    by blast
  from exec_swapping [OF sw] obtain s tr2 where "(peers c)\<^sup>*\<^sup>* w3 s" and
    tr2: "trk = (s, snd (swap_script c g (version r) (next_of r r1) s)) # tr2" and
    fin: "fst (swap_script c g (version r) (next_of r r1) s) = 1 \<and> r' = next_of r r1 \<and> t = t1 \<and> tr2 = [] \<or>
      fst (swap_script c g (version r) (next_of r r1) s) = 0 \<and>
      (\<exists>w2. (peers c)\<^sup>*\<^sup>* (snd (swap_script c g (version r) (next_of r r1) s)) w2 \<and>
        exec (peers c) (update_loop n c g change) w2 tr2 (Inr (r', t)) w')"
    unfolding Let_def by blast
  then have path: "(peers c)\<^sup>*\<^sup>* s0 s"
    using p by (blast intro: rtranclp_trans)
  note tr = trk [unfolded tr2]
  have inv: "store_inv s0" "store_inv s"
    using Suc.prems(2) p(1) path peers_star(2) by blast+
  have v: "version r = v" and later: "later_row (row s0 c) (row s c)"
    using row_ok [OF inv(1) p(2)] peers_star(1) [OF path] by simp_all
  from fin show ?case
  proof (elim disjE conjE exE)
    assume ok1: "fst (swap_script c g (version r) (next_of r r1) s) = 1"
      and fin: "r' = next_of r r1" "t = t1" "tr2 = []"
    from ok1 have "map_option fst (row s c) = Some v" "guard_holds g s"
      by (auto simp: swap_script_def v split: if_splits)
    moreover from this have "row s c = Some (version r, Some r)"
      using later p(2) v by (auto simp: later_row_def)
    ultimately show ?thesis
      using fin p(4) tr
      by (intro exI [of _ "[(s0, s0), (s1, s1)]"] exI [of _ s] exI [of _ s1] exI [of _ r] exI [of _ r1]) auto
  next
    fix w2
    assume "fst (swap_script c g (version r) (next_of r r1) s) = 0"
      and w2: "(peers c)\<^sup>*\<^sup>* (snd (swap_script c g (version r) (next_of r r1) s)) w2"
      and ex: "exec (peers c) (update_loop n c g change) w2 tr2 (Inr (r', t)) w'"
    then have same: "snd (swap_script c g (version r) (next_of r r1) s) = s"
      by (auto simp: swap_script_def split: if_splits)
    from Suc.IH [OF ex] w2 inv(2) obtain tr0 s' u r0 r2 where
      "change u r0 = Inr (r2, t)" "r' = r2\<lparr>version := version r0 + 1\<rparr>"
      "row s' c = Some (version r0, Some r0)" "guard_holds g s'" "\<forall>(x, y) \<in> set tr0. y = x"
      "tr2 = tr0 @ [(s', snd (swap_script c g (version r0) r' s'))]"
      unfolding same using peers_star(2) by blast
    then show ?thesis
      using tr same
      by (intro exI [of _ "(s0, s0) # (s1, s1) # (s, s) # tr0"] exI [of _ s'] exI [of _ u] exI [of _ r0]
          exI [of _ r2]) auto
  qed
qed

end
