(* ===== verification/Room_Rules.thy ===== *)
theory Room_Rules
  imports Room_Pool
begin

text \<open>
  What the operations on a room promise to the people in it: who becomes host, who may remove,
  ban or silence whom and for how long, who gets in, what the host may play and set, and what a
  move to a new code leaves behind.
\<close>

section \<open>A room to look at\<close>

definition sample_member :: "string \<Rightarrow> int \<Rightarrow> member" where
  "sample_member n t =
     \<lparr>user_id = lit n, name = lit n, avatar_url = None, joined_at = t, ready_urn = None, chat_from_seq = 0\<rparr>"

definition sample_room :: room where
  "sample_room =
     (new_room (lit ''ABCDEF'') (sample_member ''1'' 0) True 0 7)
       \<lparr>members := [sample_member ''1'' 0, sample_member ''2'' 30, sample_member ''3'' 20],
        moderators := [lit ''3'']\<rparr>"

lemmas sample_defs =
  sample_room_def sample_member_def new_room_def perks_free_def perks_star_def default_playback_def
  lit_def limits

lemma sample_room_wf: "room_wf sample_room"
  by (simp add: room_wf_def people_wf_def playback_wf_def look_wf_def sample_defs MIN_RATE_def MAX_RATE_def)

section \<open>The next host\<close>

lemma image_dropped: "image_backdrop (drop_image_backdrop r) = None"
  by (simp add: image_backdrop_def drop_image_backdrop_def)

lemma hand_off_parts:
  assumes "hand_off leaving cands r = Some (r', nxt)"
  shows "next_host leaving cands r = Some nxt" "host_id r' = nxt"
    "members r' = filter (\<lambda>m. user_id m \<noteq> leaving) (members r)" "nxt \<notin> set (moderators r')"
    "nxt \<notin> mute_user_id ` set (muted r')" "image_backdrop r' = None"
  using assms
  by (auto simp: hand_off_def Let_def remove_member_def keep_members_only_def image_dropped
      split: option.splits)

text \<open>
  C11. When the host leaves, the room passes to the candidate who has been there longest (ties go to
  the smaller id); the room stays well-formed, the one who left is gone, and the new host is
  neither moderator nor muted; a picture the old host had put up as backdrop is taken down.
\<close>

theorem hand_off_longest_present:
  assumes "room_wf r" "is_host r leaving" "hand_off leaving cands r = Some (r', nxt)"
  shows "room_wf (r'\<lparr>room_perks := perks_of star\<rparr>) \<and> is_host r' nxt \<and> nxt \<in> set cands \<and>
    is_member r' nxt \<and> \<not> is_member r' leaving \<and> \<not> is_moderator r' nxt \<and>
    muted_until r' nxt now = None \<and> image_backdrop r' = None \<and>
    (\<exists>m \<in> set (members r). user_id m = nxt \<and>
       (\<forall>x \<in> set (members r). user_id x \<in> set cands \<and> user_id x \<noteq> leaving \<longrightarrow>
          (joined_at m, user_id m) \<le> (joined_at x, user_id x)))"
proof -
  note parts = hand_off_parts [OF assms(3)]
  let ?C = "filter (\<lambda>m. user_id m \<noteq> leaving \<and> user_id m \<in> set cands) (members r)"
  obtain m where m: "min_by (\<lambda>a b. (joined_at a, user_id a) < (joined_at b, user_id b)) ?C = Some m"
    "user_id m = nxt"
    using parts(1) by (auto simp: next_host_def)
  have in_C: "m \<in> set ?C"
    by (rule min_by_in [OF m(1)])
  have "room_wf (r'\<lparr>room_perks := perks_of star\<rparr>)"
    using assms by (intro room_wf_hand_off [where leaving = leaving]) (auto simp: is_host_def perks_of_def)
  moreover have "find (\<lambda>x. mute_user_id x = nxt \<and> until_ms x > now) (muted r') = None"
    using parts(5) by (auto simp: find_None_iff)
  moreover have "\<forall>x \<in> set (members r). user_id x \<in> set cands \<and> user_id x \<noteq> leaving \<longrightarrow>
      (joined_at m, user_id m) \<le> (joined_at x, user_id x)"
    using min_by_least [OF m(1)] by auto
  moreover have "m \<in> set (members r)" "nxt \<in> set cands" "nxt \<noteq> leaving"
    using in_C m(2) by auto
  ultimately show ?thesis
    using parts m(2) by (intro conjI bexI [of _ m]) (auto simp: room_tests muted_until_def)
qed

theorem hand_off_longest_present_witness:
  "\<exists>r'. hand_off (lit ''1'') [lit ''2'', lit ''3''] sample_room = Some (r', lit ''3'') \<and>
     is_host r' (lit ''3'') \<and> \<not> is_member r' (lit ''1'')"
proof -
  have "\<exists>r'. hand_off (lit ''1'') [lit ''2'', lit ''3''] sample_room = Some (r', lit ''3'')"
    by (simp add: hand_off_def next_host_def Let_def sample_defs)
  then show ?thesis
    using hand_off_longest_present [OF sample_room_wf, of "lit ''1''" "[lit ''2'', lit ''3'']"]
    by (auto simp: is_host_def sample_defs)
qed

section \<open>Getting in\<close>

lemma join_Inr_new:
  "join m r = Inr r' \<Longrightarrow> \<not> is_member r (user_id m) \<Longrightarrow>
   r' = r\<lparr>members := members r @ [m]\<rparr> \<and> length (members r) < capacity r \<and> \<not> is_banned r (user_id m)"
  by (auto simp: join_def is_full_def split: if_splits)

lemma join_member_kept:
  "join m r = Inr r' \<Longrightarrow> is_member r (user_id m) \<Longrightarrow> ids r' = ids r"
  by (auto simp: join_def map_update_first split: if_splits)

lemma drop_absent_members: "\<not> is_member r u \<Longrightarrow> \<not> is_member (drop_absent online recent r) u"
  by (auto simp: is_member_def drop_absent_def)

text \<open>
  C12. Whoever the service lets in is a member afterwards. One who was not a member before is let in
  only if not banned, if the host is still the one whose block list was asked, if a public
  entrance leads to a listed public room, and never beyond the room's capacity.
\<close>

theorem admit_respects_rules:
  assumes "admit_change u public_only checked_host online recent m w r = Inr (r', ())" and "user_id m = u"
  shows "is_member r' u \<and>
    (is_member r u \<or>
     \<not> is_banned r u \<and> host_id r = checked_host \<and> (public_only \<longrightarrow> public r \<and> \<not> unlisted r) \<and>
     length (members r') \<le> capacity r)"
proof (cases "is_member r u")
  case True
  with assms have "ids r' = ids r"
    by (auto simp: admit_change_def and_then_eq_Inr intro: join_member_kept)
  with True show ?thesis by (simp add: is_member_ids)
next
  case False
  define r1 where
    "r1 = (if length (members r) = capacity r then drop_absent online recent r else r)"
  have ok: "refusal r u public_only = None" "host_id r = checked_host" "join m r1 = Inr r'"
    using assms(1) False
    by (auto simp: admit_change_def and_then_eq_Inr r1_def split: option.splits if_splits)
  have "\<not> is_member r1 u"
    using False by (simp add: r1_def drop_absent_members)
  with join_Inr_new [OF ok(3)] assms(2)
  have "r' = r1\<lparr>members := members r1 @ [m]\<rparr>" "length (members r1) < capacity r1"
    by auto
  moreover have "capacity r1 = capacity r"
    by (simp add: r1_def capacity_def drop_absent_def keep_members_only_def)
  ultimately show ?thesis
    using ok(1,2) assms(2) by (auto simp: refusal_def is_member_def split: if_splits)
qed

theorem admit_respects_rules_witness:
  "\<exists>r'. admit_change (lit ''4'') True (lit ''1'') [] 0 (sample_member ''4'' 50) blank sample_room = Inr (r', ()) \<and>
     is_member r' (lit ''4'')"
proof -
  have "\<exists>r'. admit_change (lit ''4'') True (lit ''1'') [] 0 (sample_member ''4'' 50) blank sample_room = Inr (r', ())"
    by (simp add: admit_change_def refusal_def room_tests join_def is_full_def capacity_def sample_defs)
  then show ?thesis
    using admit_respects_rules [of "lit ''4''" True "lit ''1''" "[]" 0 "sample_member ''4'' 50" blank sample_room]
    by (auto simp: sample_member_def)
qed

text \<open>
  A room that holds more people than its capacity (its host lost STAR) refuses every newcomer,
  also when all its members but the host are gone: the absent are dropped only when the count
  equals the capacity.
\<close>

theorem overfull_room_never_drops_absent:
  assumes "capacity r < length (members r)" "\<not> is_member r (user_id m)" "\<not> is_banned r (user_id m)"
  shows "admit_change (user_id m) False (host_id r) online recent m w r = Inl room_full"
  using assms by (simp add: admit_change_def refusal_def join_def is_full_def)

definition overfull_room :: room where
  "overfull_room = sample_room\<lparr>members := map (\<lambda>i. sample_member (replicate i CHR ''x'') 0) [0..<11]\<rparr>"

theorem overfull_room_never_drops_absent_witness:
  "admit_change (lit ''4'') False (lit ''1'') [] 100 (sample_member ''4'' 50) blank overfull_room = Inl room_full"
proof -
  have "capacity overfull_room < length (members overfull_room)"
    "\<not> is_member overfull_room (user_id (sample_member ''4'' 50))"
    "\<not> is_banned overfull_room (user_id (sample_member ''4'' 50))"
    by code_simp+
  moreover have "host_id overfull_room = lit ''1''" "user_id (sample_member ''4'' 50) = lit ''4''"
    by code_simp+
  ultimately show ?thesis
    using overfull_room_never_drops_absent [of overfull_room "sample_member ''4'' 50" "[]" 100 blank] by simp
qed

section \<open>Moderation\<close>

text \<open>
  Exactly the host and the moderators kick, nobody kicks the host or themselves, and a moderator
  does not kick a moderator; a kick removes the person and what they were.
\<close>

theorem kick_exactly:
  "kick actor target r = Inr r' \<longleftrightarrow>
     (is_host r actor \<or> is_moderator r actor \<and> \<not> is_moderator r target) \<and> actor \<noteq> target \<and>
     \<not> is_host r target \<and> is_member r target \<and>
     r' = r\<lparr>members := filter (\<lambda>m. user_id m \<noteq> target) (members r),
            moderators := filter (\<lambda>u. is_member r u \<and> u \<noteq> target) (moderators r)\<rparr>"
proof -
  let ?next = "r\<lparr>members := filter (\<lambda>m. user_id m \<noteq> target) (members r),
      moderators := filter (\<lambda>u. is_member r u \<and> u \<noteq> target) (moderators r)\<rparr>"
  have gone: "length (filter (\<lambda>m. user_id m \<noteq> target) (members r)) \<noteq> length (members r) \<longleftrightarrow> is_member r target"
    by (simp add: length_filter_eq is_member_def)
  have mods: "filter (\<lambda>u. u \<in> set (map user_id (filter (\<lambda>m. user_id m \<noteq> target) (members r)))) (moderators r) =
      filter (\<lambda>u. is_member r u \<and> u \<noteq> target) (moderators r)"
    by (rule filter_cong) (auto simp: is_member_def)
  have "remove_member target r = (?next, is_member r target)"
    unfolding remove_member_def keep_members_only_def Let_def by (simp add: gone mods [simplified])
  moreover have "may_act_on actor target r = Inr () \<longleftrightarrow>
      (is_host r actor \<or> is_moderator r actor \<and> \<not> is_moderator r target) \<and> actor \<noteq> target \<and> \<not> is_host r target"
    by (auto simp: may_act_on_Inr can_moderate_def)
  ultimately show ?thesis
    by (cases "may_act_on actor target r") (auto simp: kick_def)
qed

text \<open>
  A ban takes the person out of the room and keeps them out: only the host bans, the banned
  person is not a member, joining is refused from then on, and the host and every other member
  stay.
\<close>

theorem ban_keeps_out:
  assumes "room_wf r" "ban actor target r = Inr r'" "user_id m = target"
  shows "is_host r actor \<and> is_host r' actor \<and> is_banned r' target \<and> \<not> is_member r' target \<and>
    set (ids r') = set (ids r) - {target} \<and> join m r' = Inl banned_error"
proof -
  note b = ban_Inr [OF assms(2)]
  let ?l = "if target \<in> set (banned r) then banned r else banned r @ [target]"
  have "target \<in> set (trim_front MAX_BANNED ?l)"
  proof (cases "target \<in> set (banned r)")
    case True
    then show ?thesis
      using assms(1) by (simp add: room_wf_def people_wf_def trim_front_id)
  next
    case False
    then show ?thesis
      by (simp add: trim_front_snoc_mem MAX_BANNED_def)
  qed
  then have "is_banned r' target"
    using b by (simp add: is_banned_def)
  moreover have "set (ids r') = set (ids r) - {target}"
    using b remove_member_ids [of target r] by simp
  ultimately show ?thesis
    using b assms(3) by (auto simp: is_host_def is_member_ids join_def)
qed

theorem ban_keeps_out_witness:
  "\<exists>r'. ban (lit ''1'') (lit ''2'') sample_room = Inr r' \<and> join (sample_member ''2'' 90) r' = Inl banned_error"
proof -
  have "\<exists>r'. ban (lit ''1'') (lit ''2'') sample_room = Inr r'"
    by (simp add: ban_def Let_def room_tests sample_defs)
  then show ?thesis
    using ban_keeps_out [OF sample_room_wf, of "lit ''1''" "lit ''2''" _ "sample_member ''2'' 90"]
    by (auto simp: sample_member_def)
qed

text \<open>
  A mute of \<open>seconds\<close> silences its target from now for that long, a day at most, replaces an
  earlier mute of the same person, and a mute of zero seconds lifts it.
\<close>

theorem mute_lasts_exactly:
  assumes "mute_member actor target seconds now r = Inr r'"
  shows "muted_until r' target later =
    (let until = now + int (min seconds (24 * 3600)) * 1000
     in if 0 < seconds \<and> later < until then Some until else None)"
proof -
  let ?kept = "filter (\<lambda>m. until_ms m > now \<and> mute_user_id m \<noteq> target) (muted r)"
  let ?new = "\<lparr>mute_user_id = target, until_ms = now + int (min seconds MAX_MUTE_SECS) * 1000\<rparr>"
  have r': "muted r' = trim_front MAX_MUTED (?kept @ (if 0 < seconds then [?new] else []))"
    using assms by (auto simp: mute_member_def and_then_eq_Inr Let_def split: if_splits)
  have none: "find (\<lambda>m. mute_user_id m = target \<and> until_ms m > later) (drop k ?kept) = None" for k
    by (auto simp: find_None_iff dest!: in_set_dropD)
  have "find (\<lambda>m. mute_user_id m = target \<and> until_ms m > later) (muted r') =
      (if 0 < seconds \<and> later < until_ms ?new then Some ?new else None)"
    using none none [of 0]
    by (auto simp: r' trim_front_def MAX_MUTED_def find_append split: option.splits)
  then show ?thesis
    by (simp add: muted_until_def Let_def MAX_MUTE_SECS_def)
qed

theorem mute_lasts_exactly_witness:
  "\<exists>r'. mute_member (lit ''3'') (lit ''2'') 60 1000 sample_room = Inr r' \<and>
     muted_until r' (lit ''2'') 60999 = Some 61000 \<and> muted_until r' (lit ''2'') 61000 = None"
proof -
  have "\<exists>r'. mute_member (lit ''3'') (lit ''2'') 60 1000 sample_room = Inr r'"
    by (simp add: mute_member_def may_act_on_def Let_def room_tests sample_defs)
  then show ?thesis
    using mute_lasts_exactly [of "lit ''3''" "lit ''2''" 60 1000 sample_room] by (auto simp: Let_def)
qed

section \<open>Playback and settings\<close>

text \<open>
  Only the host changes what plays. Whatever the client sent, the stored position is not
  negative, the rate lies in 0.5 to 2, the crossfade is at most 12 s, the start lies at most 3 s
  ahead, a track that is not idle has a canonical urn, and the snapshot of another track is never
  kept for a new one.
\<close>

theorem playback_sanitised:
  assumes "set_playback bytes u upd now r = Inr r'"
  shows "is_host r u \<and> playback_wf (playback r') \<and> now \<le> pb_at (playback r') \<and>
    pb_at (playback r') \<le> now + 3000 \<and> r'\<lparr>playback := playback r\<rparr> = r \<and>
    (pb_track_urn (playback r') \<noteq> pb_track_urn (playback r) \<longrightarrow>
       pb_track (playback r') = upd_track upd \<and> pb_next_track (playback r') = upd_next_track upd)"
proof -
  have ends: "0 \<le> max 0 (min (upd_lead_ms upd) 3000)" "max 0 (min (upd_lead_ms upd) 3000) \<le> 3000"
    by simp_all
  obtain t where host: "is_host r u" and t: "pb_track_urn (playback r') = t"
    and at: "pb_at (playback r') = now + max 0 (min (upd_lead_ms upd) 3000)"
    and tracks: "t \<noteq> pb_track_urn (playback r) \<Longrightarrow> pb_track (playback r') = upd_track upd"
      "t \<noteq> pb_track_urn (playback r) \<Longrightarrow> pb_next_track (playback r') = upd_next_track upd"
    using assms
    by (auto simp: set_playback_def and_then_eq_Inr Let_def MAX_START_LEAD_MS_def
        case_option_same split: if_splits)
  moreover obtain pb where "r' = r\<lparr>playback := pb\<rparr>"
    using set_playback_frame [OF assms] by blast
  ultimately have "is_host r u \<and> now \<le> pb_at (playback r') \<and> pb_at (playback r') \<le> now + 3000 \<and>
      r'\<lparr>playback := playback r\<rparr> = r \<and>
      (pb_track_urn (playback r') \<noteq> pb_track_urn (playback r) \<longrightarrow>
         pb_track (playback r') = upd_track upd \<and> pb_next_track (playback r') = upd_next_track upd)"
    using ends by simp
  then show ?thesis
    using set_playback_wf [OF assms] by blast
qed

lemma require_ref_urn: "valid_ref ref \<Longrightarrow> require_ref (er_kind ref) (urn ref) = Inr ref"
  using parse_ref_Some [of "er_kind ref" "urn ref" ref] by (simp add: require_ref_def)

definition sample_update :: playback_update where
  "sample_update =
     \<lparr>upd_status = Playing, upd_track = None,
      upd_track_urn = Some (urn \<lparr>er_kind = Track, er_id = 42\<rparr>),
      upd_next_track = None, upd_position_ms = - 5, upd_lead_ms = 9000, upd_rate = Some 7,
      upd_crossfade_sec = Some 99\<rparr>"

theorem playback_sanitised_witness:
  "\<exists>r'. set_playback (\<lambda>_. 0) (lit ''1'') sample_update 1000 sample_room = Inr r' \<and>
     playback_wf (playback r') \<and> pb_at (playback r') \<le> 4000"
proof -
  have "update_urn sample_update = Inr (Some (urn \<lparr>er_kind = Track, er_id = 42\<rparr>))"
    using require_ref_urn [of "\<lparr>er_kind = Track, er_id = 42\<rparr>"]
    by (simp add: update_urn_def sample_update_def valid_ref_def)
  then obtain r' where "set_playback (\<lambda>_. 0) (lit ''1'') sample_update 1000 sample_room = Inr r'"
    by (simp add: set_playback_def Let_def is_host_def check_snapshot_def sample_update_def sample_defs)
  then show ?thesis
    using playback_sanitised [of "\<lambda>_. 0" "lit ''1''" sample_update 1000 sample_room r'] by auto
qed

lemma apply_settings_steps:
  assumes "apply_settings parse actor p cooldown r = Inr r'"
  obtains r1 r2 r3 where
    "is_host r actor" "sets_star_perk p \<Longrightarrow> star_host (room_perks r)"
    "patch_the_cover parse p r = Inr r1" "patch_the_images p r1 = Inr r2"
    "patch_the_backdrop cooldown p r2 = Inr r3" "r' = patch_the_rest p r3"
  using assms by (auto simp: apply_settings_def and_then_eq_Inr split: if_splits)

lemma patch_the_rest_keeps [simp]:
  "room_cover (patch_the_rest p r) = room_cover r" "room_backdrop (patch_the_rest p r) = room_backdrop r"
  "room_images (patch_the_rest p r) = room_images r" "public (patch_the_rest p r) = public r"
  by (auto simp: patch_the_rest_def Let_def split: option.splits)

text \<open>
  Only the host changes the settings; without STAR neither a cover nor a backdrop is set; while
  a cooldown runs no new picture goes up; a public room never lets every member post pictures;
  and people, playback, perks, code and version are left alone.
\<close>

theorem settings_gated:
  assumes "apply_settings parse actor p cooldown r = Inr r'"
  shows "is_host r actor \<and> same_people r r' \<and>
    (\<not> star_host (room_perks r) \<longrightarrow>
       room_cover r' \<in> {room_cover r, None} \<and> room_backdrop r' \<in> {room_backdrop r, None}) \<and>
    (cooldown \<noteq> None \<longrightarrow> image_backdrop r' \<in> {image_backdrop r, None}) \<and>
    (public r \<and> patch_room_images p \<noteq> None \<longrightarrow> room_images r' \<noteq> Some Members)"
proof -
  from assms obtain r1 r2 r3 where
    gate: "is_host r actor" "sets_star_perk p \<Longrightarrow> star_host (room_perks r)" and
    r1: "patch_the_cover parse p r = Inr r1" and r2: "patch_the_images p r1 = Inr r2" and
    r3: "patch_the_backdrop cooldown p r2 = Inr r3" and r': "r' = patch_the_rest p r3"
    by (rule apply_settings_steps) blast
  have c: "room_cover r1 \<in> {room_cover r, None} \<or> sets_star_perk p" "room_backdrop r1 = room_backdrop r"
    "public r1 = public r"
    using r1 by (auto simp: patch_the_cover_def and_then_eq_Inr sets_star_perk_def split: option.splits)
  have i: "room_cover r2 = room_cover r1" "room_backdrop r2 = room_backdrop r1"
    "public r1 \<and> patch_room_images p \<noteq> None \<longrightarrow> room_images r2 \<noteq> Some Members"
    using r2 by (auto simp: patch_the_images_def split: option.splits if_splits)
  have b: "room_cover r3 = room_cover r2" "room_images r3 = room_images r2"
    "room_backdrop r3 \<in> {room_backdrop r2, None} \<or> sets_star_perk p"
    "cooldown \<noteq> None \<longrightarrow> image_backdrop r3 \<in> {image_backdrop r2, None}"
    using r3 by (auto simp: patch_the_backdrop_def set_backdrop_def image_backdrop_def sets_star_perk_def
        split: option.splits if_splits)
  show ?thesis
    using gate c i b apply_settings_people [OF assms] by (auto simp: r' image_backdrop_def)
qed

definition sample_patch :: settings_patch where
  "sample_patch =
     \<lparr>patch_title = Some (lit ''late night''), patch_slow_mode_s = Some 9000, patch_chat_enabled = None,
      patch_links = Some False, patch_cover = Some None, patch_room_images = Some Mods,
      patch_backdrop = Some None\<rparr>"

theorem settings_gated_witness:
  "\<exists>r'. apply_settings (\<lambda>_. None) (lit ''1'') sample_patch (Some 5) sample_room = Inr r' \<and>
     room_cover r' \<in> {room_cover sample_room, None} \<and> room_images r' \<noteq> Some Members"
proof -
  have facts: "\<not> star_host (room_perks sample_room)" "public sample_room"
    "patch_room_images sample_patch \<noteq> None"
    by (simp_all add: sample_patch_def sample_defs)
  obtain r' where "apply_settings (\<lambda>_. None) (lit ''1'') sample_patch (Some 5) sample_room = Inr r'"
    by (simp add: apply_settings_def sets_star_perk_def patch_the_cover_def patch_the_images_def
        patch_the_backdrop_def set_backdrop_def is_host_def sample_patch_def sample_defs)
  with facts show ?thesis
    using settings_gated [of "\<lambda>_. None" "lit ''1''" sample_patch "Some 5" sample_room r'] by auto
qed

end
