(* ===== verification/Room_Runs.thy ===== *)
theory Room_Runs
  imports Room_Rules
begin

text \<open>
  The rooms service as it runs: what an operation does when nothing interferes (\<open>run\<close>), what
  holds in every state concurrent operations can reach, and that a compare-and-set is atomic
  among them.
\<close>

section \<open>Runs without interference\<close>

lemma run_actions [simp]:
  "run (script f) w = (Inr (fst (f w)), snd (f w))"
  "run (query q) w = (Inr (q w), w)"
  "run (execute u) w = (Inr (), u w)"
  "run (read_world q) w = (q w, w)"
  "run now_ms w = (wall w, w)"
  by (simp_all add: script_def query_def execute_def read_world_def now_ms_def)

lemma run_tell [simp]: "run (tell e) w = ((), w\<lparr>event_log := event_log w @ [e]\<rparr>)"
  by (simp add: tell_def)

lemma run_pipe [simp]: "run (pipe us) w = (Inr (), fold (\<lambda>u. u) us w)"
  by (induction us arbitrary: w) simp_all

lemma run_load:
  "run (load c) w =
     (case row w c of None \<Rightarrow> Inr None | Some (v, None) \<Rightarrow> Inl (Internal (lit ''room decode''))
      | Some (v, Some r) \<Rightarrow> Inr (Some r), w)"
  by (simp add: load_def split: option.splits prod.splits)

lemma swap_row:
  assumes "row w c = Some (v, b)" "guard_holds g w"
  shows "fst (swap_script c g v r w) = 1"
    "row (snd (swap_script c g v r w)) d = (if d = c then Some (version r, Some r) else row w d)"
  using assms by (simp_all add: swap_script_def row_def live_set_ex)

lemma update_run:
  assumes "store_inv w"
  shows "case run (update c g change) w of (x, w') \<Rightarrow>
    (case row w c of
       None \<Rightarrow> x = Inl room_not_found \<and> w' = w
     | Some (v, None) \<Rightarrow> x = Inl (Internal (lit ''room decode'')) \<and> w' = w
     | Some (v, Some r) \<Rightarrow>
         (case change w r of
            Inl e \<Rightarrow> x = Inl e \<and> w' = w
          | Inr (r1, t) \<Rightarrow>
              if guard_holds g w
              then x = Inr (r1\<lparr>version := v + 1\<rparr>, t) \<and>
                (\<forall>d. row w' d = (if d = c then Some (v + 1, Some (r1\<lparr>version := v + 1\<rparr>)) else row w d))
              else x = Inl changed_elsewhere \<and> w' = w))"
proof -
  obtain n where n: "CAS_ATTEMPTS = Suc n" by (simp add: CAS_ATTEMPTS_def)
  show ?thesis
  proof (cases "row w c")
    case None
    then show ?thesis by (simp add: update_def n run_load)
  next
    case (Some x)
    then obtain v b where vb: "row w c = Some (v, b)" by (cases x) auto
    show ?thesis
    proof (cases b)
      case None
      with vb show ?thesis by (simp add: update_def n run_load)
    next
      case (Some r)
      with assms vb have v: "version r = v" by (auto dest: row_ok)
      show ?thesis
      proof (cases "change w r")
        case (Inl e)
        with vb Some show ?thesis by (simp add: update_def n run_load)
      next
        case (Inr y)
        then obtain r1 t where "change w r = Inr (r1, t)" by (cases y) auto
        with vb Some v swap_row [OF vb, of g "r1\<lparr>version := Suc v\<rparr>"] show ?thesis
          by (auto simp: update_def n run_load Let_def swap_script_def)
      qed
    qed
  qed
qed

definition sample_world :: world where
  "sample_world = blank\<lparr>kv_rooms := [lit ''ABCDEF'' \<mapsto> ((1, Some sample_room), None)]\<rparr>"

lemma sample_world_inv: "store_inv sample_world"
  using sample_room_wf
  by (auto simp: store_inv_def rooms_ok_def sample_world_def blank_def sample_room_def new_room_def split: if_splits)

lemma sample_world_row: "row sample_world (lit ''ABCDEF'') = Some (1, Some sample_room)"
  by (simp add: row_def live_def sample_world_def blank_def)

lemma sample_update_run:
  "fst (run (update (lit ''ABCDEF'') None unlist_change) sample_world) =
     Inr (sample_room\<lparr>unlisted := True, version := 2\<rparr>, ())"
  using update_run [OF sample_world_inv, where c = "lit ''ABCDEF''" and g = None and change = unlist_change]
  by (auto simp: sample_world_row unlist_change_def guard_holds_def split: prod.splits)

text \<open>
  C29. Alone, an update reads the room and either fails as the store or the closure fails, changing
  nothing, or stores the changed room under the next version and leaves every other room as it
  was; with a lease that is not held it changes nothing.
\<close>

theorem update_alone:
  assumes "store_inv w"
  shows "case run (update c g change) w of (x, w') \<Rightarrow>
    (case row w c of
       None \<Rightarrow> x = Inl room_not_found \<and> w' = w
     | Some (v, None) \<Rightarrow> x = Inl (Internal (lit ''room decode'')) \<and> w' = w
     | Some (v, Some r) \<Rightarrow>
         (case change w r of
            Inl e \<Rightarrow> x = Inl e \<and> w' = w
          | Inr (r1, t) \<Rightarrow>
              if guard_holds g w
              then x = Inr (r1\<lparr>version := v + 1\<rparr>, t) \<and>
                (\<forall>d. row w' d = (if d = c then Some (v + 1, Some (r1\<lparr>version := v + 1\<rparr>)) else row w d))
              else x = Inl changed_elsewhere \<and> w' = w))"
  using assms by (rule update_run)

theorem update_alone_witness:
  "fst (run (update (lit ''ABCDEF'') None unlist_change) sample_world) =
     Inr (sample_room\<lparr>unlisted := True, version := 2\<rparr>, ())"
  using update_alone [OF sample_world_inv, where c = "lit ''ABCDEF''" and g = None and change = unlist_change]
  by (auto simp: sample_world_row unlist_change_def guard_holds_def split: prod.splits)

lemma run_bookkeeping:
  "fst (run (store_touch c u now) w) = Inr ()" "row (snd (run (store_touch c u now) w)) = row w"
  "fst (run (keep_alive r now) w) = Inr ()" "row (snd (run (keep_alive r now) w)) = row w"
  "row (snd (run clear_listing w)) = row w"
  by (auto simp: store_touch_def keep_alive_def store_keep_alive_def clear_listing_def row_def live_expire
      fun_eq_iff split: option.splits)

lemma run_view:
  assumes "row w c = Some (v, Some r)" "is_member r u"
  shows "\<exists>x. fst (run (view c u) w) = Inr x \<and> view_code x = code r \<and> view_host_id x = host_id r \<and>
    view_version x = version r" and "row (snd (run (view c u) w)) = row w"
  using assms
  by (auto simp: view_def room_at_def run_load show_room_def host_seen_def seen_since_def
      store_cooling_until_def for_viewer_def view_cooling_until_def row_def fun_eq_iff)

lemma create_run:
  assumes "live (redis_time w) (kv_host w) u = None"
    and "r = fresh_room u prof pub ttl (fst (run (star_perks u) w)) (wall w) w" and "row w (code r) = None"
  shows "case run (create u prof pub ttl) w of (x, w') \<Rightarrow>
    (\<exists>v. x = Inr v \<and> view_code v = code r \<and> view_host_id v = u \<and> view_version v = 1) \<and>
    (\<forall>c. row w' c = (if c = code r then Some (1, Some r) else row w c)) \<and> ids r = [u] \<and> room_wf r"
proof -
  have p: "valid_perks (fst (run (star_perks u) w))" "snd (run (star_perks u) w) = w"
    by (simp_all add: star_perks_def split: sum.splits)
  obtain n where n: "CODE_ATTEMPTS = Suc n" by (simp add: CODE_ATTEMPTS_def)
  have r: "version r = 1" "host_id r = u" "ids r = [u]" "room_wf r"
    using assms(2) fresh_room_wf [OF p(1)] by (simp_all add: fresh_room_def new_room_def new_member_def)
  define w1 where "w1 = snd (create_script r w)"
  have w1: "fst (create_script r w) = 1" "row w1 c = (if c = code r then Some (1, Some r) else row w c)" for c
    using assms(3) r(1) by (simp_all add: w1_def create_script_def row_def live_set_ex)
  define w2 where "w2 = snd (run (store_touch (code r) u (wall w)) w1)"
  define w3 where "w3 = snd (run (keep_alive r (wall w)) w2)"
  define w4 where "w4 = (if pub then snd (run clear_listing w3) else w3)"
  have w4: "row w4 = row w1"
    by (simp add: w4_def w3_def w2_def run_bookkeeping)
  define q where "q = fst (run (star_perks u) w)"
  have steps: "run (star_perks u) w = (q, w)" "create_script r w = (1, w1)"
    "run (store_touch (code r) u (wall w)) w1 = (Inr (), w2)"
    "run (keep_alive r (wall w)) w2 = (Inr (), w3)" "fresh_room u prof pub ttl q (wall w) w = r"
    "run (if pub then clear_listing else Ret ()) w3 = ((), w4)"
    using p(2) w1(1) run_bookkeeping(1,3) assms(2)
    by (simp_all add: prod_eq_iff q_def w1_def w2_def w3_def w4_def)
  have "run (create u prof pub ttl) w = run (view (code r) u) w4"
    using assms(1) steps by (simp add: create_def hosted_by_def n store_insert_def)
  moreover have "row w4 (code r) = Some (1, Some r)" "is_member r u"
    using w4 w1(2) r(3) by (simp_all add: is_member_ids)
  ultimately show ?thesis
    using run_view [of w4 "code r" 1 r u] w4 w1(2) r by (auto split: prod.splits)
qed

definition sample_profile :: profile where
  "sample_profile = \<lparr>profile_name = [], profile_avatar_url = None\<rparr>"

definition created_world :: world where
  "created_world = snd (run (create (lit ''1'') sample_profile True None) blank)"

definition created_room :: room where
  "created_room = fresh_room (lit ''1'') sample_profile True None perks_free 0 blank"

lemma created_row: "row created_world (code created_room) = Some (1, Some created_room)"
proof -
  have "live (redis_time blank) (kv_host blank) (lit ''1'') = None" "wall blank = 0"
    "row blank (code created_room) = None" "fst (run (star_perks (lit ''1'')) blank) = perks_free"
    by (simp_all add: blank_def live_def row_def star_perks_def)
  then show ?thesis
    using create_run [of blank "lit ''1''" created_room sample_profile True None]
    by (auto simp: created_room_def created_world_def split: prod.splits)
qed

text \<open>
  C30. Someone who hosts no room and draws a free code gets a room of that code: they are its only
  member and its host, the version is 1, the view returned shows it, and no other room changed.
\<close>

theorem create_alone:
  assumes "live (redis_time w) (kv_host w) u = None"
    and "r = fresh_room u prof pub ttl (fst (run (star_perks u) w)) (wall w) w" and "row w (code r) = None"
  shows "case run (create u prof pub ttl) w of (x, w') \<Rightarrow>
    (\<exists>v. x = Inr v \<and> view_code v = code r \<and> view_host_id v = u \<and> view_version v = 1) \<and>
    (\<forall>c. row w' c = (if c = code r then Some (1, Some r) else row w c)) \<and> ids r = [u] \<and> room_wf r"
  using assms by (rule create_run)

theorem create_alone_witness:
  "row created_world (code created_room) = Some (1, Some created_room) \<and> room_wf created_room"
proof -
  have "live (redis_time blank) (kv_host blank) (lit ''1'') = None" "wall blank = 0"
    "row blank (code created_room) = None" "fst (run (star_perks (lit ''1'')) blank) = perks_free"
    by (simp_all add: blank_def live_def row_def star_perks_def)
  then show ?thesis
    using create_alone [of blank "lit ''1''" created_room sample_profile True None]
    by (auto simp: created_room_def created_world_def split: prod.splits)
qed

section \<open>All interleavings\<close>

lemma created_reachable:
  "\<exists>ps. reachable empty_store service_op env ps created_world"
proof -
  let ?p = "discard (create (lit ''1'') sample_profile True None)"
  have "reachable empty_store service_op env [?p] blank"
    by (intro reach_spawn reach_init service_op.intros) (simp add: empty_store_def blank_def)
  then have "reachable empty_store service_op env [Ret (fst (run ?p blank))] (snd (run ?p blank))"
    by (rule reachable_run)
  then show ?thesis
    by (auto simp: discard_def created_world_def split: prod.splits)
qed

text \<open>
  C1. Whatever requests run at the same time, in whatever order their commands reach Redis, with
  commands lost or answers lost, keys expiring and requests dropped half-way: every room that a
  reader can load is well-formed, lies under its own code and carries the version of its hash.
\<close>

theorem stored_rooms_well_formed:
  assumes "reachable empty_store service_op env ps w" and "row w c = Some (v, Some r)"
  shows "room_wf r \<and> code r = c \<and> version r = v"
  using row_ok [OF conjunct1 [OF reachable_inv [OF assms(1)]] assms(2)] .

theorem stored_rooms_well_formed_witness:
  "\<exists>ps. reachable empty_store service_op env ps created_world \<and>
     row created_world (code created_room) = Some (1, Some created_room) \<and> room_wf created_room"
proof -
  obtain ps where ps: "reachable empty_store service_op env ps created_world"
    using created_reachable by blast
  then show ?thesis
    using stored_rooms_well_formed [OF ps created_row] created_row by blast
qed

text \<open>
  C3. No step of any running request takes a room back: it leaves the room as it is, removes it,
  replaces it by its next version, or creates one where there was none.
\<close>

theorem rooms_only_move_forward:
  assumes "reachable empty_store service_op env ps w" and "p \<in> set ps" and "pstep p w p' w'"
  shows "evolves (row w c) (row w' c)"
  using safe_pstep [of store_inv guar p anything w p' w'] reachable_inv [OF assms(1)] assms(2,3)
  by (auto simp: guar_def)

theorem rooms_only_move_forward_witness:
  "\<exists>ps p p' w'. reachable empty_store service_op env ps created_world \<and> p \<in> set ps \<and>
     pstep p created_world p' w' \<and> evolves (row created_world (code created_room)) (row w' (code created_room))"
proof -
  obtain ps where "reachable empty_store service_op env ps created_world"
    using created_reachable by blast
  then have r: "reachable empty_store service_op env (discard (find_room (code created_room)) # ps) created_world"
    by (rule reach_spawn) (rule service_op.intros)
  obtain p' w' where "pstep (discard (find_room (code created_room))) created_world p' w'"
    by (auto simp: discard_def find_room_def load_def query_def command_def await_def intro: pstep.answered)
  with r show ?thesis
    using rooms_only_move_forward [OF r] by (meson list.set_intros(1))
qed



section \<open>Moving a room\<close>

text \<open>
  When a room is moved to a new code, its members find it under the new code only: the old code
  loads nothing, the pointer left behind names the new one, who was seen is carried over, and no
  third room changes. A move onto a code in use, or of a room that changed, does nothing.
\<close>

theorem move_carries_the_room:
  "case move_script c expected r w of (x, w') \<Rightarrow>
     if map_option fst (row w c) = Some expected \<and> row w (code r) = None
     then x = 1 \<and>
       (\<forall>d. row w' d = (if d = c then None else if d = code r then Some (version r, Some r) else row w d)) \<and>
       live (redis_time w') (kv_moved w') c = Some (code r) \<and>
       (case live (redis_time w) (kv_seen w) c of
          Some z \<Rightarrow> live (redis_time w') (kv_seen w') (code r) = Some z \<and>
                     live (redis_time w') (kv_seen w') c = None
        | None \<Rightarrow> kv_seen w' = kv_seen w)
     else x = 0 \<and> w' = w"
proof -
  have "row w c \<noteq> None \<Longrightarrow> row w (code r) = None \<Longrightarrow> c \<noteq> code r"
    by auto
  then show ?thesis
    by (auto simp: move_script_def Let_def row_def live_del live_set_ex MOVED_TTL_SECS_def split: option.splits)
qed

end
