(* ===== verification/Bytes.thy ===== *)
theory Bytes
  imports Rust_Str
begin

text \<open>
  Bytes: the UTF-8 encoding behind \<open>str::as_bytes\<close>, the big-endian form \<open>u64::to_be_bytes\<close> and the
  length-prefixed fields built from them. Each encoding is injective, and a length-prefixed field
  can be cut off the front of what follows it.
\<close>

type_synonym byte = nat

section \<open>UTF-8\<close>

definition utf8_char :: "rchar \<Rightarrow> byte list" where
  "utf8_char c =
     (if c < 0x80 then [c]
      else if c < 0x800 then [0xC0 + c div 64, 0x80 + c mod 64]
      else if c < 0x10000 then [0xE0 + c div 4096, 0x80 + c div 64 mod 64, 0x80 + c mod 64]
      else [0xF0 + c div 262144, 0x80 + c div 4096 mod 64, 0x80 + c div 64 mod 64, 0x80 + c mod 64])"

definition as_bytes :: "str \<Rightarrow> byte list" where
  "as_bytes s = concat (map utf8_char s)"

lemma length_utf8_char: "length (utf8_char c) = utf8_len c"
  by (simp add: utf8_char_def utf8_len_def)

lemma length_as_bytes: "length (as_bytes s) = str_len s"
  by (induction s) (simp_all add: as_bytes_def str_len_def length_utf8_char)

text \<open>A Rust \<open>char\<close> is a Unicode scalar value: at most \<open>0x10FFFF\<close> and no surrogate.\<close>

definition is_char :: "rchar \<Rightarrow> bool" where
  "is_char c \<longleftrightarrow> c < 0xD800 \<or> (0xE000 \<le> c \<and> c < 0x110000)"

definition scalar :: "str \<Rightarrow> bool" where
  "scalar s \<longleftrightarrow> (\<forall>c \<in> set s. is_char c)"

lemma is_char_less: "is_char c \<Longrightarrow> c < 0x110000"
  by (auto simp: is_char_def)

lemma utf8_char_nonempty [simp]: "utf8_char c \<noteq> []"
  by (simp add: utf8_char_def)

text \<open>\<open>str::from_utf8\<close>: the character at the front is computed from its leading byte and accepted if
  it is a scalar value in its shortest form.\<close>

definition utf8_guess :: "byte list \<Rightarrow> rchar \<times> byte list" where
  "utf8_guess bs =
     (case bs of
        b0 # bs1 \<Rightarrow>
          if b0 < 0x80 then (b0, bs1)
          else (case bs1 of
                  b1 # bs2 \<Rightarrow>
                    if b0 < 0xE0 then ((b0 - 0xC0) * 64 + (b1 - 0x80), bs2)
                    else (case bs2 of
                            b2 # bs3 \<Rightarrow>
                              if b0 < 0xF0
                              then (((b0 - 0xE0) * 64 + (b1 - 0x80)) * 64 + (b2 - 0x80), bs3)
                              else (case bs3 of
                                      b3 # bs4 \<Rightarrow>
                                        ((((b0 - 0xF0) * 64 + (b1 - 0x80)) * 64 + (b2 - 0x80)) * 64
                                           + (b3 - 0x80), bs4)
                                    | [] \<Rightarrow> (0, []))
                          | [] \<Rightarrow> (0, []))
                | [] \<Rightarrow> (0, []))
      | [] \<Rightarrow> (0, []))"

definition utf8_head :: "byte list \<Rightarrow> (rchar \<times> byte list) option" where
  "utf8_head bs =
     (let (c, rest) = utf8_guess bs
      in if is_char c \<and> utf8_char c @ rest = bs then Some (c, rest) else None)"

lemma utf8_head_Some: "utf8_head bs = Some (c, rest) \<Longrightarrow> is_char c \<and> bs = utf8_char c @ rest"
  by (auto simp: utf8_head_def split: if_splits prod.splits)

lemma utf8_head_char:
  assumes "is_char c"
  shows "utf8_head (utf8_char c @ rest) = Some (c, rest)"
proof -
  have high: "(c div 4096 * 64 + c div 64 mod 64) * 64 + c mod 64 = c"
    using div_mult_mod_eq [of "c div 64" 64] div_mult_mod_eq [of c 64] by (simp add: div_mult2_eq [symmetric])
  have higher: "((c div 262144 * 64 + c div 4096 mod 64) * 64 + c div 64 mod 64) * 64 + c mod 64 = c"
    using div_mult_mod_eq [of "c div 4096" 64] high by (simp add: div_mult2_eq [symmetric])
  have "c div 64 < 32" if "c < 0x800" using that by (simp add: less_mult_imp_div_less)
  moreover have "c div 4096 < 16" if "c < 0x10000" using that by (simp add: less_mult_imp_div_less)
  ultimately have "utf8_guess (utf8_char c @ rest) = (c, rest)"
    using high higher by (auto simp: utf8_guess_def utf8_char_def split: if_splits)
  then show ?thesis using assms by (simp add: utf8_head_def)
qed

function from_utf8 :: "byte list \<Rightarrow> str option" where
  "from_utf8 bs =
     (if bs = [] then Some []
      else case utf8_head bs of
        None \<Rightarrow> None
      | Some (c, rest) \<Rightarrow> map_option (\<lambda>s. c # s) (from_utf8 rest))"
  by pat_completeness auto
termination
  by (relation "measure length") (auto dest!: utf8_head_Some)

declare from_utf8.simps [simp del]

lemma from_utf8_Some: "from_utf8 bs = Some s \<longleftrightarrow> scalar s \<and> as_bytes s = bs"
proof (induction bs arbitrary: s rule: from_utf8.induct)
  case (1 bs)
  show ?case
  proof (cases s)
    case Nil
    then show ?thesis by (auto simp: from_utf8.simps [of bs] scalar_def as_bytes_def split: option.splits)
  next
    case (Cons c s')
    have "from_utf8 bs = Some s \<longleftrightarrow>
        (\<exists>rest. utf8_head bs = Some (c, rest) \<and> bs \<noteq> [] \<and> from_utf8 rest = Some s')"
      using Cons by (auto simp: from_utf8.simps [of bs] split: option.splits)
    also have "\<dots> \<longleftrightarrow> (\<exists>rest. utf8_head bs = Some (c, rest) \<and> bs \<noteq> [] \<and> scalar s' \<and> as_bytes s' = rest)"
      using "1.IH" by blast
    also have "\<dots> \<longleftrightarrow> is_char c \<and> scalar s' \<and> bs = utf8_char c @ as_bytes s'"
      using utf8_head_Some [of bs c] utf8_head_char [of c "as_bytes s'"] by auto
    finally show ?thesis using Cons by (auto simp: scalar_def as_bytes_def)
  qed
qed

interpretation utf8: canonical_round_trip as_bytes from_utf8 scalar
  by unfold_locales (simp_all add: from_utf8_Some)

lemmas as_bytes_inject = utf8.encode_inject

section \<open>Big-endian integers\<close>

definition be_bytes :: "nat \<Rightarrow> nat \<Rightarrow> byte list" where
  "be_bytes k n = map (\<lambda>i. n div 256 ^ (k - 1 - i) mod 256) [0..<k]"

fun from_be :: "byte list \<Rightarrow> nat" where
  "from_be [] = 0"
| "from_be (b # bs) = b * 256 ^ length bs + from_be bs"

lemma length_be_bytes [simp]: "length (be_bytes k n) = k"
  by (simp add: be_bytes_def)

lemma be_bytes_Suc: "be_bytes (Suc k) n = n div 256 ^ k mod 256 # be_bytes k n"
proof -
  have "[0..<Suc k] = 0 # map Suc [0..<k]"
    by (simp add: map_Suc_upt upt_conv_Cons)
  then show ?thesis by (simp add: be_bytes_def)
qed

lemma from_be_bytes: "from_be (be_bytes k n) = n mod 256 ^ k"
proof (induction k)
  case 0
  show ?case by (simp add: be_bytes_def)
next
  case (Suc k)
  have "n mod 256 ^ Suc k = 256 ^ k * (n div 256 ^ k mod 256) + n mod 256 ^ k"
    by (metis mod_mult2_eq mult.commute power_Suc)
  with Suc show ?case by (simp add: be_bytes_Suc)
qed

interpretation big_endian: round_trip "be_bytes k" "\<lambda>bs. Some (from_be bs)" "\<lambda>n. n < 256 ^ k" for k
  by unfold_locales (simp add: from_be_bytes)

lemmas be_bytes_inject = big_endian.encode_inject

abbreviation u64_be :: "nat \<Rightarrow> byte list" where
  "u64_be \<equiv> be_bytes 8"

section \<open>Length-prefixed fields\<close>

definition field :: "byte list \<Rightarrow> byte list" where
  "field b = u64_be (length b) @ b"

lemma field_cancel:
  assumes "field a @ x = field b @ y" "length a < 2 ^ 64" "length b < 2 ^ 64"
  shows "a = b \<and> x = y"
proof -
  have "u64_be (length a) = u64_be (length b) \<and> a @ x = b @ y"
    using assms(1) by (simp add: field_def)
  then show ?thesis
    using be_bytes_inject [of "length a" 8 "length b"] assms(2,3) by simp
qed

end
