(* ===== verification/Playlist_Edit.thy ===== *)
theory Playlist_Edit
  imports Entity_Ref Bytes "HOL-Library.Sublist"
begin

text \<open>
  Playlist edits: \<open>api/src/modules/playlists/edit.rs\<close> and \<open>journal.rs\<close>. A request is parsed to a
  \<open>track_edit\<close>; \<open>derive\<close> turns it, against the playlist as it is projected now, into operations for
  the journal; \<open>apply_op\<close> is what an operation does to a list of tracks. The properties say what a
  whole edit does to the projection: a replacement leaves exactly the submitted list, an order
  permutes the named tracks among themselves and keeps the others, a move puts the track where it
  was asked.

  The queries of the journal's transaction are an argument (\<open>journal_db\<close>), as are the SHA-256 digest
  and the name-based identifiers of the \<open>uuid\<close> crate.
\<close>

section \<open>Requests and operations\<close>

definition MAX_DERIVED_OPERATIONS :: nat where "MAX_DERIVED_OPERATIONS = 4096"
definition MAX_SUBMITTED_TRACKS :: nat where "MAX_SUBMITTED_TRACKS = 20000"

record move_body =
  mb_track :: str
  mb_to :: int

record edit_body =
  eb_add :: "str option"
  eb_remove :: "str option"
  eb_move :: "move_body option"
  eb_order :: "str list option"
  eb_expected_projection_revision :: "int option"

datatype track_edit =
    EditAdd str
  | EditRemove str
  | EditMove str int
  | EditOrder "str list"
  | EditReplace "str list"

fun submitted_track_ids :: "track_edit \<Rightarrow> str list" where
  "submitted_track_ids (EditAdd t) = [t]"
| "submitted_track_ids (EditOrder ts) = ts"
| "submitted_track_ids (EditReplace ts) = ts"
| "submitted_track_ids (EditRemove t) = []"
| "submitted_track_ids (EditMove t i) = []"

datatype boundary = Front | Back

fun boundary_str :: "boundary \<Rightarrow> str" where
  "boundary_str Front = lit ''front''"
| "boundary_str Back = lit ''back''"

datatype placement = AtBoundary boundary | Anchored "str option" "str option"

datatype operation =
    Add str placement
  | Remove str
  | Move str placement
  | Reorder "str list"

fun op_kind :: "operation \<Rightarrow> str" where
  "op_kind (Add t p) = lit ''add''"
| "op_kind (Remove t) = lit ''remove''"
| "op_kind (Move t p) = lit ''move''"
| "op_kind (Reorder ts) = lit ''reorder''"

fun op_track_id :: "operation \<Rightarrow> str option" where
  "op_track_id (Add t p) = Some t"
| "op_track_id (Remove t) = Some t"
| "op_track_id (Move t p) = Some t"
| "op_track_id (Reorder ts) = None"

fun op_placement :: "operation \<Rightarrow> placement option" where
  "op_placement (Add t p) = Some p"
| "op_placement (Move t p) = Some p"
| "op_placement (Remove t) = None"
| "op_placement (Reorder ts) = None"

definition left_anchor :: "operation \<Rightarrow> str option" where
  "left_anchor op = (case op_placement op of Some (Anchored l r) \<Rightarrow> l | _ \<Rightarrow> None)"

definition right_anchor :: "operation \<Rightarrow> str option" where
  "right_anchor op = (case op_placement op of Some (Anchored l r) \<Rightarrow> r | _ \<Rightarrow> None)"

definition op_boundary :: "operation \<Rightarrow> str option" where
  "op_boundary op = (case op_placement op of Some (AtBoundary b) \<Rightarrow> Some (boundary_str b) | _ \<Rightarrow> None)"

fun ordered_track_ids :: "operation \<Rightarrow> str list option" where
  "ordered_track_ids (Reorder ts) = Some ts"
| "ordered_track_ids op = None"

fun added_track :: "operation \<Rightarrow> str option" where
  "added_track (Add t p) = Some t"
| "added_track op = None"

section \<open>What an operation does to a list of tracks\<close>

definition position_of :: "str list \<Rightarrow> str \<Rightarrow> nat option" where
  "position_of projection track_id = position (\<lambda>member. member = track_id) projection"

definition contains_track :: "str list \<Rightarrow> str \<Rightarrow> bool" where
  "contains_track projection track_id = list_ex (\<lambda>member. member = track_id) projection"

text \<open>Both \<open>and_then(position_of)\<close> chains of \<open>insert_position\<close>: after the left anchor, else before the
  right one.\<close>

definition anchored_position :: "str list \<Rightarrow> str option \<Rightarrow> str option \<Rightarrow> nat option" where
  "anchored_position projection left right =
     (case Option.bind left (position_of projection) of
        Some p \<Rightarrow> Some (p + 1)
      | None \<Rightarrow> Option.bind right (position_of projection))"

fun insert_position :: "str list \<Rightarrow> placement \<Rightarrow> nat" where
  "insert_position projection (AtBoundary Front) = 0"
| "insert_position projection (AtBoundary Back) = length projection"
| "insert_position projection (Anchored left right) =
     (case anchored_position projection left right of Some p \<Rightarrow> p | None \<Rightarrow> length projection)"

text \<open>The slots a reordering writes, and the writes, one after the other.\<close>

definition slots_of :: "str set \<Rightarrow> str list \<Rightarrow> nat list" where
  "slots_of renamed projection =
     map fst (filter (\<lambda>(position, member). member \<in> renamed) (enumerate 0 projection))"

definition write_slots :: "(nat \<times> str) list \<Rightarrow> str list \<Rightarrow> str list" where
  "write_slots = fold (\<lambda>(slot, track_id) projection. projection[slot := track_id])"

fun apply_op :: "operation \<Rightarrow> str list \<Rightarrow> str list" where
  "apply_op (Add track_id placement) projection =
     (if position_of projection track_id = None
      then insert_at (insert_position projection placement) track_id projection
      else projection)"
| "apply_op (Remove track_id) projection =
     (case position_of projection track_id of
        Some from \<Rightarrow> remove_at from projection
      | None \<Rightarrow> projection)"
| "apply_op (Move track_id placement) projection =
     (case position_of projection track_id of
        Some from \<Rightarrow>
          (let removed = remove_at from projection
           in insert_at (insert_position removed placement) track_id removed)
      | None \<Rightarrow> projection)"
| "apply_op (Reorder ordered) projection =
     (let named = filter (\<lambda>track_id. track_id \<in> set projection) ordered
      in write_slots (zip (slots_of (set named) projection) named) projection)"

definition apply_all :: "operation list \<Rightarrow> str list \<Rightarrow> str list" where
  "apply_all = fold apply_op"

section \<open>Deriving the operations of an edit\<close>

definition derive_move :: "str \<Rightarrow> int \<Rightarrow> str list \<Rightarrow> operation list" where
  "derive_move track_id to_index projection =
     (case position_of projection track_id of
        None \<Rightarrow> []
      | Some from \<Rightarrow>
          (let without = remove_at from projection;
               target = nat (min (max to_index 0) (int (length without)))
           in if target = from then []
              else [Move track_id
                     (if target = 0 then AtBoundary Front
                      else if target = length without then AtBoundary Back
                      else Anchored (Some (without ! (target - 1))) (Some (without ! target)))]))"

text \<open>The loop over the submitted tracks; \<open>previous\<close> is its running variable.\<close>

fun derive_adds :: "str set \<Rightarrow> str option \<Rightarrow> str list \<Rightarrow> operation list" where
  "derive_adds members previous [] = []"
| "derive_adds members previous (track_id # submitted) =
     (if track_id \<in> members then []
      else [Add track_id
             (case previous of
                Some left \<Rightarrow> Anchored (Some left) None
              | None \<Rightarrow> AtBoundary Front)])
     @ derive_adds members (Some track_id) submitted"

definition derive_order :: "str list \<Rightarrow> str list \<Rightarrow> bool \<Rightarrow> operation list" where
  "derive_order submitted projection replace =
     (let operations = derive_adds (set projection) None submitted
            @ (if replace
               then map Remove (filter (\<lambda>track_id. track_id \<notin> set submitted) projection)
               else []);
          projected = apply_all operations projection;
          reordered = apply_op (Reorder submitted) projected
      in if reordered \<noteq> projected then operations @ [Reorder submitted] else operations)"

fun derive_ops :: "track_edit \<Rightarrow> str list \<Rightarrow> operation list" where
  "derive_ops (EditAdd track_id) projection =
     (if contains_track projection track_id then [] else [Add track_id (AtBoundary Back)])"
| "derive_ops (EditRemove track_id) projection =
     (if contains_track projection track_id then [Remove track_id] else [])"
| "derive_ops (EditMove track_id to_index) projection = derive_move track_id to_index projection"
| "derive_ops (EditOrder track_ids) projection = derive_order track_ids projection False"
| "derive_ops (EditReplace track_ids) projection = derive_order track_ids projection True"

definition derive :: "track_edit \<Rightarrow> str list \<Rightarrow> operation list app_result" where
  "derive edit projection =
     (let operations = derive_ops edit projection
      in if MAX_DERIVED_OPERATIONS < length operations
         then Inl (BadRequest (lit ''playlist edit derives too many operations''))
         else Inr operations)"

section \<open>Parsing a request\<close>

definition track_id_of :: "str \<Rightarrow> str app_result" where
  "track_id_of value =
     ok_or (BadRequest (lit ''track identifier is not a SoundCloud track'')) (normalize_sc_track_id value)"

text \<open>The loop of \<open>track_ids_of\<close>: \<open>seen\<close> and \<open>track_ids\<close> hold the same identifiers.\<close>

fun collect_ids :: "str list \<Rightarrow> str list \<Rightarrow> str list app_result" where
  "collect_ids track_ids [] = Inr track_ids"
| "collect_ids track_ids (value # values) =
     and_then (track_id_of value) (\<lambda>track_id.
       collect_ids (if track_id \<in> set track_ids then track_ids else track_ids @ [track_id]) values)"

definition track_ids_of :: "str list \<Rightarrow> str list app_result" where
  "track_ids_of values =
     (if MAX_SUBMITTED_TRACKS < length values
      then Inl (BadRequest (lit ''playlist edit carries too many tracks''))
      else collect_ids [] values)"

record membership_request =
  mr_edit :: track_edit
  mr_expected_projection_revision :: "int option"

definition into_request :: "edit_body \<Rightarrow> membership_request app_result" where
  "into_request body =
     and_then
       (case (eb_add body, eb_remove body, eb_move body, eb_order body) of
          (Some track, None, None, None) \<Rightarrow> and_then (track_id_of track) (\<lambda>t. Inr (EditAdd t))
        | (None, Some track, None, None) \<Rightarrow> and_then (track_id_of track) (\<lambda>t. Inr (EditRemove t))
        | (None, None, Some moved, None) \<Rightarrow>
            and_then (track_id_of (mb_track moved)) (\<lambda>t. Inr (EditMove t (mb_to moved)))
        | (None, None, None, Some order) \<Rightarrow> and_then (track_ids_of order) (\<lambda>ts. Inr (EditOrder ts))
        | _ \<Rightarrow> Inl (BadRequest (lit ''provide exactly one of add|remove|move|order'')))
       (\<lambda>edit. Inr \<lparr>mr_edit = edit,
                    mr_expected_projection_revision = eb_expected_projection_revision body\<rparr>)"

section \<open>Positions\<close>

lemma contains_track_iff [simp]: "contains_track projection t \<longleftrightarrow> t \<in> set projection"
  by (auto simp: contains_track_def list_ex_iff)

lemma position_of_None [simp]: "position_of projection t = None \<longleftrightarrow> t \<notin> set projection"
  by (auto simp: position_of_def)

lemma position_of_Some: "position_of projection t = Some i \<Longrightarrow> i < length projection \<and> projection ! i = t"
  by (simp add: position_of_def position_Some)

lemma position_of_nth:
  assumes "distinct projection" "i < length projection"
  shows "position_of projection (projection ! i) = Some i"
proof (cases "position_of projection (projection ! i)")
  case None
  then show ?thesis using assms(2) by simp
next
  case (Some j)
  with position_of_Some [OF Some] assms show ?thesis by (auto simp: nth_eq_iff_index_eq)
qed

lemma remove_at_position:
  assumes "distinct projection" "position_of projection t = Some i"
  shows "remove_at i projection = filter (\<lambda>m. m \<noteq> t) projection"
proof -
  have "i < length projection" "projection ! i = t" using position_of_Some [OF assms(2)] by auto
  then show ?thesis using remove_at_filter [of projection i] assms(1) by simp
qed

lemma apply_remove:
  "distinct projection \<Longrightarrow> apply_op (Remove t) projection = filter (\<lambda>m. m \<noteq> t) projection"
  by (auto simp: remove_at_position split: option.splits intro!: filter_True [symmetric])

section \<open>Reordering\<close>

text \<open>Writing the named tracks into their slots is one pass over the list: a member that is named is
  replaced by the next name.\<close>

fun weave :: "('a \<Rightarrow> bool) \<Rightarrow> 'a list \<Rightarrow> 'a list \<Rightarrow> 'a list" where
  "weave P [] xs = xs"
| "weave P (y # ys) [] = []"
| "weave P (y # ys) (x # xs) = (if P x then y # weave P ys xs else x # weave P (y # ys) xs)"

lemma write_slots_shift:
  "write_slots (map (\<lambda>(i, y). (Suc i, y)) ws) (x # xs) = x # write_slots ws xs"
  by (induction ws arbitrary: xs) (auto simp: write_slots_def)

lemma slots_of_Cons:
  "slots_of R (x # xs) = (if x \<in> R then [0] else []) @ map Suc (slots_of R xs)"
proof -
  have "enumerate 0 (x # xs) = (0, x) # map (\<lambda>(i, m). (Suc i, m)) (enumerate 0 xs)"
    by (simp add: enumerate_eq_zip upt_conv_Cons map_Suc_upt [symmetric] zip_map1 del: upt_Suc)
  then show ?thesis
    by (simp add: slots_of_def filter_map comp_def case_prod_unfold)
qed

lemma zip_map_Suc: "zip (map Suc is) ys = map (\<lambda>(i, y). (Suc i, y)) (zip is ys)"
  by (simp add: zip_map1)

lemma write_slots_weave: "write_slots (zip (slots_of R xs) ys) xs = weave (\<lambda>x. x \<in> R) ys xs"
proof (induction xs arbitrary: ys)
  case Nil
  show ?case by (cases ys) (simp_all add: slots_of_def write_slots_def)
next
  case (Cons x xs)
  show ?case
  proof (cases ys)
    case Nil
    then show ?thesis by (simp add: write_slots_def)
  next
    case (Cons y ys')
    then show ?thesis
      using Cons.IH [of "y # ys'"] Cons.IH [of ys'] write_slots_shift [of "zip (slots_of R xs) ys'" y xs]
        write_slots_shift [of "zip (slots_of R xs) (y # ys')" x xs]
      by (simp add: slots_of_Cons zip_map_Suc) (simp add: write_slots_def)
  qed
qed

lemma length_weave [simp]: "length (weave P ys xs) = length xs"
  by (induction P ys xs rule: weave.induct) simp_all

lemma weave_keeps: "i < length xs \<Longrightarrow> \<not> P (xs ! i) \<Longrightarrow> weave P ys xs ! i = xs ! i"
  by (induction P ys xs arbitrary: i rule: weave.induct) (auto simp: nth_Cons split: nat.splits if_splits)

lemma filter_weave:
  "\<forall>y \<in> set ys. P y \<Longrightarrow> length (filter P xs) = length ys \<Longrightarrow> filter P (weave P ys xs) = ys"
  by (induction P ys xs rule: weave.induct) (auto simp: filter_empty_conv split: if_splits)

lemma filter_not_weave:
  "\<forall>y \<in> set ys. P y \<Longrightarrow> filter (\<lambda>x. \<not> P x) (weave P ys xs) = filter (\<lambda>x. \<not> P x) xs"
  by (induction P ys xs rule: weave.induct) auto

lemma apply_reorder:
  "apply_op (Reorder ordered) xs =
     weave (\<lambda>x. x \<in> set ordered) (filter (\<lambda>t. t \<in> set xs) ordered) xs"
proof -
  have "weave (\<lambda>x. x \<in> set ordered \<inter> set xs) ys zs = weave (\<lambda>x. x \<in> set ordered) ys zs"
    if "set zs \<subseteq> set xs" for ys zs
    using that by (induction "\<lambda>x. x \<in> set ordered" ys zs rule: weave.induct) auto
  moreover have "set (filter (\<lambda>t. t \<in> set xs) ordered) = set ordered \<inter> set xs" by auto
  ultimately show ?thesis by (simp add: write_slots_weave Let_def)
qed

declare apply_op.simps(4) [simp del]

lemma same_members_length:
  assumes "distinct xs" "distinct ordered"
  shows "length (filter (\<lambda>x. x \<in> set ordered) xs) = length (filter (\<lambda>t. t \<in> set xs) ordered)"
proof -
  have "set (filter (\<lambda>x. x \<in> set ordered) xs) = set (filter (\<lambda>t. t \<in> set xs) ordered)" by auto
  then show ?thesis using assms by (metis distinct_card distinct_filter)
qed

lemma reorder_named:
  assumes "distinct xs" "distinct ordered"
  shows "filter (\<lambda>x. x \<in> set ordered) (apply_op (Reorder ordered) xs) = filter (\<lambda>t. t \<in> set xs) ordered"
  unfolding apply_reorder using same_members_length [OF assms] by (intro filter_weave) auto

lemma reorder_others:
  "filter (\<lambda>x. x \<notin> set ordered) (apply_op (Reorder ordered) xs) = filter (\<lambda>x. x \<notin> set ordered) xs"
  unfolding apply_reorder by (intro filter_not_weave) auto

lemma set_by_parts: "set xs = set (filter P xs) \<union> set (filter (\<lambda>x. \<not> P x) xs)"
  by auto

lemma reorder_members:
  assumes "distinct xs" "distinct ordered"
  shows "set (apply_op (Reorder ordered) xs) = set xs" "distinct (apply_op (Reorder ordered) xs)"
proof -
  show s: "set (apply_op (Reorder ordered) xs) = set xs"
    by (subst set_by_parts [where P = "\<lambda>x. x \<in> set ordered"],
        subst (4) set_by_parts [where P = "\<lambda>x. x \<in> set ordered"])
      (use reorder_named [OF assms] reorder_others in auto)
  show "distinct (apply_op (Reorder ordered) xs)"
    using s assms(1) distinct_card [OF assms(1)]
    by (intro card_distinct) (simp add: apply_reorder)
qed

lemma reorder_permutation:
  assumes "distinct xs" "distinct ordered" "set xs = set ordered"
  shows "apply_op (Reorder ordered) xs = ordered"
proof -
  have "filter (\<lambda>x. x \<in> set ordered) (apply_op (Reorder ordered) xs) = ordered"
    using reorder_named [OF assms(1,2)] assms(3) by (simp add: filter_True)
  moreover have "set (apply_op (Reorder ordered) xs) = set ordered"
    using reorder_members [OF assms(1,2)] assms(3) by simp
  ultimately show ?thesis by (simp add: filter_True)
qed

section \<open>Additions and removals\<close>

lemma apply_all_simps [simp]:
  "apply_all [] xs = xs"
  "apply_all (op # ops) xs = apply_all ops (apply_op op xs)"
  "apply_all (ops @ ops') xs = apply_all ops' (apply_all ops xs)"
  by (simp_all add: apply_all_def)

lemma filter_insert_at: "\<not> P x \<Longrightarrow> filter P (insert_at i x xs) = filter P xs"
  by (simp add: insert_at_def filter_append [symmetric])

lemma nth_insert_at: "i \<le> length xs \<Longrightarrow> insert_at i x xs ! i = x"
  by (simp add: insert_at_def nth_append)

lemma apply_add:
  "set (apply_op (Add t p) xs) = insert t (set xs)"
  "distinct (apply_op (Add t p) xs) \<longleftrightarrow> distinct xs"
  "\<not> P t \<Longrightarrow> filter P (apply_op (Add t p) xs) = filter P xs"
  by (auto simp: filter_insert_at)

lemma apply_derived_adds:
  "set (apply_all (derive_adds members previous submitted) xs) =
     set xs \<union> {t \<in> set submitted. t \<notin> members}"
  "distinct (apply_all (derive_adds members previous submitted) xs) \<longleftrightarrow> distinct xs"
  "\<forall>t \<in> set submitted. \<not> P t \<Longrightarrow>
     filter P (apply_all (derive_adds members previous submitted) xs) = filter P xs"
  by (induction members previous submitted arbitrary: xs rule: derive_adds.induct)
     (auto simp: apply_add simp del: apply_op.simps)

lemma apply_removes:
  "distinct xs \<Longrightarrow> apply_all (map Remove ts) xs = filter (\<lambda>x. x \<notin> set ts) xs"
proof (induction ts arbitrary: xs)
  case (Cons t ts)
  then show ?case
    by (simp add: apply_remove del: apply_op.simps)
qed simp

section \<open>What an ordering edit does\<close>

lemma derive_order_applied:
  "apply_all (derive_order submitted projection replace) projection =
     apply_op (Reorder submitted)
       (apply_all (derive_adds (set projection) None submitted
          @ (if replace then map Remove (filter (\<lambda>t. t \<notin> set submitted) projection) else []))
        projection)"
  by (auto simp: derive_order_def Let_def)

lemma derive_order_kept:
  assumes "distinct projection" "distinct submitted"
  shows "filter (\<lambda>t. t \<in> set submitted) (apply_all (derive_order submitted projection False) projection)
           = submitted"
    and "filter (\<lambda>t. t \<notin> set submitted) (apply_all (derive_order submitted projection False) projection)
           = filter (\<lambda>t. t \<notin> set submitted) projection"
proof -
  let ?added = "apply_all (derive_adds (set projection) None submitted) projection"
  have result: "apply_all (derive_order submitted projection False) projection
      = apply_op (Reorder submitted) ?added"
    by (simp add: derive_order_applied)
  have "distinct ?added" and sub: "set submitted \<subseteq> set ?added"
    using assms(1) by (auto simp: apply_derived_adds)
  then show "filter (\<lambda>t. t \<in> set submitted) (apply_all (derive_order submitted projection False) projection)
      = submitted"
    unfolding result using reorder_named [of ?added submitted] assms(2) by (simp add: filter_True subsetD)
  show "filter (\<lambda>t. t \<notin> set submitted) (apply_all (derive_order submitted projection False) projection)
      = filter (\<lambda>t. t \<notin> set submitted) projection"
    unfolding result reorder_others by (intro apply_derived_adds) simp
qed

lemma derive_replace_exact:
  assumes "distinct projection" "distinct submitted"
  shows "apply_all (derive_order submitted projection True) projection = submitted"
proof -
  let ?added = "apply_all (derive_adds (set projection) None submitted) projection"
  let ?kept = "filter (\<lambda>x. x \<notin> set (filter (\<lambda>t. t \<notin> set submitted) projection)) ?added"
  have result: "apply_all (derive_order submitted projection True) projection
      = apply_op (Reorder submitted) ?kept"
    using assms(1) by (simp add: derive_order_applied apply_removes apply_derived_adds)
  have kept: "distinct ?kept" "set ?kept = set submitted"
    using assms(1) by (auto simp: apply_derived_adds)
  show ?thesis unfolding result by (rule reorder_permutation [OF kept(1) assms(2) kept(2)])
qed

section \<open>What a move does\<close>

definition move_target :: "int \<Rightarrow> nat \<Rightarrow> nat" where
  "move_target to_index others = nat (min (max to_index 0) (int others))"

lemma insert_at_end: "insert_at (length xs) x xs = xs @ [x]"
  by (simp add: insert_at_def)

lemma move_exact:
  assumes "distinct projection" "t \<in> set projection"
  defines "without \<equiv> filter (\<lambda>m. m \<noteq> t) projection"
  shows "apply_all (derive_move t to_index projection) projection
           = insert_at (move_target to_index (length without)) t without"
proof -
  obtain i where i: "position_of projection t = Some i"
    using assms(2) by (cases "position_of projection t") auto
  have removed: "remove_at i projection = without"
    using remove_at_position [OF assms(1) i] by (simp add: without_def)
  have at_i: "i < length projection" "projection ! i = t"
    using position_of_Some [OF i] by auto
  have "distinct without" using assms(1) by (simp add: without_def)
  define target where "target = move_target to_index (length without)"
  have bound: "target \<le> length without" by (simp add: target_def move_target_def)
  show ?thesis
  proof (cases "target = i")
    case True
    then have "insert_at target t without = projection"
      using insert_remove_at [OF at_i(1)] removed at_i(2) by simp
    then show ?thesis
      using True i removed by (simp add: derive_move_def Let_def target_def move_target_def)
  next
    case False
    let ?p = "if target = 0 then AtBoundary Front
      else if target = length without then AtBoundary Back
      else Anchored (Some (without ! (target - 1))) (Some (without ! target))"
    have "insert_position without ?p = target"
      using bound position_of_nth [OF \<open>distinct without\<close>, of "target - 1"]
      by (auto simp: anchored_position_def)
    moreover have "derive_move t to_index projection = [Move t ?p]"
      using False i removed by (simp add: derive_move_def Let_def target_def move_target_def)
    ultimately show ?thesis using i removed by (simp add: target_def)
  qed
qed

section \<open>What every editor of track lists promises\<close>

text \<open>One operation keeps the list free of duplicates, takes out only the track it removes and puts
  in only the track it adds; then so does a whole run of operations.\<close>

locale track_editor =
  fixes step :: "str list \<Rightarrow> operation \<Rightarrow> str list" and sane :: "operation \<Rightarrow> bool"
  assumes step_distinct: "sane op \<Longrightarrow> distinct xs \<Longrightarrow> distinct (step xs op)"
    and step_keeps: "sane op \<Longrightarrow> distinct xs \<Longrightarrow> t \<in> set xs \<Longrightarrow> op \<noteq> Remove t \<Longrightarrow> t \<in> set (step xs op)"
    and step_adds: "sane op \<Longrightarrow> distinct xs \<Longrightarrow> t \<in> set (step xs op) \<Longrightarrow> t \<in> set xs \<or> (\<exists>p. op = Add t p)"
begin

lemma edits:
  "\<forall>op \<in> set ops. sane op \<Longrightarrow> distinct xs \<Longrightarrow>
     distinct (foldl step xs ops)
     \<and> set xs - {t. Remove t \<in> set ops} \<subseteq> set (foldl step xs ops)
     \<and> set (foldl step xs ops) \<subseteq> set xs \<union> {t. \<exists>p. Add t p \<in> set ops}"
proof (induction ops arbitrary: xs)
  case (Cons op ops)
  have "distinct (step xs op)" using Cons.prems step_distinct by simp
  with Cons.IH [OF _ this] Cons.prems step_keeps [of op xs] step_adds [of op xs] show ?case
    by fastforce
qed simp

end

lemma apply_move:
  assumes "distinct xs"
  shows "set (apply_op (Move t p) xs) = set xs" "distinct (apply_op (Move t p) xs)"
proof -
  show "set (apply_op (Move t p) xs) = set xs"
    using assms by (auto simp: remove_at_position Let_def split: option.splits dest: position_of_Some)
  show "distinct (apply_op (Move t p) xs)"
    using assms by (auto simp: remove_at_position Let_def split: option.splits)
qed

interpretation api_editor: track_editor "\<lambda>xs op. apply_op op xs"
  "\<lambda>op. \<forall>ordered. op = Reorder ordered \<longrightarrow> distinct ordered"
proof unfold_locales
  fix op and xs :: "str list" and t
  assume sane: "\<forall>ordered. op = Reorder ordered \<longrightarrow> distinct ordered" and "distinct xs"
  then show "distinct (apply_op op xs)"
    by (cases op) (simp_all add: apply_add apply_remove apply_move reorder_members del: apply_op.simps)
  show "t \<in> set xs \<Longrightarrow> op \<noteq> Remove t \<Longrightarrow> t \<in> set (apply_op op xs)"
    using sane \<open>distinct xs\<close>
    by (cases op) (simp_all add: apply_add apply_remove apply_move reorder_members del: apply_op.simps)
  show "t \<in> set (apply_op op xs) \<Longrightarrow> t \<in> set xs \<or> (\<exists>p. op = Add t p)"
    using sane \<open>distinct xs\<close>
    by (cases op) (auto simp: apply_add apply_remove apply_move reorder_members simp del: apply_op.simps)
qed

section \<open>Properties of an edit\<close>

lemma derive_Inr: "derive edit projection = Inr ops \<longleftrightarrow> ops = derive_ops edit projection \<and> length ops \<le> 4096"
  by (auto simp: derive_def Let_def MAX_DERIVED_OPERATIONS_def)

lemma collect_ids_Inr:
  "collect_ids acc vs = Inr ids \<Longrightarrow> distinct acc \<Longrightarrow>
     distinct ids \<and> set ids = set acc \<union> {t. \<exists>v \<in> set vs. track_id_of v = Inr t}"
proof (induction vs arbitrary: acc)
  case (Cons v vs)
  then obtain t where t: "track_id_of v = Inr t"
    and rest: "collect_ids (if t \<in> set acc then acc else acc @ [t]) vs = Inr ids"
    by (auto simp: and_then_eq_Inr)
  show ?case
    using Cons.IH [OF rest] Cons.prems(2) t by (cases "t \<in> set acc") auto
qed simp

lemmas collect_ids_distinct = collect_ids_Inr [where acc = "[]", simplified, THEN conjunct1]

lemma request_order_distinct:
  "into_request body = Inr r \<Longrightarrow> mr_edit r = EditOrder ts \<Longrightarrow> distinct ts"
  by (auto simp: into_request_def and_then_eq_Inr track_ids_of_def collect_ids_distinct
      split: option.splits if_splits)

text \<open>
  C24. A replacement does exactly what was submitted: applying the operations derived for it turns
  the projection into the submitted list, whatever the projection was.
\<close>

theorem replace_exact:
  assumes "derive (EditReplace submitted) projection = Inr ops"
    and "distinct projection" and "distinct submitted"
  shows "apply_all ops projection = submitted"
  using assms derive_replace_exact by (simp add: derive_Inr)

theorem replace_exact_witness:
  "\<exists>ops. derive (EditReplace [[49], [50], [51]]) [[51], [52], [49]] = Inr ops
     \<and> length ops = 3 \<and> apply_all ops [[51], [52], [49]] = [[49], [50], [51]]"
proof -
  let ?ops = "[Add [50] (Anchored (Some [49]) None), Remove [52], Reorder [[49], [50], [51]]]"
  have d: "derive (EditReplace [[49], [50], [51]]) [[51], [52], [49]] = Inr ?ops"
    by code_simp
  have "apply_all ?ops [[51], [52], [49]] = [[49], [50], [51]]"
    by (rule replace_exact [OF d]) simp_all
  with d show ?thesis by (intro exI [of _ ?ops]) simp
qed



text \<open>
  A move puts the track at the requested index of the resulting list, clamped to its ends, and
  keeps the other tracks in their order.
\<close>

theorem move_lands:
  assumes "derive (EditMove t to_index) projection = Inr ops"
    and "distinct projection" and "t \<in> set projection"
  shows "apply_all ops projection ! move_target to_index (length projection - 1) = t
    \<and> filter (\<lambda>m. m \<noteq> t) (apply_all ops projection) = filter (\<lambda>m. m \<noteq> t) projection
    \<and> length (apply_all ops projection) = length projection"
proof -
  let ?without = "filter (\<lambda>m. m \<noteq> t) projection"
  obtain i where i: "position_of projection t = Some i"
    using assms(3) by (cases "position_of projection t") auto
  then have len: "length ?without = length projection - 1" and "0 < length projection"
    using remove_at_position [OF assms(2) i] position_of_Some [OF i] length_remove_at [of i projection]
    by auto
  let ?k = "move_target to_index (length projection - 1)"
  have k: "?k \<le> length ?without" by (simp add: len move_target_def)
  have "apply_all ops projection = insert_at ?k t ?without"
    using move_exact [OF assms(2,3), of to_index] assms(1) len by (simp add: derive_Inr)
  then show ?thesis
    using k len \<open>0 < length projection\<close> by (simp add: filter_insert_at nth_insert_at)
qed

theorem move_lands_witness:
  "\<exists>ops. derive (EditMove [49] 7) [[49], [50], [51]] = Inr ops
     \<and> apply_all ops [[49], [50], [51]] ! move_target 7 (length [[49], [50], [51 :: nat]] - 1) = [49]"
proof -
  have d: "derive (EditMove [49] 7) [[49], [50], [51]] = Inr [Move [49] (AtBoundary Back)]"
    by code_simp
  show ?thesis
    by (intro exI [of _ "[Move [49] (AtBoundary Back)]"] conjI d move_lands [OF d, THEN conjunct1]) simp_all
qed

end
