(* ===== verification/Playlist_Journal.thy ===== *)
theory Playlist_Journal
  imports Playlist_Edit
begin

text \<open>
  \<open>api/src/modules/playlists/journal.rs\<close>, the fingerprint of an operation in \<open>edit.rs\<close> and the
  command record of \<open>utils/write-through/src/kinds/mutations.rs\<close>: an edit request becomes one call
  that appends its operations. What the queries of the transaction answer is the record
  \<open>journal_db\<close>; \<open>crypto\<close> holds the SHA-256 digest with its hexadecimal print and the name-based
  identifier \<open>Uuid::new_v5\<close>.
\<close>

record crypto =
  sha256_hex :: "byte list \<Rightarrow> str"
  new_v5 :: "uuid \<Rightarrow> byte list \<Rightarrow> uuid"

section \<open>Fingerprints\<close>

definition absorb :: "byte list \<Rightarrow> byte list" where
  "absorb value = field value"

fun absorb_optional :: "str option \<Rightarrow> byte list" where
  "absorb_optional (Some value) = 1 # absorb (as_bytes value)"
| "absorb_optional None = [0]"

text \<open>The bytes fed to the digest, in order.\<close>

definition fingerprint_input :: "operation \<Rightarrow> byte list" where
  "fingerprint_input op =
     absorb (as_bytes (op_kind op))
     @ absorb_optional (op_track_id op)
     @ absorb_optional (left_anchor op)
     @ absorb_optional (right_anchor op)
     @ absorb_optional (op_boundary op)
     @ (let ordered = (case ordered_track_ids op of Some ts \<Rightarrow> ts | None \<Rightarrow> [])
        in u64_be (length ordered) @ concat (map (\<lambda>t. absorb (as_bytes t)) ordered))"

section \<open>The command\<close>

record membership_operation =
  mo_operation_id :: uuid
  mo_idempotency_key :: uuid
  mo_fingerprint :: str
  mo_kind :: str
  mo_track_id :: "str option"
  mo_left_anchor_track_id :: "str option"
  mo_right_anchor_track_id :: "str option"
  mo_boundary :: "str option"
  mo_ordered_track_ids :: "str list option"

record membership_op =
  mp_playlist_urn :: str
  mp_actor :: str
  mp_variants :: "str list"
  mp_expected_projection_revision :: "int option"
  mp_operations :: "membership_operation list"
  mp_at :: int

record membership_outcome =
  ms_status :: str
  ms_code :: "str option"
  ms_appended :: int
  ms_projection_revision :: int
  ms_added :: "str list"

record journal_outcome =
  jo_appended :: nat
  jo_projection_revision :: int

definition REVISION_CONFLICT :: str where "REVISION_CONFLICT = lit ''playlist_revision_conflict''"
definition UNKNOWN_TRACK :: str where "UNKNOWN_TRACK = lit ''playlist_track_not_in_catalog''"
definition PLAYLIST_NOT_FOUND :: str where "PLAYLIST_NOT_FOUND = lit ''playlist_not_found''"

definition revision_conflict :: app_error where
  "revision_conflict =
     coded 409 REVISION_CONFLICT (lit ''playlist membership changed since the submitted revision'')"

definition unknown_track :: app_error where
  "unknown_track = coded 404 UNKNOWN_TRACK (lit ''a submitted track is not in the catalog yet'')"

definition refused :: "str \<Rightarrow> app_error option" where
  "refused code =
     (if code = REVISION_CONFLICT then Some revision_conflict
      else if code = UNKNOWN_TRACK then Some unknown_track
      else if code = PLAYLIST_NOT_FOUND then Some (NotFound (lit ''Playlist not found''))
      else None)"

definition operation_key :: "crypto \<Rightarrow> uuid \<Rightarrow> nat \<Rightarrow> uuid" where
  "operation_key cr idempotency_key index = new_v5 cr idempotency_key (u64_be index)"

text \<open>\<open>new_id\<close> is the fresh \<open>Uuid::now_v7()\<close> of the entry.\<close>

definition journal_entry :: "crypto \<Rightarrow> uuid \<Rightarrow> uuid \<Rightarrow> nat \<Rightarrow> operation \<Rightarrow> membership_operation" where
  "journal_entry cr new_id idempotency_key index op =
     \<lparr>mo_operation_id = new_id,
      mo_idempotency_key = operation_key cr idempotency_key index,
      mo_fingerprint = sha256_hex cr (fingerprint_input op),
      mo_kind = op_kind op,
      mo_track_id = op_track_id op,
      mo_left_anchor_track_id = left_anchor op,
      mo_right_anchor_track_id = right_anchor op,
      mo_boundary = op_boundary op,
      mo_ordered_track_ids = ordered_track_ids op\<rparr>"

section \<open>Appending an edit\<close>

text \<open>What the transaction's queries answer for this playlist and actor: \<open>lock_membership_state\<close>,
  \<open>assert_owner\<close>, \<open>replayed_operation\<close>, \<open>load_projection\<close>, \<open>count_catalog_tracks\<close> and the call.\<close>

record journal_db =
  jd_projection_revision :: "int option"
  jd_owns :: bool
  jd_replayed :: "uuid \<Rightarrow> (str \<times> str option) option"
  jd_projection :: "str list"
  jd_count_catalog :: "str list \<Rightarrow> int"
  jd_call :: "membership_op \<Rightarrow> membership_outcome app_result"

definition assert_added_tracks_exist :: "journal_db \<Rightarrow> operation list \<Rightarrow> unit app_result" where
  "assert_added_tracks_exist db operations =
     (let added = List.map_filter added_track operations
      in if added = [] then Inr ()
         else if jd_count_catalog db added \<noteq> int (length added) then Inl unknown_track
         else Inr ())"

text \<open>The listening events \<open>record_playlist_adds\<close> writes: one per added track, keyed by the request.\<close>

definition record_playlist_adds :: "crypto \<Rightarrow> uuid \<Rightarrow> str list \<Rightarrow> (uuid \<times> str) list" where
  "record_playlist_adds cr idempotency_key added =
     map (\<lambda>track_id. (new_v5 cr idempotency_key (as_bytes track_id), track_id)) added"

text \<open>A replacement that names no revision is an order: it removes nothing.\<close>

definition effective_edit :: "membership_request \<Rightarrow> track_edit" where
  "effective_edit request =
     (case mr_edit request of
        EditReplace track_ids \<Rightarrow>
          if mr_expected_projection_revision request = None then EditOrder track_ids
          else EditReplace track_ids
      | edit \<Rightarrow> edit)"

definition append_command ::
    "crypto \<Rightarrow> (nat \<Rightarrow> uuid) \<Rightarrow> int \<Rightarrow> str \<Rightarrow> str \<Rightarrow> str list \<Rightarrow> membership_request \<Rightarrow> uuid
     \<Rightarrow> operation list \<Rightarrow> membership_op" where
  "append_command cr new_ids now playlist actor variants request idempotency_key operations =
     \<lparr>mp_playlist_urn = playlist,
      mp_actor = actor,
      mp_variants = variants,
      mp_expected_projection_revision = mr_expected_projection_revision request,
      mp_operations =
        map (\<lambda>(index, op). journal_entry cr (new_ids index) idempotency_key index op)
          (enumerate 0 operations),
      mp_at = now\<rparr>"

definition answer_outcome ::
    "crypto \<Rightarrow> uuid \<Rightarrow> membership_outcome \<Rightarrow> (journal_outcome \<times> (uuid \<times> str) list) app_result" where
  "answer_outcome cr idempotency_key outcome =
     (if ms_status outcome = lit ''applied'' then
        (if ms_appended outcome < 0
         then Inl (Internal (lit ''playlist journal appended a negative count''))
         else Inr (\<lparr>jo_appended = nat (ms_appended outcome),
                    jo_projection_revision = ms_projection_revision outcome\<rparr>,
                   record_playlist_adds cr idempotency_key (ms_added outcome)))
      else if ms_status outcome = lit ''replayed'' then
        Inr (\<lparr>jo_appended = 0, jo_projection_revision = ms_projection_revision outcome\<rparr>, [])
      else
        Inl (case Option.bind (ms_code outcome) refused of
               Some e \<Rightarrow> e
             | None \<Rightarrow> Internal (lit ''playlist journal refused the edit'')))"

text \<open>\<open>append_in\<close>: its outcome, with the listening events written in the same transaction.\<close>

definition append_in ::
    "crypto \<Rightarrow> (nat \<Rightarrow> uuid) \<Rightarrow> int \<Rightarrow> journal_db \<Rightarrow> str \<Rightarrow> str \<Rightarrow> str list \<Rightarrow> membership_request
     \<Rightarrow> uuid \<Rightarrow> (journal_outcome \<times> (uuid \<times> str) list) app_result" where
  "append_in cr new_ids now db playlist actor variants request idempotency_key =
     (let projection_revision = (case jd_projection_revision db of Some r \<Rightarrow> r | None \<Rightarrow> 0);
          unchanged = Inr (\<lparr>jo_appended = 0, jo_projection_revision = projection_revision\<rparr>, [])
      in if \<not> jd_owns db then Inl (NotFound (lit ''Playlist not found''))
         else case jd_replayed db (operation_key cr idempotency_key 0) of
           Some (outcome, conflict_code) \<Rightarrow>
             (case (if outcome = lit ''conflict'' then Option.bind conflict_code refused else None) of
                Some refusal \<Rightarrow> Inl refusal
              | None \<Rightarrow> unchanged)
         | None \<Rightarrow>
             and_then
               (case mr_expected_projection_revision request of
                  Some expected \<Rightarrow>
                    if expected \<noteq> projection_revision then Inl revision_conflict else Inr ()
                | None \<Rightarrow> Inr ()) (\<lambda>_.
             and_then (derive (effective_edit request) (jd_projection db)) (\<lambda>operations.
               if operations = [] then unchanged
               else
                 and_then (assert_added_tracks_exist db operations) (\<lambda>_.
                 and_then
                   (jd_call db (append_command cr new_ids now playlist actor variants request
                      idempotency_key operations))
                   (answer_outcome cr idempotency_key)))))"

section \<open>A fingerprint input determines its operation\<close>

definition sized_str :: "str \<Rightarrow> bool" where
  "sized_str s \<longleftrightarrow> scalar s \<and> str_len s < 2 ^ 64"

definition sized_op :: "operation \<Rightarrow> bool" where
  "sized_op op \<longleftrightarrow>
     (\<forall>s \<in> set_option (op_track_id op) \<union> set_option (left_anchor op) \<union> set_option (right_anchor op)
        \<union> (case ordered_track_ids op of Some ts \<Rightarrow> set ts | None \<Rightarrow> {}). sized_str s)
     \<and> length (case ordered_track_ids op of Some ts \<Rightarrow> ts | None \<Rightarrow> []) < 2 ^ 64"

lemma absorb_str_cancel:
  "absorb (as_bytes s) @ x = absorb (as_bytes t) @ y \<Longrightarrow> sized_str s \<Longrightarrow> sized_str t \<Longrightarrow> s = t \<and> x = y"
  using field_cancel [of "as_bytes s" x "as_bytes t" y]
  by (simp add: absorb_def sized_str_def length_as_bytes as_bytes_inject)

lemma absorb_optional_cancel:
  "absorb_optional a @ x = absorb_optional b @ y \<Longrightarrow>
     \<forall>s \<in> set_option a. sized_str s \<Longrightarrow> \<forall>s \<in> set_option b. sized_str s \<Longrightarrow> a = b \<and> x = y"
  by (cases a; cases b) (auto dest: absorb_str_cancel)

lemma absorb_all_cancel:
  "concat (map (\<lambda>t. absorb (as_bytes t)) ts) = concat (map (\<lambda>t. absorb (as_bytes t)) us) \<Longrightarrow>
     length ts = length us \<Longrightarrow> \<forall>s \<in> set ts \<union> set us. sized_str s \<Longrightarrow> ts = us"
proof (induction ts arbitrary: us)
  case (Cons t ts)
  then obtain u us' where "us = u # us'" by (cases us) auto
  with Cons absorb_str_cancel [of t _ u] show ?case by auto
qed simp

lemma sized_boundary: "sized_str (boundary_str b)"
  by (cases b) (simp_all add: sized_str_def scalar_def is_char_def lit_def str_len_def utf8_len_def)

lemma sized_lit: "sized_str (op_kind op)" "\<forall>s \<in> set_option (op_boundary op). sized_str s"
  by (cases op; simp add: sized_str_def scalar_def is_char_def lit_def str_len_def utf8_len_def)
     (auto simp: op_boundary_def sized_boundary split: option.splits placement.splits)

lemma operation_determined:
  assumes "op_kind p = op_kind q" "op_track_id p = op_track_id q" "left_anchor p = left_anchor q"
    "right_anchor p = right_anchor q" "op_boundary p = op_boundary q"
    "(case ordered_track_ids p of Some ts \<Rightarrow> ts | None \<Rightarrow> []) = (case ordered_track_ids q of Some ts \<Rightarrow> ts | None \<Rightarrow> [])"
  shows "p = q"
proof -
  have "boundary_str b = boundary_str b' \<longleftrightarrow> b = b'" for b b'
    by (cases b; cases b') (simp_all add: lit_def)
  then have "op_placement p \<noteq> None \<and> op_placement q \<noteq> None \<longrightarrow> op_placement p = op_placement q"
    using assms(3-5)
    by (auto simp: left_anchor_def right_anchor_def op_boundary_def split: placement.splits)
  then show ?thesis
    using assms(1,2,6) by (cases p; cases q) (simp_all add: lit_def)
qed

lemma fingerprint_input_inject:
  assumes "fingerprint_input p = fingerprint_input q" "sized_op p" "sized_op q"
  shows "p = q"
proof -
  let ?os = "\<lambda>op. case ordered_track_ids op of Some ts \<Rightarrow> ts | None \<Rightarrow> []"
  let ?tail = "\<lambda>op. u64_be (length (?os op)) @ concat (map (\<lambda>t. absorb (as_bytes t)) (?os op))"
  let ?b = "\<lambda>op. absorb_optional (op_boundary op) @ ?tail op"
  let ?r = "\<lambda>op. absorb_optional (right_anchor op) @ ?b op"
  let ?l = "\<lambda>op. absorb_optional (left_anchor op) @ ?r op"
  let ?t = "\<lambda>op. absorb_optional (op_track_id op) @ ?l op"
  have sizes: "\<forall>s \<in> set_option (op_track_id o'). sized_str s" "\<forall>s \<in> set_option (left_anchor o'). sized_str s"
    "\<forall>s \<in> set_option (right_anchor o'). sized_str s" "\<forall>s \<in> set (?os o'). sized_str s"
    "length (?os o') < 2 ^ 64" if "sized_op o'" for o'
    using that by (auto simp: sized_op_def split: option.splits)
  note p = sizes [OF assms(2)] and q = sizes [OF assms(3)]
  have k: "op_kind p = op_kind q \<and> ?t p = ?t q"
    using assms(1) by (intro absorb_str_cancel sized_lit) (simp add: fingerprint_input_def Let_def)
  have t: "op_track_id p = op_track_id q \<and> ?l p = ?l q"
    using k p(1) q(1) by (intro absorb_optional_cancel) simp_all
  have l: "left_anchor p = left_anchor q \<and> ?r p = ?r q"
    using t p(2) q(2) by (intro absorb_optional_cancel) simp_all
  have r: "right_anchor p = right_anchor q \<and> ?b p = ?b q"
    using l p(3) q(3) by (intro absorb_optional_cancel) simp_all
  have b: "op_boundary p = op_boundary q \<and> ?tail p = ?tail q"
    using r sized_lit(2) by (intro absorb_optional_cancel) simp_all
  have len: "length (?os p) = length (?os q)"
    using b be_bytes_inject [of "length (?os p)" 8 "length (?os q)"] p(5) q(5) by simp
  have "?os p = ?os q"
    using b len p(4) q(4) by (intro absorb_all_cancel) auto
  with k t l r b show ?thesis by (intro operation_determined) simp_all
qed

section \<open>Properties of the journal\<close>

text \<open>
  C38. Two operations whose strings fit in memory feed the digest the same bytes only if they are the
  same operation: the fields of a fingerprint cannot run into each other.
\<close>

theorem fingerprint_separates:
  assumes "sized_op p" and "sized_op q"
  shows "fingerprint_input p = fingerprint_input q \<longleftrightarrow> p = q"
  using assms fingerprint_input_inject by blast

theorem fingerprint_separates_witness:
  "fingerprint_input (Add [49] (Anchored (Some [50]) None))
     \<noteq> fingerprint_input (Add [49] (Anchored None (Some [50])))"
proof -
  have "sized_op (Add [49] (Anchored (Some [50]) None))" "sized_op (Add [49] (Anchored None (Some [50])))"
    by (simp_all add: sized_op_def left_anchor_def right_anchor_def sized_str_def scalar_def is_char_def str_len_def utf8_len_def)
  from fingerprint_separates [OF this] show ?thesis by simp
qed

lemma derive_adds_kinds: "op \<in> set (derive_adds members previous submitted) \<Longrightarrow> op_kind op = lit ''add''"
  by (induction members previous submitted rule: derive_adds.induct) (auto split: if_splits)

lemma order_removes_nothing: "op \<in> set (derive_order submitted projection False) \<Longrightarrow> op_kind op \<noteq> lit ''remove''"
  by (auto simp: derive_order_def Let_def lit_def dest!: derive_adds_kinds split: if_splits)

text \<open>
  C35. What guards an append: one that succeeds is the owner's. A request seen before sends nothing.
  One not seen before names the current revision or none, and sends only operations that were derived
  from the projection and whose added tracks are in the catalog; a replacement that names no revision
  removes nothing.
\<close>

theorem append_guarded:
  assumes "append_in cr new_ids now db playlist actor variants request key = Inr result"
  shows "jd_owns db
    \<and> (if jd_replayed db (operation_key cr key 0) \<noteq> None
       then jo_appended (fst result) = 0 \<and> snd result = []
       else mr_expected_projection_revision request
              \<in> {None, Some (case jd_projection_revision db of Some r \<Rightarrow> r | None \<Rightarrow> 0)}
         \<and> (\<exists>ops. derive (effective_edit request) (jd_projection db) = Inr ops
              \<and> (if ops = [] then jo_appended (fst result) = 0 \<and> snd result = []
                 else assert_added_tracks_exist db ops = Inr ()
                   \<and> (\<exists>outcome. jd_call db (append_command cr new_ids now playlist actor variants request key ops)
                          = Inr outcome \<and> answer_outcome cr key outcome = Inr result))
              \<and> (if mr_expected_projection_revision request = None
                    \<and> mr_edit request \<in> range EditReplace
                 then \<forall>op. op \<in> set ops \<longrightarrow> op_kind op \<noteq> lit ''remove'' else True)))"
proof (cases "jd_replayed db (operation_key cr key 0)")
  case (Some r)
  with assms show ?thesis
    by (auto simp: append_in_def Let_def split: if_splits option.splits prod.splits)
next
  case None
  let ?rev = "case jd_projection_revision db of Some r \<Rightarrow> r | None \<Rightarrow> 0"
  from assms None have "jd_owns db" by (auto simp: append_in_def Let_def split: if_splits)
  moreover from assms None obtain ops where
    "derive (effective_edit request) (jd_projection db) = Inr ops"
    "mr_expected_projection_revision request \<in> {None, Some ?rev}"
    "if ops = [] then jo_appended (fst result) = 0 \<and> snd result = []
     else assert_added_tracks_exist db ops = Inr ()
       \<and> (\<exists>outcome. jd_call db (append_command cr new_ids now playlist actor variants request key ops)
              = Inr outcome \<and> answer_outcome cr key outcome = Inr result)"
    by (auto simp: append_in_def Let_def and_then_eq_Inr split: if_splits option.splits)
  moreover have "\<forall>op. op \<in> set ops \<longrightarrow> op_kind op \<noteq> lit ''remove''"
    if "derive (effective_edit request) (jd_projection db) = Inr ops"
      "mr_expected_projection_revision request = None" "mr_edit request \<in> range EditReplace" for ops
    using that order_removes_nothing by (auto simp: effective_edit_def derive_Inr)
  ultimately show ?thesis using None by auto
qed

definition sample_crypto :: crypto where
  "sample_crypto = \<lparr>sha256_hex = id, new_v5 = (\<lambda>k b. k + length b)\<rparr>"

definition sample_db :: journal_db where
  "sample_db =
     \<lparr>jd_projection_revision = Some 4, jd_owns = True, jd_replayed = (\<lambda>_. None),
      jd_projection = [lit ''1''], jd_count_catalog = (\<lambda>ts. int (length ts)),
      jd_call = (\<lambda>c. Inr \<lparr>ms_status = lit ''applied'', ms_code = None,
                          ms_appended = int (length (mp_operations c)), ms_projection_revision = 5,
                          ms_added = [lit ''2'']\<rparr>)\<rparr>"

definition sample_request :: membership_request where
  "sample_request = \<lparr>mr_edit = EditReplace [lit ''2''], mr_expected_projection_revision = None\<rparr>"

theorem append_guarded_witness:
  "\<exists>result. append_in sample_crypto id 0 sample_db [] [] [] sample_request 7 = Inr result
     \<and> jo_appended (fst result) = 1
     \<and> (\<exists>ops. derive (effective_edit sample_request) (jd_projection sample_db) = Inr ops
          \<and> (\<forall>op. op \<in> set ops \<longrightarrow> op_kind op \<noteq> lit ''remove''))"
proof -
  let ?r = "(\<lparr>jo_appended = 1, jo_projection_revision = 5\<rparr>, [(8, lit ''2'')])"
  have d: "derive (effective_edit sample_request) (jd_projection sample_db)
      = Inr [Add (lit ''2'') (AtBoundary Front)]"
    by code_simp
  have a: "append_in sample_crypto id 0 sample_db [] [] [] sample_request 7 = Inr ?r"
    using d by (simp add: append_in_def sample_db_def sample_request_def assert_added_tracks_exist_def
      append_command_def answer_outcome_def record_playlist_adds_def sample_crypto_def
      as_bytes_def utf8_char_def lit_def map_filter_simps)
  have "mr_edit sample_request \<in> range EditReplace" "mr_expected_projection_revision sample_request = None"
    "jd_replayed sample_db (operation_key sample_crypto 7 0) = None"
    by (simp_all add: sample_request_def sample_db_def)
  with append_guarded [OF a]
  have "\<exists>ops. derive (effective_edit sample_request) (jd_projection sample_db) = Inr ops
          \<and> (\<forall>op. op \<in> set ops \<longrightarrow> op_kind op \<noteq> lit ''remove'')" by auto
  with a show ?thesis by (intro exI [of _ ?r]) simp
qed

end
