(* ===== verification/Playlist_Reduce.thy ===== *)
theory Playlist_Reduce
  imports Playlist_Journal
begin

text \<open>
  The playlist observer of the jobs service: \<open>jobs/src/handlers/playlist_observe/reduce.rs\<close> replays
  the pending operations of the journal onto a freshly observed remote playlist,
  \<open>classification.rs\<close> compares two memberships, \<open>fingerprint.rs\<close> digests one, and \<open>repository.rs\<close>
  reads the journal's rows and decides what the observation does to the stored state.

  The enums \<open>Boundary\<close>, \<open>Placement\<close> and \<open>Intent\<close> of \<open>reduce.rs\<close> have the constructors of the API's own
  \<open>Boundary\<close>, \<open>Placement\<close> and \<open>Operation\<close>, and are the same types here.
\<close>

section \<open>Operations and their resolutions\<close>

type_synonym intent = operation

definition MOVE_TARGET_MISSING :: str where "MOVE_TARGET_MISSING = lit ''move_target_missing''"
definition MOVE_ANCHOR_MISSING :: str where "MOVE_ANCHOR_MISSING = lit ''move_anchor_missing''"
definition MOVE_ANCHOR_INVERTED :: str where "MOVE_ANCHOR_INVERTED = lit ''move_anchor_inverted''"
definition REORDER_TARGETS_MISSING :: str where "REORDER_TARGETS_MISSING = lit ''reorder_targets_missing''"

record pending_operation =
  po_operation_id :: uuid
  po_sequence :: int
  po_intent :: intent

datatype resolution = ResPending | ResCommitted | ResConflict str

definition is_terminal :: "resolution \<Rightarrow> bool" where
  "is_terminal r \<longleftrightarrow> r \<noteq> ResPending"

fun resolution_outcome :: "resolution \<Rightarrow> str" where
  "resolution_outcome ResPending = lit ''pending''"
| "resolution_outcome ResCommitted = lit ''committed''"
| "resolution_outcome (ResConflict _) = lit ''conflict''"

fun conflict_code :: "resolution \<Rightarrow> str option" where
  "conflict_code (ResConflict code) = Some code"
| "conflict_code _ = None"

record resolved_operation =
  rs_operation_id :: uuid
  rs_sequence :: int
  rs_resolution :: resolution

datatype reduction_outcome = Converged | Rebased | Conflicted str

record reduction =
  rd_candidate :: "str list"
  rd_operations :: "resolved_operation list"
  rd_outcome :: reduction_outcome
  rd_committed_through_sequence :: int
  rd_anchors_lost :: bool

section \<open>Replaying one operation\<close>

text \<open>\<open>position_of\<close> and \<open>contains\<close> are those of \<open>edit.rs\<close>, word for word.\<close>

fun anchors_are_inverted :: "str list \<Rightarrow> placement \<Rightarrow> bool" where
  "anchors_are_inverted xs (Anchored (Some left) (Some right)) =
     (case (position_of xs left, position_of xs right) of
        (Some l, Some r) \<Rightarrow> r < l
      | _ \<Rightarrow> False)"
| "anchors_are_inverted xs _ = False"

fun resolve_placement :: "str list \<Rightarrow> placement \<Rightarrow> nat option" where
  "resolve_placement xs (AtBoundary Front) = Some 0"
| "resolve_placement xs (AtBoundary Back) = Some (length xs)"
| "resolve_placement xs (Anchored left right) =
     (case map_option (\<lambda>p. p + 1) (Option.bind left (position_of xs)) of
        Some p \<Rightarrow> Some p
      | None \<Rightarrow> Option.bind right (position_of xs))"

fun fallback_position :: "str list \<Rightarrow> placement \<Rightarrow> nat" where
  "fallback_position xs (Anchored (Some _) _) = length xs"
| "fallback_position xs (Anchored None _) = 0"
| "fallback_position xs (AtBoundary Front) = 0"
| "fallback_position xs (AtBoundary Back) = length xs"

text \<open>The loop of \<open>present_in_order\<close>; what is \<open>taken\<close> is what was named so far.\<close>

fun take_present :: "str list \<Rightarrow> str list \<Rightarrow> str list \<Rightarrow> str list" where
  "take_present xs named [] = named"
| "take_present xs named (t # ts) =
     take_present xs (if t \<in> set xs \<and> t \<notin> set named then named @ [t] else named) ts"

definition present_in_order :: "str list \<Rightarrow> str list \<Rightarrow> str list" where
  "present_in_order xs ordered = take_present xs [] ordered"

text \<open>\<open>apply\<close> edits the list in place: the list it leaves, and its result (\<open>Inr\<close> whether anchors were
  lost, \<open>Inl\<close> the conflict code). A move whose anchor is gone once the track is taken out returns
  with the track taken out.\<close>

fun apply_intent :: "str list \<Rightarrow> intent \<Rightarrow> str list \<times> (str + bool)" where
  "apply_intent xs (Add track_id placement) =
     (if contains_track xs track_id then (xs, Inr False)
      else
        (let (slot, anchors_lost) =
           (case resolve_placement xs placement of
              Some slot \<Rightarrow> (slot, False)
            | None \<Rightarrow> (fallback_position xs placement, True))
         in (insert_at slot track_id xs, Inr anchors_lost)))"
| "apply_intent xs (Remove track_id) =
     (case position_of xs track_id of
        Some from \<Rightarrow> (remove_at from xs, Inr False)
      | None \<Rightarrow> (xs, Inr False))"
| "apply_intent xs (Move track_id placement) =
     (case position_of xs track_id of
        None \<Rightarrow> (xs, Inl MOVE_TARGET_MISSING)
      | Some from \<Rightarrow>
          if anchors_are_inverted xs placement then (xs, Inl MOVE_ANCHOR_INVERTED)
          else if resolve_placement xs placement = None then (xs, Inl MOVE_ANCHOR_MISSING)
          else
            (let moved = xs ! from; rest = remove_at from xs
             in case resolve_placement rest placement of
                  None \<Rightarrow> (rest, Inl MOVE_ANCHOR_MISSING)
                | Some slot \<Rightarrow> (insert_at slot moved rest, Inr False)))"
| "apply_intent xs (Reorder ordered) =
     (let named = present_in_order xs ordered
      in if named = [] then
           (if ordered = [] then (xs, Inr False) else (xs, Inl REORDER_TARGETS_MISSING))
         else (write_slots (zip (slots_of (set named) xs) named) xs, Inr False))"

section \<open>Replaying the journal\<close>

text \<open>The loop over the operations: the candidate, the resolutions so far, and whether an anchor was
  lost.\<close>

fun replay :: "str list \<Rightarrow> bool \<Rightarrow> pending_operation list \<Rightarrow> str list \<times> resolution list \<times> bool" where
  "replay candidate anchors_lost [] = (candidate, [], anchors_lost)"
| "replay candidate anchors_lost (operation # operations) =
     (let (candidate', result) = apply_intent candidate (po_intent operation);
          (resolution, lost) =
            (case result of
               Inr lost \<Rightarrow> (ResPending, anchors_lost \<or> lost)
             | Inl code \<Rightarrow> (ResConflict code, anchors_lost));
          (final, resolutions, lost') = replay candidate' lost operations
      in (final, resolution # resolutions, lost'))"

fun committed_prefix :: "resolved_operation list \<Rightarrow> int \<Rightarrow> int" where
  "committed_prefix [] watermark = watermark"
| "committed_prefix (operation # operations) watermark =
     (if \<not> is_terminal (rs_resolution operation) then watermark
      else committed_prefix operations (max watermark (rs_sequence operation)))"

definition reduce :: "str list \<Rightarrow> pending_operation list \<Rightarrow> int \<Rightarrow> reduction" where
  "reduce remote operations committed_through =
     (let (candidate, replayed, anchors_lost) = replay remote False operations;
          converged = (candidate = remote);
          resolutions =
            (if converged then map (\<lambda>r. if r = ResPending then ResCommitted else r) replayed
             else replayed);
          conflict = List.find (\<lambda>r. conflict_code r \<noteq> None) resolutions;
          outcome =
            (case Option.bind conflict conflict_code of
               Some code \<Rightarrow> Conflicted code
             | None \<Rightarrow> if converged then Converged else Rebased);
          resolved =
            map (\<lambda>(operation, resolution).
                   \<lparr>rs_operation_id = po_operation_id operation,
                    rs_sequence = po_sequence operation,
                    rs_resolution = resolution\<rparr>)
              (zip operations resolutions)
      in \<lparr>rd_candidate = candidate, rd_operations = resolved, rd_outcome = outcome,
          rd_committed_through_sequence = committed_prefix resolved committed_through,
          rd_anchors_lost = anchors_lost\<rparr>)"

section \<open>Comparing two memberships\<close>

datatype relation = RelEqual | RemoteSuperset | LocalSuperset | OrderOnly | Diverged

fun relation_str :: "relation \<Rightarrow> str" where
  "relation_str RelEqual = lit ''equal''"
| "relation_str RemoteSuperset = lit ''remote_superset''"
| "relation_str LocalSuperset = lit ''local_superset''"
| "relation_str OrderOnly = lit ''order_only''"
| "relation_str Diverged = lit ''membership_diverged''"

text \<open>\<open>all\<close> over the left list while \<open>any\<close> consumes the right iterator.\<close>

fun is_subsequence :: "'a list \<Rightarrow> 'a list \<Rightarrow> bool" where
  "is_subsequence [] right = True"
| "is_subsequence (expected # left) right =
     (case dropWhile (\<lambda>candidate. candidate \<noteq> expected) right of
        [] \<Rightarrow> False
      | _ # right' \<Rightarrow> is_subsequence left right')"

definition membership_relation :: "str list \<Rightarrow> str list \<Rightarrow> relation" where
  "membership_relation local remote =
     (if local = remote then RelEqual
      else if set local = set remote then OrderOnly
      else if length local < length remote \<and> is_subsequence local remote then RemoteSuperset
      else if length remote < length local \<and> is_subsequence remote local then LocalSuperset
      else Diverged)"

definition membership_fingerprint_input :: "str list \<Rightarrow> byte list" where
  "membership_fingerprint_input track_ids =
     u64_be (length track_ids)
     @ concat (map (\<lambda>t. u64_be (str_len t) @ as_bytes t) track_ids)"

section \<open>The rows of the journal\<close>

record pending_operation_row =
  pr_operation_id :: uuid
  pr_sequence :: int
  pr_kind :: str
  pr_track_id :: "str option"
  pr_left_anchor_track_id :: "str option"
  pr_right_anchor_track_id :: "str option"
  pr_boundary :: "str option"
  pr_ordered_track_ids :: "str list option"

definition row_placement :: "pending_operation_row \<Rightarrow> placement option" where
  "row_placement row =
     (case pr_boundary row of
        Some b \<Rightarrow>
          if b = lit ''front'' then Some (AtBoundary Front)
          else if b = lit ''back'' then Some (AtBoundary Back)
          else None
      | None \<Rightarrow>
          (let left = pr_left_anchor_track_id row; right = pr_right_anchor_track_id row
           in if left \<noteq> None \<or> right \<noteq> None then Some (Anchored left right) else None))"

definition row_intent :: "pending_operation_row \<Rightarrow> intent option" where
  "row_intent row =
     (if pr_kind row = lit ''add'' then
        Option.bind (pr_track_id row) (\<lambda>t. Option.bind (row_placement row) (\<lambda>p. Some (Add t p)))
      else if pr_kind row = lit ''remove'' then
        Option.bind (pr_track_id row) (\<lambda>t. Some (Remove t))
      else if pr_kind row = lit ''move'' then
        Option.bind (pr_track_id row) (\<lambda>t. Option.bind (row_placement row) (\<lambda>p. Some (Move t p)))
      else if pr_kind row = lit ''reorder'' then
        Option.bind (pr_ordered_track_ids row) (\<lambda>ts. if ts \<noteq> [] then Some (Reorder ts) else None)
      else None)"

section \<open>Deciding what an observation does\<close>

record observe_decision =
  dc_run_decision :: str
  dc_state_status :: str
  dc_conflict_code :: "str option"
  dc_reason :: "str option"
  dc_replace_projection :: bool

record reconciliation =
  rc_run_decision :: str
  rc_state_status :: str
  rc_conflict_code :: "str option"
  rc_reason :: "str option"
  rc_projection :: "str list option"
  rc_candidate_fingerprint :: "str option"
  rc_committed_through_sequence :: int
  rc_operations :: "resolved_operation list"

definition decision ::
    "string \<Rightarrow> string \<Rightarrow> string option \<Rightarrow> string option \<Rightarrow> bool \<Rightarrow> observe_decision" where
  "decision run status code reason replace =
     \<lparr>dc_run_decision = lit run, dc_state_status = lit status, dc_conflict_code = map_option lit code,
      dc_reason = map_option lit reason, dc_replace_projection = replace\<rparr>"

definition reconciliation_decision ::
    "bool \<Rightarrow> bool \<Rightarrow> bool \<Rightarrow> relation \<Rightarrow> observe_decision" where
  "reconciliation_decision is_legacy pending_operations catalog_complete relation =
     (if \<not> catalog_complete then
        decision ''incomplete'' ''conflict'' (Some ''catalog_incomplete'')
          (Some ''not every observed track has a durable catalog row'')
          (\<not> is_legacy \<and> \<not> pending_operations)
      else if pending_operations then
        decision ''shadow_ready'' ''shadow_ready'' None
          (Some ''local operations require a later reducer'') False
      else if \<not> is_legacy then decision ''clean'' ''clean'' None None True
      else case relation of
        RelEqual \<Rightarrow> decision ''legacy_equal'' ''clean'' None None False
      | RemoteSuperset \<Rightarrow>
          decision ''remote_superset'' ''conflict'' (Some ''legacy_remote_superset'')
            (Some ''the remote playlist safely extends the local legacy projection'') True
      | LocalSuperset \<Rightarrow>
          decision ''local_superset'' ''conflict'' (Some ''legacy_local_superset'')
            (Some ''the local legacy projection contains tracks missing remotely'') False
      | OrderOnly \<Rightarrow>
          decision ''order_only'' ''conflict'' (Some ''legacy_order_only'')
            (Some ''the local and remote playlist orders differ'') False
      | Diverged \<Rightarrow>
          decision ''membership_diverged'' ''conflict'' (Some ''legacy_membership_diverged'')
            (Some ''the local and remote playlist memberships diverged'') False)"

definition plain_reconciliation ::
    "observe_decision \<Rightarrow> str list \<Rightarrow> str \<Rightarrow> int \<Rightarrow> reconciliation" where
  "plain_reconciliation d snapshot_track_ids fingerprint committed_through =
     \<lparr>rc_run_decision = dc_run_decision d,
      rc_state_status = dc_state_status d,
      rc_conflict_code = dc_conflict_code d,
      rc_reason = dc_reason d,
      rc_projection = (if dc_replace_projection d then Some snapshot_track_ids else None),
      rc_candidate_fingerprint = (if dc_state_status d \<noteq> lit ''clean'' then Some fingerprint else None),
      rc_committed_through_sequence = committed_through,
      rc_operations = []\<rparr>"

definition reduction_reason :: "str \<Rightarrow> nat \<Rightarrow> relation \<Rightarrow> bool \<Rightarrow> str option" where
  "reduction_reason state_status pending remote_moved anchors_lost =
     (if state_status = lit ''clean'' then None
      else
        Some
          ((if state_status = lit ''conflict'' then
              lit ''a local operation could not be replayed onto the fresh remote playlist; remote membership is ''
              @ relation_str remote_moved
            else
              dec pending
              @ lit '' local operations rebased onto the fresh remote playlist; remote membership is ''
              @ relation_str remote_moved)
           @ (if anchors_lost
              then lit ''; an operation anchor was lost and its track kept a boundary position''
              else [])))"

text \<open>\<open>sort_by_key\<close> is stable, as \<open>sort_key\<close> is; \<open>find_map\<close> over the conflict codes.\<close>

definition first_conflict :: "resolved_operation list \<Rightarrow> str option" where
  "first_conflict operations =
     Option.bind (List.find (\<lambda>operation. conflict_code (rs_resolution operation) \<noteq> None) operations)
       (\<lambda>operation. conflict_code (rs_resolution operation))"

definition reduced_reconciliation ::
    "crypto \<Rightarrow> reduction \<Rightarrow> resolved_operation list \<Rightarrow> relation \<Rightarrow> bool \<Rightarrow> int
     \<Rightarrow> reconciliation" where
  "reduced_reconciliation cr reduction malformed remote_moved candidate_complete committed_through =
     (let operations = sort_key rs_sequence (rd_operations reduction @ malformed);
          candidate_fingerprint = sha256_hex cr (membership_fingerprint_input (rd_candidate reduction))
      in if \<not> candidate_complete then
           \<lparr>rc_run_decision = lit ''incomplete'',
            rc_state_status = lit ''conflict'',
            rc_conflict_code = Some (lit ''catalog_incomplete''),
            rc_reason =
              Some (lit ''the rebased playlist still contains a track without a durable catalog row''),
            rc_projection = None,
            rc_candidate_fingerprint = Some candidate_fingerprint,
            rc_committed_through_sequence = committed_through,
            rc_operations = []\<rparr>
         else
           (let (run_decision, state_status, code) =
              (case (first_conflict operations, rd_outcome reduction) of
                 (Some code, _) \<Rightarrow> (lit ''conflict'', lit ''conflict'', Some code)
               | (None, Converged) \<Rightarrow> (lit ''clean'', lit ''clean'', None)
               | (None, _) \<Rightarrow> (lit ''shadow_ready'', lit ''shadow_ready'', None));
                pending = length (filter (\<lambda>operation. rs_resolution operation = ResPending) operations)
            in \<lparr>rc_run_decision = run_decision,
                rc_state_status = state_status,
                rc_conflict_code = code,
                rc_reason = reduction_reason state_status pending remote_moved (rd_anchors_lost reduction),
                rc_projection = Some (rd_candidate reduction),
                rc_candidate_fingerprint =
                  (if state_status \<noteq> lit ''clean'' then Some candidate_fingerprint else None),
                rc_committed_through_sequence = committed_prefix operations committed_through,
                rc_operations = operations\<rparr>))"

definition OPERATION_MALFORMED :: str where "OPERATION_MALFORMED = lit ''operation_malformed''"

text \<open>The loop of \<open>reduce_pending_operations\<close> that separates the rows it can read from the others.\<close>

fun read_rows :: "pending_operation_row list \<Rightarrow> pending_operation list \<times> resolved_operation list" where
  "read_rows [] = ([], [])"
| "read_rows (row # rows) =
     (let (operations, malformed) = read_rows rows
      in case row_intent row of
           Some intent \<Rightarrow>
             (\<lparr>po_operation_id = pr_operation_id row, po_sequence = pr_sequence row,
               po_intent = intent\<rparr> # operations, malformed)
         | None \<Rightarrow>
             (operations,
              \<lparr>rs_operation_id = pr_operation_id row, rs_sequence = pr_sequence row,
               rs_resolution = ResConflict OPERATION_MALFORMED\<rparr> # malformed))"

text \<open>\<open>rows\<close>, \<open>baseline\<close> and \<open>catalog_has\<close> are what the transaction's queries answer.\<close>

definition reduce_pending_operations ::
    "crypto \<Rightarrow> pending_operation_row list \<Rightarrow> str list \<Rightarrow> (str list \<Rightarrow> bool) \<Rightarrow> str list \<Rightarrow> int
     \<Rightarrow> reconciliation" where
  "reduce_pending_operations cr rows baseline catalog_has snapshot committed_through =
     (let (operations, malformed) = read_rows rows;
          reduction = reduce snapshot operations committed_through;
          remote_moved = membership_relation baseline snapshot;
          candidate_complete =
            (if rd_candidate reduction = snapshot then True else catalog_has (rd_candidate reduction))
      in reduced_reconciliation cr reduction malformed remote_moved candidate_complete committed_through)"

section \<open>Where the reducer and the API agree\<close>

lemma resolve_insert_position:
  "resolve_placement xs p = Some i \<Longrightarrow> insert_position xs p = i"
  by (induction xs p rule: resolve_placement.induct)
     (auto simp: anchored_position_def split: option.splits)

lemma take_present_filter:
  "distinct (named @ ts) \<Longrightarrow> take_present xs named ts = named @ filter (\<lambda>t. t \<in> set xs) ts"
  by (induction xs named ts rule: take_present.induct) auto

lemma present_in_order_filter: "distinct ordered \<Longrightarrow> present_in_order xs ordered = filter (\<lambda>t. t \<in> set xs) ordered"
  by (simp add: present_in_order_def take_present_filter)

lemma set_take_present: "set (take_present xs named ts) = set named \<union> (set ts \<inter> set xs)"
  by (induction xs named ts rule: take_present.induct) auto

lemma distinct_take_present: "distinct named \<Longrightarrow> distinct (take_present xs named ts)"
  by (induction xs named ts rule: take_present.induct) auto

lemma set_present_in_order: "set (present_in_order xs ordered) = set ordered \<inter> set xs"
  by (simp add: present_in_order_def set_take_present)

lemma distinct_present_in_order: "distinct (present_in_order xs ordered)"
  by (simp add: present_in_order_def distinct_take_present)

text \<open>A reordering by the reducer is the API's reordering by the named tracks.\<close>

lemma write_present:
  "write_slots (zip (slots_of (set (present_in_order xs ordered)) xs) (present_in_order xs ordered)) xs
     = apply_op (Reorder (present_in_order xs ordered)) xs"
proof -
  have "filter (\<lambda>t. t \<in> set xs) (present_in_order xs ordered) = present_in_order xs ordered"
    by (intro filter_True) (simp add: set_present_in_order)
  then show ?thesis by (simp add: apply_op.simps(4) Let_def)
qed

text \<open>The operations the reducer replays exactly as the API applied them.\<close>

fun lands :: "str list \<Rightarrow> operation \<Rightarrow> bool" where
  "lands xs (Add t p) \<longleftrightarrow> t \<in> set xs \<or> resolve_placement xs p \<noteq> None"
| "lands xs (Remove t) \<longleftrightarrow> True"
| "lands xs (Move t p) \<longleftrightarrow>
     t \<in> set xs \<and> \<not> anchors_are_inverted xs p \<and> resolve_placement xs p \<noteq> None
     \<and> resolve_placement (filter (\<lambda>m. m \<noteq> t) xs) p \<noteq> None"
| "lands xs (Reorder ordered) \<longleftrightarrow> distinct ordered \<and> (ordered = [] \<or> (\<exists>t \<in> set ordered. t \<in> set xs))"

lemma apply_intent_lands:
  assumes "distinct xs" "lands xs op"
  shows "apply_intent xs op = (apply_op op xs, Inr False)"
proof (cases op)
  case (Add t p)
  then show ?thesis using assms(2) by (auto simp: resolve_insert_position)
next
  case (Remove t)
  then show ?thesis by (cases "position_of xs t") (simp_all del: position_of_None)
next
  case (Move t p)
  then obtain i where i: "position_of xs t = Some i"
    using assms(2) by (cases "position_of xs t") auto
  then show ?thesis
    using Move assms(2) remove_at_position [OF assms(1) i] position_of_Some [OF i]
    by (auto simp: resolve_insert_position Let_def)
next
  case (Reorder ordered)
  then have "present_in_order xs ordered = filter (\<lambda>t. t \<in> set xs) ordered"
    using assms(2) by (simp add: present_in_order_filter)
  then show ?thesis
    using Reorder assms(2) write_present [of xs ordered]
    by (auto simp: filter_empty_conv apply_op.simps(4) write_slots_def Let_def)
qed

fun all_land :: "str list \<Rightarrow> operation list \<Rightarrow> bool" where
  "all_land xs [] \<longleftrightarrow> True"
| "all_land xs (op # ops) \<longleftrightarrow> lands xs op \<and> all_land (apply_op op xs) ops"

lemma all_land_append [simp]:
  "all_land xs (ops @ ops') \<longleftrightarrow> all_land xs ops \<and> all_land (apply_all ops xs) ops'"
  by (induction ops arbitrary: xs) simp_all

lemma apply_op_distinct:
  assumes "distinct xs" "lands xs op"
  shows "distinct (apply_op op xs)"
proof (cases op)
  case (Add t p)
  then show ?thesis using assms(1) by (simp add: apply_add del: apply_op.simps)
next
  case (Remove t)
  then show ?thesis using assms(1) by (simp add: apply_remove del: apply_op.simps)
next
  case (Move t p)
  then obtain i where i: "position_of xs t = Some i"
    using assms(2) by (cases "position_of xs t") auto
  then show ?thesis
    using Move assms(1) remove_at_position [OF assms(1) i] by (simp add: Let_def)
next
  case (Reorder ordered)
  then show ?thesis using assms reorder_members(2) by simp
qed

lemma replay_lands:
  "distinct xs \<Longrightarrow> all_land xs (map po_intent pos) \<Longrightarrow>
     replay xs lost pos = (apply_all (map po_intent pos) xs, replicate (length pos) ResPending, lost)"
  by (induction pos arbitrary: xs lost)
     (auto simp: apply_intent_lands apply_op_distinct Let_def simp del: apply_op.simps apply_intent.simps lands.simps)

lemma derive_adds_land:
  "members \<subseteq> set xs \<Longrightarrow> \<forall>t. previous = Some t \<longrightarrow> t \<in> set xs \<Longrightarrow>
     all_land xs (derive_adds members previous submitted)"
proof (induction members previous submitted arbitrary: xs rule: derive_adds.induct)
  case (2 members previous t submitted)
  show ?case
  proof (cases "t \<in> members")
    case True
    then show ?thesis using "2.IH" [of xs] "2.prems" by auto
  next
    case False
    let ?op = "Add t (case previous of Some left \<Rightarrow> Anchored (Some left) None | None \<Rightarrow> AtBoundary Front)"
    have "lands xs ?op"
      using "2.prems"(2) by (auto simp: Option.bind_eq_Some_conv split: option.splits)
    moreover have "set (apply_op ?op xs) = insert t (set xs)" by (rule apply_add)
    then have "all_land (apply_op ?op xs) (derive_adds members (Some t) submitted)"
      using "2.prems" by (intro "2.IH") auto
    ultimately show ?thesis using False by simp
  qed
qed simp

lemma removes_land: "all_land xs (map Remove ts)"
  by (induction ts arbitrary: xs) simp_all

lemma derive_order_lands:
  assumes "distinct projection" "distinct submitted"
  shows "all_land projection (derive_order submitted projection replace)"
proof -
  let ?ops = "derive_adds (set projection) None submitted
    @ (if replace then map Remove (filter (\<lambda>t. t \<notin> set submitted) projection) else [])"
  let ?projected = "apply_all ?ops projection"
  have "all_land projection ?ops"
    using derive_adds_land [of "set projection" projection None submitted] by (simp add: removes_land)
  moreover have "set submitted \<subseteq> set ?projected"
    using assms(1) by (auto simp: apply_removes apply_derived_adds)
  then have "lands ?projected (Reorder submitted)"
    using assms(2) by (cases submitted) auto
  ultimately show ?thesis by (auto simp: derive_order_def Let_def)
qed

lemma nth_in_filter: "i < length (filter P xs) \<Longrightarrow> filter P xs ! i \<in> set xs \<and> P (filter P xs ! i)"
  using nth_mem [of i "filter P xs"] by auto

lemma filter_before:
  "a < b \<Longrightarrow> b < length (filter P xs) \<Longrightarrow>
     \<exists>p q. p < q \<and> q < length xs \<and> xs ! p = filter P xs ! a \<and> xs ! q = filter P xs ! b"
proof (induction xs arbitrary: a b)
  case (Cons x xs)
  show ?case
  proof (cases "P x \<and> a = 0")
    case True
    then obtain b' where b': "b = Suc b'" using Cons.prems by (cases b) auto
    then have "filter P xs ! b' \<in> set xs" using True Cons.prems by (intro nth_in_filter [THEN conjunct1]) simp
    then obtain q where "q < length xs" "xs ! q = filter P xs ! b'" by (auto simp: in_set_conv_nth)
    then show ?thesis using True b' by (intro exI [of _ 0] exI [of _ "Suc q"]) simp
  next
    case False
    let ?a = "if P x then a - 1 else a" and ?b = "if P x then b - 1 else b"
    have "?a < ?b" "?b < length (filter P xs)" using False Cons.prems by auto
    from Cons.IH [OF this] obtain p q where
      "p < q" "q < length xs" "xs ! p = filter P xs ! ?a" "xs ! q = filter P xs ! ?b" by auto
    then show ?thesis using False Cons.prems
      by (intro exI [of _ "Suc p"] exI [of _ "Suc q"]) (auto simp: nth_Cons split: nat.splits)
  qed
qed simp

lemma derive_move_lands:
  assumes "distinct projection"
  shows "all_land projection (derive_move t to_index projection)"
proof (cases "position_of projection t")
  case (Some i)
  let ?without = "filter (\<lambda>m. m \<noteq> t) projection"
  have removed: "remove_at i projection = ?without"
    by (rule remove_at_position [OF assms Some])
  have t: "t \<in> set projection" using position_of_Some [OF Some] by (metis nth_mem)
  have "lands projection (Move t (Anchored (Some (?without ! (k - 1))) (Some (?without ! k))))"
    if k: "0 < k" "k < length ?without" for k
  proof -
    let ?l = "?without ! (k - 1)" and ?r = "?without ! k"
    have "?l \<in> set projection" "?r \<in> set projection" "?l \<in> set ?without"
      using nth_in_filter [of "k - 1" "\<lambda>m. m \<noteq> t" projection] nth_in_filter [of k "\<lambda>m. m \<noteq> t" projection] k
      by auto
    moreover have "\<not> anchors_are_inverted projection (Anchored (Some ?l) (Some ?r))"
    proof -
      from filter_before [of "k - 1" k "\<lambda>m. m \<noteq> t" projection] k obtain p q where
        "p < q" "q < length projection" "projection ! p = ?l" "projection ! q = ?r" by auto
      then have "position_of projection ?l = Some p" "position_of projection ?r = Some q"
        using position_of_nth [OF assms, of p] position_of_nth [OF assms, of q] by simp_all
      with \<open>p < q\<close> show ?thesis by simp
    qed
    ultimately show ?thesis
      using t by (auto simp: Option.bind_eq_Some_conv split: option.splits)
  qed
  then show ?thesis
    using Some t removed by (auto simp: derive_move_def Let_def)
qed (simp add: derive_move_def del: position_of_None)

fun edit_distinct :: "track_edit \<Rightarrow> bool" where
  "edit_distinct (EditOrder ts) \<longleftrightarrow> distinct ts"
| "edit_distinct (EditReplace ts) \<longleftrightarrow> distinct ts"
| "edit_distinct edit \<longleftrightarrow> True"

lemma derive_lands:
  assumes "derive edit projection = Inr ops" "distinct projection" "edit_distinct edit"
  shows "all_land projection ops"
  using assms by (cases edit) (auto simp: derive_Inr derive_move_lands derive_order_lands)

section \<open>What a replay can do to a list\<close>

text \<open>A move that is not anchored to the moved track itself.\<close>

fun self_anchored :: "intent \<Rightarrow> bool" where
  "self_anchored (Move t (Anchored left right)) \<longleftrightarrow> left = Some t \<or> right = Some t"
| "self_anchored _ \<longleftrightarrow> False"

lemma position_of_mem: "position_of xs a = Some i \<Longrightarrow> a \<in> set xs"
  using position_of_None [of xs a] by fastforce

lemma resolve_None:
  "resolve_placement xs p = None \<longleftrightarrow>
     (\<exists>l r. p = Anchored l r \<and> (\<forall>a. l = Some a \<or> r = Some a \<longrightarrow> a \<notin> set xs))"
proof (cases p)
  case (AtBoundary b)
  then show ?thesis by (cases b) simp_all
next
  case (Anchored l r)
  then show ?thesis
    by (cases l; cases r) (auto split: option.splits dest: position_of_mem)
qed

lemma resolve_without:
  "resolve_placement xs p \<noteq> None \<Longrightarrow> \<not> self_anchored (Move t p) \<Longrightarrow>
     resolve_placement (filter (\<lambda>m. m \<noteq> t) xs) p \<noteq> None"
  unfolding resolve_None by fastforce

text \<open>What one replayed operation does, whether it lands or conflicts.\<close>

lemma apply_intent_effect:
  assumes "distinct xs" "\<not> self_anchored op"
  shows "distinct (fst (apply_intent xs op))
    \<and> set xs - {t. op = Remove t} \<subseteq> set (fst (apply_intent xs op))
    \<and> set (fst (apply_intent xs op)) \<subseteq> set xs \<union> {t. \<exists>p. op = Add t p}
    \<and> (\<forall>t. op = Remove t \<longrightarrow> t \<notin> set (fst (apply_intent xs op)))
    \<and> (\<forall>t p. op = Add t p \<longrightarrow> t \<in> set (fst (apply_intent xs op)))
    \<and> (\<forall>code. snd (apply_intent xs op) = Inl code \<longrightarrow> fst (apply_intent xs op) = xs)"
proof (cases op)
  case (Add t p)
  then show ?thesis using assms(1) by (auto split: option.splits)
next
  case (Remove t)
  then have "apply_intent xs op = (filter (\<lambda>m. m \<noteq> t) xs, Inr False)"
    using apply_intent_lands [OF assms(1), of op] apply_remove [OF assms(1), of t]
    by (simp del: apply_op.simps apply_intent.simps)
  then show ?thesis using Remove assms(1) by auto
next
  case (Move t p)
  show ?thesis
  proof (cases "lands xs op")
    case True
    then obtain i where i: "position_of xs t = Some i"
      using Move by (cases "position_of xs t") auto
    then have "apply_op op xs = insert_at (insert_position (filter (\<lambda>m. m \<noteq> t) xs) p) t (filter (\<lambda>m. m \<noteq> t) xs)"
      using Move remove_at_position [OF assms(1) i] by (simp add: Let_def)
    then show ?thesis
      using apply_intent_lands [OF assms(1) True] True Move assms(1) by auto
  next
    case False
    then have "apply_intent xs op = (xs, snd (apply_intent xs op))"
      using Move assms(2) resolve_without [of xs p t]
      by (cases "position_of xs t") (auto simp del: position_of_None dest: position_of_Some)
    then show ?thesis using Move assms(1)
      by (cases "apply_intent xs op") auto
  qed
next
  case (Reorder ordered)
  let ?named = "present_in_order xs ordered"
  have "fst (apply_intent xs op) = (if ?named = [] then xs else apply_op (Reorder ?named) xs)"
    using Reorder write_present [of xs ordered] by (simp add: Let_def)
  then show ?thesis
    using Reorder reorder_members [OF assms(1) distinct_present_in_order [of xs ordered]] assms(1)
    by (auto simp: Let_def split: if_splits)
qed

interpretation reducer: track_editor "\<lambda>xs op. fst (apply_intent xs op)" "\<lambda>op. \<not> self_anchored op"
proof unfold_locales
  fix op and xs :: "str list" and t
  assume "\<not> self_anchored op" "distinct xs"
  note effect = apply_intent_effect [OF this(2,1)]
  from effect show "distinct (fst (apply_intent xs op))" by blast
  from effect show "t \<in> set xs \<Longrightarrow> op \<noteq> Remove t \<Longrightarrow> t \<in> set (fst (apply_intent xs op))" by blast
  from effect show "t \<in> set (fst (apply_intent xs op)) \<Longrightarrow> t \<in> set xs \<or> (\<exists>p. op = Add t p)" by blast
qed

end
