(* ===== verification/Playlist_Rules.thy ===== *)
theory Playlist_Rules
  imports Playlist_Reduce "HOL-Library.Multiset"
begin

text \<open>
  What the playlist journal and its reducer guarantee together: the reducer reads back the operation
  the API wrote and, on an unchanged remote, replays it to the list the API showed; a replay loses no
  track that no operation removed; the committed watermark never passes a pending operation; a clean
  outcome means everything is settled; the automatic repair of a legacy playlist drops no local track.
\<close>

section \<open>Facts about a reduction\<close>

lemma replay_resolutions: "length (fst (snd (replay xs lost pos))) = length pos"
  by (induction pos arbitrary: xs lost) (simp_all add: Let_def case_prod_unfold del: apply_intent.simps)

lemma map_zip_fst: "length xs = length ys \<Longrightarrow> map (\<lambda>p. f (fst p)) (zip xs ys) = map f xs"
  by (induction xs ys rule: list_induct2) simp_all

lemma reduce_fields:
  "rd_candidate (reduce remote pos base) = fst (replay remote False pos)"
  "map rs_sequence (rd_operations (reduce remote pos base)) = map po_sequence pos"
  "map rs_operation_id (rd_operations (reduce remote pos base)) = map po_operation_id pos"
proof -
  obtain c rs l where r: "replay remote False pos = (c, rs, l)" by (cases "replay remote False pos")
  then have "length rs = length pos" using replay_resolutions [of remote False pos] by simp
  with r show "rd_candidate (reduce remote pos base) = fst (replay remote False pos)"
    "map rs_sequence (rd_operations (reduce remote pos base)) = map po_sequence pos"
    "map rs_operation_id (rd_operations (reduce remote pos base)) = map po_operation_id pos"
    by (auto simp: reduce_def Let_def comp_def case_prod_unfold map_zip_fst)
qed

lemma find_map_None:
  "Option.bind (List.find (\<lambda>x. f x \<noteq> None) xs) f = None \<longleftrightarrow> (\<forall>x \<in> set xs. f x = None)"
  by (induction xs) auto

lemma reduce_converged:
  assumes "rd_outcome (reduce remote pos base) = Converged"
  shows "fst (replay remote False pos) = remote
    \<and> (\<forall>r \<in> set (rd_operations (reduce remote pos base)). rs_resolution r = ResCommitted)"
proof -
  obtain c rs l where r: "replay remote False pos = (c, rs, l)" by (cases "replay remote False pos")
  let ?rs = "if c = remote then map (\<lambda>r. if r = ResPending then ResCommitted else r) rs else rs"
  have c: "c = remote" and none: "\<forall>x \<in> set ?rs. conflict_code x = None"
    unfolding find_map_None [symmetric] using assms r
    by (simp_all add: reduce_def Let_def split: option.splits if_splits)
  have "x = ResCommitted" if "x \<in> set ?rs" for x
    using that none [rule_format, OF that] c
    by (cases x rule: resolution.exhaust) (auto split: if_splits)
  with r c show ?thesis
    by (auto simp: reduce_def Let_def dest!: set_zip_rightD)
qed

section \<open>The watermark\<close>

lemma committed_prefix_ge: "base \<le> committed_prefix ops base"
  by (induction ops base rule: committed_prefix.induct) (auto simp: max_def split: if_splits)

lemma committed_prefix_before_pending:
  "sorted (map rs_sequence ops) \<Longrightarrow> distinct (map rs_sequence ops) \<Longrightarrow>
     \<forall>r \<in> set ops. base < rs_sequence r \<Longrightarrow>
     \<forall>r \<in> set ops. is_terminal (rs_resolution r) \<or> committed_prefix ops base < rs_sequence r"
proof (induction ops base rule: committed_prefix.induct)
  case (2 op ops watermark)
  have later: "\<forall>r \<in> set ops. max watermark (rs_sequence op) < rs_sequence r"
    using "2.prems" by (force simp: order.strict_iff_order)
  show ?case
  proof (cases "is_terminal (rs_resolution op)")
    case True
    with "2.IH" "2.prems" later show ?thesis by auto
  next
    case False
    with "2.prems"(3) show ?thesis by auto
  qed
qed simp

lemma committed_prefix_all:
  "\<forall>r \<in> set ops. is_terminal (rs_resolution r) \<Longrightarrow> r \<in> set ops \<Longrightarrow> rs_sequence r \<le> committed_prefix ops base"
proof (induction ops base rule: committed_prefix.induct)
  case (2 op ops watermark)
  then show ?case using committed_prefix_ge [of "max watermark (rs_sequence op)" ops] by auto
qed simp

section \<open>The rows of a reconciliation\<close>

lemma read_rows_sequences:
  "mset (map po_sequence (fst (read_rows rows)) @ map rs_sequence (snd (read_rows rows)))
     = mset (map pr_sequence rows)"
  by (induction rows) (auto simp: Let_def split: prod.splits option.splits)

section \<open>Reading back what was written\<close>

text \<open>A row that holds the columns of a journal entry.\<close>

definition stored_as :: "membership_operation \<Rightarrow> pending_operation_row \<Rightarrow> bool" where
  "stored_as entry row \<longleftrightarrow>
     pr_operation_id row = mo_operation_id entry
     \<and> pr_kind row = mo_kind entry
     \<and> pr_track_id row = mo_track_id entry
     \<and> pr_left_anchor_track_id row = mo_left_anchor_track_id entry
     \<and> pr_right_anchor_track_id row = mo_right_anchor_track_id entry
     \<and> pr_boundary row = mo_boundary entry
     \<and> pr_ordered_track_ids row = mo_ordered_track_ids entry"

definition writable :: "operation \<Rightarrow> bool" where
  "writable op \<longleftrightarrow> op_placement op \<noteq> Some (Anchored None None) \<and> op \<noteq> Reorder []"

lemma derive_adds_writable: "op \<in> set (derive_adds members previous submitted) \<Longrightarrow> writable op"
  by (induction members previous submitted rule: derive_adds.induct)
     (auto simp: writable_def split: if_splits option.splits)

lemma reorder_nothing: "apply_op (Reorder []) xs = xs"
  by (simp add: apply_reorder)

lemma derive_order_writable: "op \<in> set (derive_order submitted projection replace) \<Longrightarrow> writable op"
  by (auto simp: derive_order_def Let_def reorder_nothing writable_def [of "Remove _"]
      writable_def [of "Reorder _"] dest: derive_adds_writable split: if_splits)

lemma derive_writable: "derive edit projection = Inr ops \<Longrightarrow> op \<in> set ops \<Longrightarrow> writable op"
  by (cases edit)
     (auto simp: derive_Inr derive_move_def Let_def writable_def [of "Add _ _"] writable_def [of "Remove _"]
       writable_def [of "Move _ _"] dest: derive_order_writable split: if_splits option.splits)

lemma row_placement_entry:
  assumes "stored_as (journal_entry cr i key n op) row" "op_placement op = Some p" "p \<noteq> Anchored None None"
  shows "row_placement row = Some p"
proof -
  have cols: "pr_boundary row = op_boundary op" "pr_left_anchor_track_id row = left_anchor op"
    "pr_right_anchor_track_id row = right_anchor op"
    using assms(1) by (simp_all add: stored_as_def journal_entry_def)
  show ?thesis
  proof (cases p)
    case (AtBoundary b)
    then show ?thesis
      using assms(2) cols by (cases b) (simp_all add: row_placement_def op_boundary_def lit_def)
  next
    case (Anchored l r)
    then show ?thesis
      using assms cols by (cases l; cases r)
        (simp_all add: row_placement_def op_boundary_def left_anchor_def right_anchor_def)
  qed
qed

lemma row_intent_entry:
  assumes "stored_as (journal_entry cr i key n op) row" "writable op"
  shows "row_intent row = Some op"
proof -
  have "pr_kind row = op_kind op" "pr_track_id row = op_track_id op"
    "pr_ordered_track_ids row = ordered_track_ids op"
    using assms(1) by (simp_all add: stored_as_def journal_entry_def)
  with assms(2) row_placement_entry [OF assms(1)] show ?thesis
    by (cases op) (auto simp: row_intent_def writable_def lit_def)
qed

text \<open>
  The journal is read back as it was written: whatever operation the API derived from an edit, a
  row holding the columns of its journal entry is parsed to that operation.
\<close>

theorem journal_round_trip:
  assumes "derive edit projection = Inr ops" and "n < length ops"
    and "stored_as (journal_entry cr new_id key n (ops ! n)) row"
  shows "row_intent row = Some (ops ! n)"
  using row_intent_entry [OF assms(3)] derive_writable [OF assms(1)] assms(2) by simp

definition row_of :: "int \<Rightarrow> membership_operation \<Rightarrow> pending_operation_row" where
  "row_of n entry =
     \<lparr>pr_operation_id = mo_operation_id entry, pr_sequence = n, pr_kind = mo_kind entry,
      pr_track_id = mo_track_id entry, pr_left_anchor_track_id = mo_left_anchor_track_id entry,
      pr_right_anchor_track_id = mo_right_anchor_track_id entry, pr_boundary = mo_boundary entry,
      pr_ordered_track_ids = mo_ordered_track_ids entry\<rparr>"

lemma stored_as_row_of: "stored_as entry (row_of n entry)"
  by (simp add: stored_as_def row_of_def)

theorem journal_round_trip_witness:
  "\<exists>ops. derive (EditOrder [[51], [50]]) [[50], [51]] = Inr ops
     \<and> row_intent (row_of 9 (journal_entry sample_crypto 1 7 0 (ops ! 0))) = Some (Reorder [[51], [50]])"
proof -
  have d: "derive (EditOrder [[51], [50]]) [[50], [51]] = Inr [Reorder [[51], [50]]]"
    by code_simp
  show ?thesis
    using journal_round_trip [OF d, of 0 sample_crypto 1 7] stored_as_row_of d by simp
qed

section \<open>From an edit to its replay\<close>

lemma read_rows_all:
  "list_all2 (\<lambda>row op. row_intent row = Some op) rows ops \<Longrightarrow>
     snd (read_rows rows) = [] \<and> map po_intent (fst (read_rows rows)) = ops"
  by (induction rule: list_all2_induct) (auto simp: Let_def case_prod_unfold)

lemma reduce_lands:
  assumes "distinct xs" "all_land xs (map po_intent pos)"
  shows "rd_candidate (reduce xs pos base) = apply_all (map po_intent pos) xs
    \<and> \<not> rd_anchors_lost (reduce xs pos base)
    \<and> (\<forall>r \<in> set (rd_operations (reduce xs pos base)). conflict_code (rs_resolution r) = None)"
  using replay_lands [OF assms, of False]
  by (auto simp: reduce_def Let_def dest!: set_zip_rightD)

lemma first_conflict_None:
  "first_conflict ops = None \<longleftrightarrow> (\<forall>r \<in> set ops. conflict_code (rs_resolution r) = None)"
  unfolding first_conflict_def by (rule find_map_None)


definition sample_rows :: "pending_operation_row list" where
  "sample_rows =
     [row_of 1 (journal_entry sample_crypto 5 7 0 (Add [50] (Anchored (Some [49]) None))),
      row_of 2 (journal_entry sample_crypto 5 7 1 (Remove [52])),
      row_of 3 (journal_entry sample_crypto 5 7 2 (Reorder [[49], [50], [51]]))]"


section \<open>What a reconciliation guarantees\<close>

lemma replay_foldl:
  "fst (replay xs lost pos) = foldl (\<lambda>xs op. fst (apply_intent xs op)) xs (map po_intent pos)"
  by (induction pos arbitrary: xs lost) (simp_all add: Let_def case_prod_unfold del: apply_intent.simps)


definition sample_pending :: "pending_operation list" where
  "sample_pending =
     [\<lparr>po_operation_id = 1, po_sequence = 4, po_intent = Move [50] (Anchored (Some [57]) None)\<rparr>,
      \<lparr>po_operation_id = 2, po_sequence = 5, po_intent = Add [51] (Anchored (Some [57]) None)\<rparr>]"


lemma reconciled_sequences:
  fixes snapshot committed
  assumes "distinct (map pr_sequence rows)"
  defines "ops \<equiv> sort_key rs_sequence
    (rd_operations (reduce snapshot (fst (read_rows rows)) committed) @ snd (read_rows rows))"
  shows "sorted (map rs_sequence ops)" "distinct (map rs_sequence ops)"
    "rs_sequence ` set ops = pr_sequence ` set rows"
proof -
  have "mset (map rs_sequence ops) = mset (map pr_sequence rows)"
    using read_rows_sequences [of rows]
      arg_cong [where f = mset, OF reduce_fields(2) [of snapshot "fst (read_rows rows)" committed]]
    by (simp add: ops_def)
  then show "distinct (map rs_sequence ops)" "rs_sequence ` set ops = pr_sequence ` set rows"
    using assms(1) mset_eq_imp_distinct_iff mset_eq_setD by (blast, metis list.set_map)
  show "sorted (map rs_sequence ops)" by (simp add: ops_def)
qed

lemma reduced_incomplete:
  "rc_operations (reduced_reconciliation cr rd malformed moved False base) = []"
  "rc_committed_through_sequence (reduced_reconciliation cr rd malformed moved False base) = base"
  "rc_state_status (reduced_reconciliation cr rd malformed moved False base) = lit ''conflict''"
  "rc_projection (reduced_reconciliation cr rd malformed moved False base) = None"
  by (simp_all add: reduced_reconciliation_def)

lemma reduced_complete:
  fixes rd malformed
  defines "ops \<equiv> sort_key rs_sequence (rd_operations rd @ malformed)"
  shows "rc_operations (reduced_reconciliation cr rd malformed moved True base) = ops"
    "rc_committed_through_sequence (reduced_reconciliation cr rd malformed moved True base) = committed_prefix ops base"
    "rc_projection (reduced_reconciliation cr rd malformed moved True base) = Some (rd_candidate rd)"
    "rc_state_status (reduced_reconciliation cr rd malformed moved True base) = lit ''clean''
       \<Longrightarrow> first_conflict ops = None \<and> rd_outcome rd = Converged"
  by (cases "first_conflict ops"; cases "rd_outcome rd";
      simp add: reduced_reconciliation_def Let_def lit_def flip: ops_def)+

lemma reconciled_cases:
  obtains (incomplete) "rc_operations (reduce_pending_operations cr rows baseline catalog_has snapshot committed) = []"
      "rc_committed_through_sequence (reduce_pending_operations cr rows baseline catalog_has snapshot committed) = committed"
      "rc_state_status (reduce_pending_operations cr rows baseline catalog_has snapshot committed) = lit ''conflict''"
      "rc_projection (reduce_pending_operations cr rows baseline catalog_has snapshot committed) = None"
  | (complete) ops where
      "ops = sort_key rs_sequence
         (rd_operations (reduce snapshot (fst (read_rows rows)) committed) @ snd (read_rows rows))"
      "rc_operations (reduce_pending_operations cr rows baseline catalog_has snapshot committed) = ops"
      "rc_committed_through_sequence (reduce_pending_operations cr rows baseline catalog_has snapshot committed)
         = committed_prefix ops committed"
      "rc_projection (reduce_pending_operations cr rows baseline catalog_has snapshot committed)
         = Some (rd_candidate (reduce snapshot (fst (read_rows rows)) committed))"
      "rc_state_status (reduce_pending_operations cr rows baseline catalog_has snapshot committed) = lit ''clean''
         \<Longrightarrow> first_conflict ops = None \<and> rd_outcome (reduce snapshot (fst (read_rows rows)) committed) = Converged"
proof -
  let ?rd = "reduce snapshot (fst (read_rows rows)) committed"
  let ?rel = "membership_relation baseline snapshot"
  have eq: "reduce_pending_operations cr rows baseline catalog_has snapshot committed
      = reduced_reconciliation cr ?rd (snd (read_rows rows)) ?rel
          (rd_candidate ?rd = snapshot \<or> catalog_has (rd_candidate ?rd)) committed"
    by (simp add: reduce_pending_operations_def Let_def case_prod_unfold)
  show thesis
  proof (cases "rd_candidate ?rd = snapshot \<or> catalog_has (rd_candidate ?rd)")
    case True
    then show thesis
      using complete [OF refl] reduced_complete [of cr ?rd "snd (read_rows rows)" ?rel committed]
      unfolding eq by simp
  next
    case False
    then have "(rd_candidate ?rd = snapshot \<or> catalog_has (rd_candidate ?rd)) = False" by simp
    then show thesis using incomplete unfolding eq by (simp add: reduced_incomplete)
  qed
qed

text \<open>
  C27. The committed watermark never goes back and never passes a pending operation: with the rows'
  sequence numbers distinct and above the old watermark, every operation the reconciliation leaves
  pending lies above the new one.
\<close>

theorem watermark_before_pending:
  fixes cr baseline catalog_has snapshot committed
  assumes "distinct (map pr_sequence rows)" and "\<And>row. row \<in> set rows \<Longrightarrow> committed < pr_sequence row"
  defines "rc \<equiv> reduce_pending_operations cr rows baseline catalog_has snapshot committed"
  shows "committed \<le> rc_committed_through_sequence rc
    \<and> (\<forall>r. r \<in> set (rc_operations rc) \<and> rs_resolution r = ResPending
         \<longrightarrow> rc_committed_through_sequence rc < rs_sequence r)"
proof (cases rule: reconciled_cases [of cr rows baseline catalog_has snapshot committed])
  case incomplete
  then show ?thesis by (simp add: rc_def)
next
  case (complete ops)
  have "\<forall>r \<in> set ops. committed < rs_sequence r"
  proof
    fix r assume "r \<in> set ops"
    then have "rs_sequence r \<in> pr_sequence ` set rows"
      using reconciled_sequences(3) [OF assms(1), of snapshot committed] complete(1) by blast
    with assms(2) show "committed < rs_sequence r" by auto
  qed
  then have "\<forall>r \<in> set ops. is_terminal (rs_resolution r) \<or> committed_prefix ops committed < rs_sequence r"
    using reconciled_sequences(1,2) [OF assms(1), of snapshot committed] complete(1)
    by (intro committed_prefix_before_pending) simp_all
  then show ?thesis
    using complete(2,3) committed_prefix_ge [of committed ops] by (auto simp: rc_def is_terminal_def)
qed

theorem watermark_before_pending_witness:
  "0 \<le> rc_committed_through_sequence
        (reduce_pending_operations sample_crypto sample_rows [] (\<lambda>_. True) [[51], [52], [49]] 0)"
  by (rule watermark_before_pending [THEN conjunct1]) (auto simp: sample_rows_def row_of_def)

lemma malformed_conflicts:
  "r \<in> set (snd (read_rows rows)) \<Longrightarrow> conflict_code (rs_resolution r) \<noteq> None"
  by (induction rows) (auto simp: Let_def case_prod_unfold split: option.splits)

text \<open>
  C28. A clean outcome means that everything is settled: the stored projection is the observed
  playlist, every row of the journal that was read is committed and none is malformed, and the
  watermark has reached all of them.
\<close>

theorem clean_is_settled:
  fixes cr baseline catalog_has snapshot committed
  assumes "distinct (map pr_sequence rows)"
  defines "rc \<equiv> reduce_pending_operations cr rows baseline catalog_has snapshot committed"
  assumes "rc_state_status rc = lit ''clean''"
  shows "rc_projection rc = Some snapshot
    \<and> (\<forall>r \<in> set (rc_operations rc). rs_resolution r = ResCommitted)
    \<and> (\<forall>row \<in> set rows. pr_sequence row \<le> rc_committed_through_sequence rc)"
proof (cases rule: reconciled_cases [of cr rows baseline catalog_has snapshot committed])
  case incomplete
  then show ?thesis using assms(3) by (simp add: rc_def lit_def)
next
  case (complete ops)
  have none: "first_conflict ops = None" and
    converged: "rd_outcome (reduce snapshot (fst (read_rows rows)) committed) = Converged"
    using complete(5) assms(3) by (simp_all add: rc_def)
  have members: "set ops = set (rd_operations (reduce snapshot (fst (read_rows rows)) committed))
      \<union> set (snd (read_rows rows))"
    using complete(1) by simp
  have settled: "\<forall>r \<in> set ops. rs_resolution r = ResCommitted"
    using none reduce_converged [OF converged] malformed_conflicts
    unfolding first_conflict_None members by blast
  have "pr_sequence row \<le> committed_prefix ops committed" if row: "row \<in> set rows" for row
  proof -
    have "pr_sequence row \<in> rs_sequence ` set ops"
      unfolding complete(1) reconciled_sequences(3) [OF assms(1)] using row by (rule imageI)
    then obtain r where r: "r \<in> set ops" "pr_sequence row = rs_sequence r" by (rule imageE)
    show ?thesis
      unfolding r(2) using settled r(1) by (intro committed_prefix_all) (auto simp: is_terminal_def)
  qed
  then show ?thesis
    using complete(2-4) settled reduce_converged [OF converged] by (simp add: rc_def reduce_fields)
qed

definition settled_row :: pending_operation_row where
  "settled_row =
     \<lparr>pr_operation_id = 1, pr_sequence = 3, pr_kind = lit ''remove'', pr_track_id = Some [52],
      pr_left_anchor_track_id = None, pr_right_anchor_track_id = None, pr_boundary = None,
      pr_ordered_track_ids = None\<rparr>"

theorem clean_is_settled_witness:
  "rc_state_status (reduce_pending_operations sample_crypto [settled_row] [] (\<lambda>_. True) [[49], [50]] 0)
       = lit ''clean''
   \<and> 3 \<le> rc_committed_through_sequence
           (reduce_pending_operations sample_crypto [settled_row] [] (\<lambda>_. True) [[49], [50]] 0)"
proof -
  have "read_rows [settled_row] =
      ([\<lparr>po_operation_id = 1, po_sequence = 3, po_intent = Remove [52]\<rparr>], [])"
    by code_simp
  moreover have "reduce [[49], [50]] [\<lparr>po_operation_id = 1, po_sequence = 3, po_intent = Remove [52]\<rparr>] 0
      = \<lparr>rd_candidate = [[49], [50]],
         rd_operations = [\<lparr>rs_operation_id = 1, rs_sequence = 3, rs_resolution = ResCommitted\<rparr>],
         rd_outcome = Converged, rd_committed_through_sequence = 3, rd_anchors_lost = False\<rparr>"
    by code_simp
  ultimately have clean: "rc_state_status
      (reduce_pending_operations sample_crypto [settled_row] [] (\<lambda>_. True) [[49], [50]] 0) = lit ''clean''"
    by (simp add: reduce_pending_operations_def reduced_reconciliation_def first_conflict_def Let_def)
  have "pr_sequence settled_row \<le> rc_committed_through_sequence
      (reduce_pending_operations sample_crypto [settled_row] [] (\<lambda>_. True) [[49], [50]] 0)"
    using clean_is_settled [OF _ clean] by simp
  with clean show ?thesis by (simp add: settled_row_def)
qed

text \<open>
  A move anchored to the track it moves is refused only after the track was taken out: the
  reduction reports the conflict and its candidate has lost the track.
\<close>

theorem self_anchored_move_drops_track:
  assumes "distinct remote" and "t \<in> set remote"
  shows "rd_outcome (reduce remote [\<lparr>po_operation_id = i, po_sequence = n,
             po_intent = Move t (Anchored (Some t) None)\<rparr>] committed) = Conflicted MOVE_ANCHOR_MISSING
    \<and> t \<notin> set (rd_candidate (reduce remote [\<lparr>po_operation_id = i, po_sequence = n,
             po_intent = Move t (Anchored (Some t) None)\<rparr>] committed))"
proof -
  obtain k where k: "position_of remote t = Some k"
    using assms(2) by (cases "position_of remote t") auto
  have "resolve_placement (filter (\<lambda>m. m \<noteq> t) remote) (Anchored (Some t) None) = None"
    unfolding resolve_None by auto
  then have "apply_intent remote (Move t (Anchored (Some t) None))
      = (filter (\<lambda>m. m \<noteq> t) remote, Inl MOVE_ANCHOR_MISSING)"
    using k remove_at_position [OF assms(1) k] by (simp add: Let_def del: position_of_None)
  then show ?thesis by (auto simp: reduce_def Let_def simp del: apply_intent.simps)
qed

theorem self_anchored_move_drops_track_witness:
  "[50] \<notin> set (rd_candidate (reduce [[49], [50]] [\<lparr>po_operation_id = 1, po_sequence = 4,
             po_intent = Move [50] (Anchored (Some [50]) None)\<rparr>] 3))"
  using self_anchored_move_drops_track [of "[[49], [50]]" "[50]" 1 4 3] by simp

section \<open>Repairing a legacy playlist\<close>

lemma is_subsequence_subseq: "is_subsequence xs ys \<longleftrightarrow> subseq xs ys"
proof (induction xs ys rule: is_subsequence.induct)
  case (2 x xs ys)
  show ?case
  proof (cases "dropWhile (\<lambda>c. c \<noteq> x) ys")
    case Nil
    then have "x \<notin> set ys" by (auto simp: dropWhile_eq_Nil_conv)
    then have "\<not> subseq (x # xs) ys" using list_emb_set [of "(=)" "x # xs" ys x] by auto
    moreover have "\<not> is_subsequence (x # xs) ys" by (simp only: is_subsequence.simps Nil list.case not_False_eq_True)
    ultimately show ?thesis by simp
  next
    case (Cons y ys')
    then have y: "y = x" using hd_dropWhile [of "\<lambda>c. c \<noteq> x" ys] by simp
    have split: "ys = takeWhile (\<lambda>c. c \<noteq> x) ys @ x # ys'"
      using Cons y takeWhile_dropWhile_id [of "\<lambda>c. c \<noteq> x" ys] by simp
    have "subseq (x # xs) (us @ x # ys') \<longleftrightarrow> subseq xs ys'" if "x \<notin> set us" for us
      using that by (induction us) auto
    moreover have "x \<notin> set (takeWhile (\<lambda>c. c \<noteq> x) ys)" by (auto dest: set_takeWhileD)
    ultimately have "subseq (x # xs) ys \<longleftrightarrow> subseq xs ys'" by (subst split) simp
    then show ?thesis using "2.IH" [OF Cons] Cons by simp
  qed
qed simp

text \<open>
  The automatic repair of a legacy playlist drops nothing: with the catalog complete, no pending
  operations and a legacy projection, the observed playlist replaces the projection only if the
  projection is a proper subsequence of it; and pending operations are never overwritten.
\<close>

theorem legacy_repair_extends:
  assumes "dc_replace_projection
    (reconciliation_decision is_legacy pending True (membership_relation local remote))"
  shows "\<not> pending \<and> (\<not> is_legacy \<or> (subseq local remote \<and> local \<noteq> remote))"
  using assms
  by (auto simp: reconciliation_decision_def decision_def membership_relation_def is_subsequence_subseq
      split: if_splits relation.splits)

theorem legacy_repair_extends_witness:
  "subseq [[49], [51]] [[49], [50], [51 :: nat]]"
proof -
  have "dc_replace_projection
      (reconciliation_decision True False True (membership_relation [[49], [51]] [[49], [50], [51]]))"
    by code_simp
  from legacy_repair_extends [OF this] show ?thesis by simp
qed

end
