(* ===== verification/Byte_Range.thy ===== *)
theory Byte_Range
  imports Bytes
begin

text \<open>
  \<open>storage/src/byte_range.rs\<close>: the HTTP \<open>Range\<close> and \<open>Content-Range\<close> headers of the storage service.
  Numbers are \<open>u64\<close>, here natural numbers below \<open>2 ^ 64\<close>. A header is read back as it was printed, and
  the range served is the part of the file that was asked for.
\<close>

datatype byte_range = From nat "nat option" | Suffix nat

record slice =
  sl_start :: nat
  sl_end :: nat
  sl_total :: nat

definition slice_len :: "slice \<Rightarrow> nat" where
  "slice_len s = sl_end s - sl_start s + 1"

definition content_range :: "slice \<Rightarrow> str" where
  "content_range s = lit ''bytes '' @ dec (sl_start s) @ lit ''-'' @ dec (sl_end s) @ lit ''/'' @ dec (sl_total s)"

definition unsatisfied :: "nat \<Rightarrow> str" where
  "unsatisfied n_total = lit ''bytes */'' @ dec n_total"

definition strip_unit :: "str \<Rightarrow> str \<Rightarrow> str option" where
  "strip_unit value unit =
     Option.bind (split_bytes (str_len unit) value) (\<lambda>(head, rest).
       if eq_ignore_ascii_case head unit then Some rest else None)"

definition parse_number :: "str \<Rightarrow> nat option" where
  "parse_number text =
     (if text = [] \<or> \<not> (\<forall>c \<in> set text. is_ascii_digit c) then None else parse_u64 text)"

definition parse_slice :: "str \<Rightarrow> slice option" where
  "parse_slice value =
     Option.bind (strip_unit (trim value) (lit ''bytes '')) (\<lambda>spec.
     Option.bind (split_once 47 (trim spec)) (\<lambda>(span, whole).
     Option.bind (split_once 45 span) (\<lambda>(front, back).
     Option.bind (parse_number (trim front)) (\<lambda>start.
     Option.bind (parse_number (trim back)) (\<lambda>end'.
     Option.bind (parse_number (trim whole)) (\<lambda>total'.
       if start \<le> end' \<and> end' < total'
       then Some \<lparr>sl_start = start, sl_end = end', sl_total = total'\<rparr> else None))))))"

definition parse_range :: "str \<Rightarrow> byte_range option" where
  "parse_range value =
     Option.bind (strip_unit (trim value) (lit ''bytes='')) (\<lambda>spec.
       if 44 \<in> set spec then None
       else
         Option.bind (split_once 45 (trim spec)) (\<lambda>(front, back).
           let front = trim front; back = trim back
           in if front = [] then map_option Suffix (parse_number back)
              else
                Option.bind (parse_number front) (\<lambda>start.
                  if back = [] then Some (From start None)
                  else
                    Option.bind (parse_number back) (\<lambda>end'.
                      if end' < start then None else Some (From start (Some end'))))))"

fun range_header :: "byte_range \<Rightarrow> str" where
  "range_header (From start (Some end')) = lit ''bytes='' @ dec start @ lit ''-'' @ dec end'"
| "range_header (From start None) = lit ''bytes='' @ dec start @ lit ''-''"
| "range_header (Suffix n) = lit ''bytes=-'' @ dec n"

definition never_satisfiable :: "byte_range \<Rightarrow> bool" where
  "never_satisfiable r \<longleftrightarrow> r = Suffix 0"

fun resolve_range :: "byte_range \<Rightarrow> nat \<Rightarrow> (nat \<times> nat) option" where
  "resolve_range r n_total =
     (if n_total = 0 then None
      else case r of
        From start end' \<Rightarrow>
          if start < n_total
          then Some (start, case end' of None \<Rightarrow> n_total - 1 | Some e \<Rightarrow> min e (n_total - 1))
          else None
      | Suffix n \<Rightarrow> if n = 0 then None else Some (n_total - n, n_total - 1))"

definition range_slice :: "byte_range \<Rightarrow> nat \<Rightarrow> slice option" where
  "range_slice r n_total =
     map_option (\<lambda>(start, end'). \<lparr>sl_start = start, sl_end = end', sl_total = n_total\<rparr>) (resolve_range r n_total)"

section \<open>Headers are read back as they were printed\<close>

lemma strip_unit_ascii:
  assumes "\<forall>c \<in> set unit. c < 128"
  shows "strip_unit (unit @ rest) unit = Some rest"
proof -
  have "split_bytes (str_len unit) (unit @ rest) = Some (unit, rest)"
    using assms
    by (induction unit) (auto simp: split_bytes.simps str_len_def utf8_len_def)
  then show ?thesis by (simp add: strip_unit_def eq_ignore_ascii_case_def)
qed

lemma parse_number_dec: "n < 2 ^ 64 \<Longrightarrow> parse_number (dec n) = Some n"
  using dec_digits [of _ n] by (simp add: parse_number_def parse_u64_dec)

lemma dec_clean:
  "c \<in> set (dec n) \<Longrightarrow> \<not> is_whitespace c" "45 \<notin> set (dec n)" "47 \<notin> set (dec n)" "44 \<notin> set (dec n)"
  by (simp_all add: digit_not_whitespace [OF dec_digits]) (force dest: dec_digits simp: is_ascii_digit_def)+

lemma trim_decimal: "trim (dec n) = dec n"
  by (simp add: trim_no_whitespace dec_clean)

lemma split_once_app: "c \<notin> set s \<Longrightarrow> split_once c (s @ c # t) = Some (s, t)"
  by (simp add: split_once_Some)

lemma trim_bytes_header:
  assumes "\<forall>c \<in> set rest. \<not> is_whitespace c"
  shows "trim (lit ''bytes='' @ rest) = lit ''bytes='' @ rest"
  using assms by (intro trim_no_whitespace) (auto simp: lit_def is_whitespace_def)

definition valid_range :: "byte_range \<Rightarrow> bool" where
  "valid_range r \<longleftrightarrow>
     (case r of
        From start None \<Rightarrow> start < 2 ^ 64
      | From start (Some e) \<Rightarrow> start \<le> e \<and> e < 2 ^ 64
      | Suffix n \<Rightarrow> n < 2 ^ 64)"

lemma parse_range_spec:
  assumes "\<forall>c \<in> set rest. \<not> is_whitespace c" "44 \<notin> set rest"
  shows "parse_range (lit ''bytes='' @ rest) =
     Option.bind (split_once 45 rest) (\<lambda>(front, back).
       let front = trim front; back = trim back
       in if front = [] then map_option Suffix (parse_number back)
          else
            Option.bind (parse_number front) (\<lambda>start.
              if back = [] then Some (From start None)
              else
                Option.bind (parse_number back) (\<lambda>end'.
                  if end' < start then None else Some (From start (Some end')))))"
proof -
  have "strip_unit (lit ''bytes='' @ rest) (lit ''bytes='') = Some rest"
    by (rule strip_unit_ascii) (simp add: lit_def)
  then show ?thesis
    using assms by (simp add: parse_range_def trim_bytes_header trim_no_whitespace)
qed

lemma lit_dash: "lit ''-'' = [45]" "lit ''bytes=-'' = lit ''bytes='' @ [45]"
  by (simp_all add: lit_def)

lemma dash_clean: "\<not> is_whitespace 45"
  by (simp add: is_whitespace_def)

lemma trim_Nil [simp]: "trim [] = []"
  by (simp add: trim_no_whitespace)

lemma parse_range_header:
  assumes "valid_range r"
  shows "parse_range (range_header r) = Some r"
proof (cases "r" rule: range_header.cases)
  case (1 start e)
  have "parse_range (lit ''bytes='' @ dec start @ 45 # dec e) = Some r"
    using assms 1
    by (subst parse_range_spec)
       (auto simp: dec_clean dash_clean split_once_app trim_decimal parse_number_dec valid_range_def)
  then show ?thesis by (simp add: 1 lit_dash)
next
  case (2 start)
  have "parse_range (lit ''bytes='' @ dec start @ 45 # []) = Some r"
    using assms 2
    by (subst parse_range_spec)
       (auto simp: dec_clean dash_clean split_once_app trim_decimal parse_number_dec valid_range_def)
  then show ?thesis by (simp add: 2 lit_dash)
next
  case (3 n)
  have "parse_range (lit ''bytes='' @ [] @ 45 # dec n) = Some r"
    using assms 3 split_once_app [of 45 "[]" "dec n"]
    by (subst parse_range_spec)
       (auto simp: dec_clean dash_clean trim_decimal parse_number_dec valid_range_def)
  then show ?thesis by (simp add: 3 lit_dash)
qed

lemma parse_content_range:
  assumes "sl_start s \<le> sl_end s" "sl_end s < sl_total s" "sl_total s < 2 ^ 64"
  shows "parse_slice (content_range s) = Some s"
proof -
  let ?rest = "(dec (sl_start s) @ 45 # dec (sl_end s)) @ 47 # dec (sl_total s)"
  have shown: "content_range s = lit ''bytes '' @ ?rest" by (simp add: content_range_def lit_def)
  have clean: "\<forall>c \<in> set ?rest. \<not> is_whitespace c"
    by (auto simp: dec_clean) (simp_all add: is_whitespace_def)
  have "trim (lit ''bytes '' @ ?rest) = lit ''bytes '' @ ?rest"
    using dec_clean(1) [OF last_in_set [OF dec_nonempty, of "sl_total s"]]
    by (intro trim_id) (simp_all add: lit_def is_whitespace_def)
  moreover have "strip_unit (lit ''bytes '' @ ?rest) (lit ''bytes '') = Some ?rest"
    by (rule strip_unit_ascii) (simp add: lit_def)
  moreover have "split_once 47 ?rest = Some (dec (sl_start s) @ 45 # dec (sl_end s), dec (sl_total s))"
    by (rule split_once_app) (simp add: dec_clean)
  moreover have "split_once 45 (dec (sl_start s) @ 45 # dec (sl_end s)) = Some (dec (sl_start s), dec (sl_end s))"
    by (rule split_once_app) (simp add: dec_clean)
  ultimately show ?thesis
    using assms clean
    by (simp add: parse_slice_def shown trim_no_whitespace trim_decimal parse_number_dec)
qed

interpretation range_codec: round_trip range_header parse_range valid_range
  by unfold_locales (rule parse_range_header)

interpretation slice_codec: round_trip content_range parse_slice
    "\<lambda>s. sl_start s \<le> sl_end s \<and> sl_end s < sl_total s \<and> sl_total s < 2 ^ 64"
  by unfold_locales (simp add: parse_content_range)

section \<open>Properties\<close>

text \<open>
  Range headers are read back as they were printed: a range that could have been parsed, with
  bounds that fit \<open>u64\<close>, is parsed from its own header, and so is the slice of a \<open>Content-Range\<close>.
\<close>

theorem range_round_trip:
  assumes "valid_range r" and "sl_start s \<le> sl_end s" and "sl_end s < sl_total s" and "sl_total s < 2 ^ 64"
  shows "parse_range (range_header r) = Some r \<and> parse_slice (content_range s) = Some s"
  using range_codec.decode_encode [OF assms(1)] slice_codec.decode_encode [of s] assms(2-4) by simp

theorem range_round_trip_witness:
  "parse_range (lit ''bytes='' @ dec 100 @ lit ''-'' @ dec 199) = Some (From 100 (Some 199))
   \<and> parse_slice (content_range \<lparr>sl_start = 100, sl_end = 199, sl_total = 1000\<rparr>)
       = Some \<lparr>sl_start = 100, sl_end = 199, sl_total = 1000\<rparr>"
  using range_round_trip [of "From 100 (Some 199)" "\<lparr>sl_start = 100, sl_end = 199, sl_total = 1000\<rparr>"]
  by (simp add: valid_range_def)

text \<open>What a range asks of a file.\<close>

fun requested :: "byte_range \<Rightarrow> 'a list \<Rightarrow> 'a list" where
  "requested (From start None) bs = drop start bs"
| "requested (From start (Some e)) bs = take (e - start + 1) (drop start bs)"
| "requested (Suffix n) bs = drop (length bs - n) bs"

lemma parsed_ordered: "parse_range v = Some (From start (Some e)) \<Longrightarrow> start \<le> e"
  by (auto simp: parse_range_def Let_def Option.bind_eq_Some_conv split: if_splits prod.splits)

text \<open>
  C39. The bytes served are the bytes asked for: for every header that is accepted and every file, the
  range is refused exactly when it asks for nothing that exists; otherwise its bounds are ordered and
  inside the file, so that its length cannot underflow, and they delimit the requested bytes.
\<close>

theorem range_served:
  assumes "parse_range v = Some r"
  shows "case resolve_range r (length bs) of
      None \<Rightarrow> requested r bs = []
    | Some (a, b) \<Rightarrow> a \<le> b \<and> b < length bs \<and> requested r bs \<noteq> []
        \<and> take (slice_len \<lparr>sl_start = a, sl_end = b, sl_total = length bs\<rparr>) (drop a bs) = requested r bs"
proof (cases "(r, bs)" rule: requested.cases)
  case (1 start bs')
  then show ?thesis by (auto simp: slice_len_def)
next
  case (2 start e bs')
  then have "start \<le> e" using assms parsed_ordered by blast
  with 2 show ?thesis by (auto simp: slice_len_def min_def)
next
  case (3 n bs')
  then show ?thesis by (cases bs') (auto simp: slice_len_def)
qed

theorem range_served_witness:
  "\<exists>r. parse_range (lit ''bytes='' @ dec 1 @ lit ''-'' @ dec 9) = Some r
     \<and> resolve_range r (length ''abc'') = Some (1, 2) \<and> requested r ''abc'' = ''bc''"
proof -
  have p: "parse_range (lit ''bytes='' @ dec 1 @ lit ''-'' @ dec 9) = Some (From 1 (Some 9))"
    using parse_range_header [of "From 1 (Some 9)"] by (simp add: valid_range_def)
  have "resolve_range (From 1 (Some 9)) (length ''abc'') = Some (1, 2)" by simp
  with range_served [OF p, of "''abc''"] p show ?thesis
    by (intro exI [of _ "From 1 (Some 9)"]) (simp add: slice_len_def)
qed

end
