(* ===== verification/Stream_Ticket.thy ===== *)
theory Stream_Ticket
  imports Bytes Prelude
begin

text \<open>
  \<open>utils/stream-ticket/src/lib.rs\<close>: the encrypted ticket with which a client fetches one track from
  the streaming service. The AEAD cipher of \<open>ring\<close> and the Base64 codecs are arguments; what the code
  relies on is \<open>good_key\<close> and \<open>good_codec\<close>. Times are nanoseconds since the Unix epoch, negative before it;
  durations are nanoseconds; a \<open>Uuid\<close> is a number below \<open>2 ^ 128\<close>.
\<close>

definition TICKET_VERSION :: byte where "TICKET_VERSION = 1"
definition KEY_LEN :: nat where "KEY_LEN = 32"
definition NONCE_LEN :: nat where "NONCE_LEN = 12"
definition TAG_LEN :: nat where "TAG_LEN = 16"
definition HEADER_LEN :: nat where "HEADER_LEN = 1 + 1 + 8 + 16 + 2"
definition MAX_SECRET_LEN :: nat where "MAX_SECRET_LEN = 1024"
definition MAX_TICKET_LEN :: nat where "MAX_TICKET_LEN = 2048"
definition MAX_KEYS :: nat where "MAX_KEYS = 4"
definition MAX_LIFETIME :: nat where "MAX_LIFETIME = 300 * 10 ^ 9"
definition AAD_PREFIX :: "byte list" where "AAD_PREFIX = lit ''scd-stream-ticket-v1'' @ [0]"
definition HIGH_QUALITY_FLAG :: byte where "HIGH_QUALITY_FLAG = 1"

record stream_ticket =
  st_session_id :: nat
  st_secret_token :: "str option"
  st_high_quality :: bool

datatype stream_ticket_error =
    InvalidKey
  | InvalidKeyRing
  | SecretTooLong
  | InvalidClock
  | RandomUnavailable
  | InvalidTicket
  | Expired

type_synonym 'a ticket_result = "stream_ticket_error + 'a"

text \<open>A key: sealing under a nonce and associated data, and opening.\<close>

record ticket_key =
  tk_seal :: "byte list \<Rightarrow> byte list \<Rightarrow> byte list \<Rightarrow> byte list option"
  tk_open :: "byte list \<Rightarrow> byte list \<Rightarrow> byte list \<Rightarrow> byte list option"

text \<open>\<open>URL_SAFE_NO_PAD\<close>.\<close>

record url_codec =
  url_encode :: "byte list \<Rightarrow> str"
  url_decode :: "str \<Rightarrow> byte list option"

definition key_from_base64 ::
    "(str \<Rightarrow> byte list option) \<Rightarrow> url_codec \<Rightarrow> (byte list \<Rightarrow> ticket_key option) \<Rightarrow> str \<Rightarrow> ticket_key ticket_result" where
  "key_from_base64 standard_decode codec unbound_key encoded =
     (let encoded = trim encoded
      in case (case standard_decode encoded of Some b \<Rightarrow> Some b | None \<Rightarrow> url_decode codec encoded) of
           None \<Rightarrow> Inl InvalidKey
         | Some bytes \<Rightarrow>
             if length bytes \<noteq> KEY_LEN then Inl InvalidKey else ok_or InvalidKey (unbound_key bytes))"

definition unix_seconds :: "int \<Rightarrow> nat ticket_result" where
  "unix_seconds time = (if time < 0 then Inl InvalidClock else Inr (nat (time div 10 ^ 9)))"

definition aad :: "str \<Rightarrow> byte list" where
  "aad track_urn = AAD_PREFIX @ as_bytes track_urn"

definition ticket_plaintext :: "nat \<Rightarrow> bool \<Rightarrow> nat \<Rightarrow> byte list \<Rightarrow> byte list" where
  "ticket_plaintext expires_at high_quality session_id secret =
     [TICKET_VERSION, (if high_quality then 1 else 0) * HIGH_QUALITY_FLAG]
     @ u64_be expires_at @ be_bytes 16 session_id @ be_bytes 2 (length secret) @ secret"

text \<open>\<open>nonce\<close> is what the random source filled in, if it did.\<close>

definition issue_at ::
    "ticket_key \<Rightarrow> url_codec \<Rightarrow> byte list option \<Rightarrow> nat \<Rightarrow> str \<Rightarrow> str option \<Rightarrow> bool \<Rightarrow> nat \<Rightarrow> int
     \<Rightarrow> str ticket_result" where
  "issue_at key codec nonce session_id track_urn secret_token high_quality ttl now =
     (let ttl = min ttl MAX_LIFETIME
      in and_then (unix_seconds now) (\<lambda>seconds.
         and_then
           (if seconds + ttl div 10 ^ 9 < 2 ^ 64 then Inr (seconds + ttl div 10 ^ 9) else Inl InvalidClock)
           (\<lambda>expires_at.
         let secret = as_bytes (case secret_token of Some s \<Rightarrow> s | None \<Rightarrow> [])
         in if \<not> length secret < 2 ^ 16 then Inl SecretTooLong
            else if MAX_SECRET_LEN < length secret then Inl SecretTooLong
            else
              and_then (ok_or RandomUnavailable nonce) (\<lambda>nonce_bytes.
              and_then
                (ok_or InvalidTicket
                   (tk_seal key nonce_bytes (aad track_urn)
                      (ticket_plaintext expires_at high_quality session_id secret)))
                (\<lambda>sealed. Inr (url_encode codec (nonce_bytes @ sealed)))))))"

text \<open>\<open>flags & !HIGH_QUALITY_FLAG\<close> is what lies above the lowest bit; the slices are in range once the
  length was checked.\<close>

definition parse_ticket :: "byte list \<Rightarrow> nat \<Rightarrow> stream_ticket ticket_result" where
  "parse_ticket plaintext now =
     (if length plaintext < HEADER_LEN \<or> plaintext ! 0 \<noteq> TICKET_VERSION then Inl InvalidTicket
      else
        (let flags = plaintext ! 1
         in if flags div 2 \<noteq> 0 then Inl InvalidTicket
            else
              (let expires_at = from_be (take 8 (drop 2 plaintext))
               in if expires_at \<le> now \<or> MAX_LIFETIME div 10 ^ 9 < expires_at - now then Inl Expired
                  else
                    (let session_id = from_be (take 16 (drop 10 plaintext));
                         secret_len = from_be (take 2 (drop 26 plaintext));
                         secret = drop HEADER_LEN plaintext
                     in if \<not> (length secret = secret_len \<and> length secret \<le> MAX_SECRET_LEN)
                        then Inl InvalidTicket
                        else
                          and_then
                            (if secret = [] then Inr None
                             else and_then (ok_or InvalidTicket (from_utf8 secret)) (\<lambda>s. Inr (Some s)))
                            (\<lambda>secret_token.
                               Inr \<lparr>st_session_id = session_id, st_secret_token = secret_token,
                                    st_high_quality = (flags mod 2 \<noteq> 0)\<rparr>)))))"

definition verify_at ::
    "ticket_key \<Rightarrow> url_codec \<Rightarrow> str \<Rightarrow> str \<Rightarrow> int \<Rightarrow> stream_ticket ticket_result" where
  "verify_at key codec encoded track_urn now =
     (if MAX_TICKET_LEN < str_len encoded then Inl InvalidTicket
      else
        and_then (ok_or InvalidTicket (url_decode codec encoded)) (\<lambda>ticket.
          if length ticket < NONCE_LEN + HEADER_LEN + TAG_LEN then Inl InvalidTicket
          else
            and_then
              (ok_or InvalidTicket (tk_open key (take NONCE_LEN ticket) (aad track_urn) (drop NONCE_LEN ticket)))
              (\<lambda>plaintext.
            and_then (unix_seconds now) (\<lambda>seconds. parse_ticket plaintext seconds))))"

section \<open>Key rings\<close>

definition new_ring :: "ticket_key list \<Rightarrow> ticket_key list ticket_result" where
  "new_ring keys = (if keys = [] \<or> MAX_KEYS < length keys then Inl InvalidKeyRing else Inr keys)"

text \<open>The loop over the keys; \<open>result\<close> is its running variable.\<close>

fun ring_verify_from ::
    "stream_ticket ticket_result \<Rightarrow> ticket_key list \<Rightarrow> url_codec \<Rightarrow> str \<Rightarrow> str \<Rightarrow> int
     \<Rightarrow> stream_ticket ticket_result" where
  "ring_verify_from result [] codec encoded track_urn now = result"
| "ring_verify_from result (key # keys) codec encoded track_urn now =
     (case verify_at key codec encoded track_urn now of
        Inr ticket \<Rightarrow> Inr ticket
      | Inl Expired \<Rightarrow> Inl Expired
      | Inl InvalidClock \<Rightarrow> Inl InvalidClock
      | Inl error \<Rightarrow> ring_verify_from (Inl error) keys codec encoded track_urn now)"

definition ring_verify ::
    "ticket_key list \<Rightarrow> url_codec \<Rightarrow> str \<Rightarrow> str \<Rightarrow> int \<Rightarrow> stream_ticket ticket_result" where
  "ring_verify keys codec encoded track_urn now =
     ring_verify_from (Inl InvalidTicket) keys codec encoded track_urn now"

section \<open>What is relied on\<close>

definition bytes_ok :: "byte list \<Rightarrow> bool" where
  "bytes_ok bs \<longleftrightarrow> (\<forall>b \<in> set bs. b < 256)"

text \<open>Opening under the same nonce and associated data returns what was sealed, and sealing appends a
  tag of 16 bytes.\<close>

definition good_key :: "ticket_key \<Rightarrow> bool" where
  "good_key key \<longleftrightarrow>
     (\<forall>nonce a p c. tk_seal key nonce a p = Some c \<and> bytes_ok p \<longrightarrow>
        tk_open key nonce a c = Some p \<and> length c = length p + TAG_LEN \<and> bytes_ok c)"

text \<open>Unpadded Base64 of bytes decodes to them and takes four characters for three bytes.\<close>

definition good_codec :: "url_codec \<Rightarrow> bool" where
  "good_codec codec \<longleftrightarrow>
     (\<forall>bs. bytes_ok bs \<longrightarrow>
        url_decode codec (url_encode codec bs) = Some bs
        \<and> str_len (url_encode codec bs) = (4 * length bs + 2) div 3)"

section \<open>Tickets are read back as they were written\<close>

lemma be_bytes_less: "b \<in> set (be_bytes k n) \<Longrightarrow> b < 256"
  by (auto simp: be_bytes_def)

lemma utf8_char_less:
  assumes "is_char c" "b \<in> set (utf8_char c)"
  shows "b < 256"
proof -
  have "c div 262144 < 5" "c < 0x800 \<Longrightarrow> c div 64 < 32" "c < 0x10000 \<Longrightarrow> c div 4096 < 16"
    using is_char_less [OF assms(1)] by (simp_all add: less_mult_imp_div_less)
  moreover have "c mod 64 < 64" "c div 64 mod 64 < 64" "c div 4096 mod 64 < 64" by simp_all
  ultimately show ?thesis
    using assms(2) by (auto simp: utf8_char_def split: if_splits)
qed

lemma bytes_ok_as_bytes: "scalar s \<Longrightarrow> bytes_ok (as_bytes s)"
  by (auto simp: bytes_ok_def as_bytes_def scalar_def intro: utf8_char_less)

lemma bytes_ok_plaintext: "bytes_ok secret \<Longrightarrow> bytes_ok (ticket_plaintext e hq sid secret)"
  by (auto simp: bytes_ok_def ticket_plaintext_def TICKET_VERSION_def HIGH_QUALITY_FLAG_def be_bytes_less)

lemma length_plaintext: "length (ticket_plaintext e hq sid secret) = HEADER_LEN + length secret"
  by (simp add: ticket_plaintext_def HEADER_LEN_def)

lemma plaintext_fields:
  "ticket_plaintext e hq sid secret ! 0 = TICKET_VERSION"
  "ticket_plaintext e hq sid secret ! Suc 0 = (if hq then 1 else 0)"
  "take 8 (drop 2 (ticket_plaintext e hq sid secret)) = u64_be e"
  "take 16 (drop 10 (ticket_plaintext e hq sid secret)) = be_bytes 16 sid"
  "take 2 (drop 26 (ticket_plaintext e hq sid secret)) = be_bytes 2 (length secret)"
  "drop HEADER_LEN (ticket_plaintext e hq sid secret) = secret"
  by (simp_all add: ticket_plaintext_def HEADER_LEN_def HIGH_QUALITY_FLAG_def drop_Cons')

text \<open>The empty secret is no secret.\<close>

definition secret_of :: "str option \<Rightarrow> str option" where
  "secret_of secret_token = (if secret_token = Some [] then None else secret_token)"

lemma parse_plaintext:
  assumes "e < 2 ^ 64" "sid < 2 ^ 128" "scalar s" "str_len s \<le> 1024"
  shows "parse_ticket (ticket_plaintext e hq sid (as_bytes s)) now =
     (if e \<le> now \<or> 300 < e - now then Inl Expired
      else Inr \<lparr>st_session_id = sid, st_secret_token = (if s = [] then None else Some s), st_high_quality = hq\<rparr>)"
proof -
  have "from_utf8 (as_bytes s) = Some s" using assms(3) by (simp add: from_utf8_Some)
  moreover have "as_bytes s = [] \<longleftrightarrow> s = []" using as_bytes_inject [OF assms(3), of "[]"]
    by (simp add: scalar_def as_bytes_def)
  ultimately show ?thesis
    using assms(1,2,4)
    by (auto simp: parse_ticket_def Let_def length_plaintext plaintext_fields from_be_bytes
        MAX_LIFETIME_def MAX_SECRET_LEN_def length_as_bytes)
qed

lemma issue_Inr:
  "issue_at key codec nonce sid urn secret_token hq ttl now = Inr encoded \<longleftrightarrow>
     (\<exists>n sealed. 0 \<le> now
        \<and> nat (now div 10 ^ 9) + min ttl MAX_LIFETIME div 10 ^ 9 < 2 ^ 64
        \<and> str_len (case secret_token of Some s \<Rightarrow> s | None \<Rightarrow> []) \<le> 1024
        \<and> nonce = Some n
        \<and> tk_seal key n (aad urn)
            (ticket_plaintext (nat (now div 10 ^ 9) + min ttl MAX_LIFETIME div 10 ^ 9) hq sid
              (as_bytes (case secret_token of Some s \<Rightarrow> s | None \<Rightarrow> []))) = Some sealed
        \<and> encoded = url_encode codec (n @ sealed))"
  by (auto simp: issue_at_def Let_def unix_seconds_def and_then_eq_Inr ok_or_eq_Inr length_as_bytes
      MAX_SECRET_LEN_def split: if_splits)

lemma ok_or_eq_Inl: "ok_or e x = Inl e' \<longleftrightarrow> x = None \<and> e' = e"
  by (cases x) auto

lemma parse_errors: "parse_ticket plaintext now = Inl e \<Longrightarrow> e = InvalidTicket \<or> e = Expired"
  by (simp add: parse_ticket_def Let_def and_then_eq_Inl ok_or_eq_Inl split: if_splits)

lemma verify_errors:
  assumes "verify_at key codec encoded urn now = Inl e"
  shows "e \<in> {InvalidTicket, Expired, InvalidClock}"
  using assms parse_errors
  by (auto simp: verify_at_def unix_seconds_def and_then_eq_Inl ok_or_eq_Inl split: if_splits)

lemma parse_ticket_Inr:
  assumes "parse_ticket plaintext now = Inr ticket"
  shows "now < from_be (take 8 (drop 2 plaintext)) \<and> from_be (take 8 (drop 2 plaintext)) \<le> now + 300
    \<and> length (drop HEADER_LEN plaintext) \<le> 1024
    \<and> (\<forall>s. st_secret_token ticket = Some s \<longrightarrow> as_bytes s = drop HEADER_LEN plaintext \<and> s \<noteq> [])"
proof -
  let ?e = "from_be (take 8 (drop 2 plaintext))" and ?secret = "drop HEADER_LEN plaintext"
  have e: "\<not> (?e \<le> now \<or> 300 < ?e - now)"
    using assms by (simp add: parse_ticket_def Let_def MAX_LIFETIME_def split: if_splits)
  have len: "length ?secret \<le> 1024"
    using assms e by (simp add: parse_ticket_def Let_def MAX_LIFETIME_def MAX_SECRET_LEN_def split: if_splits)
  have "(if ?secret = [] then Inr None
         else and_then (ok_or InvalidTicket (from_utf8 ?secret)) (\<lambda>s. Inr (Some s)))
        = Inr (st_secret_token ticket)"
    using assms e len
    by (simp add: parse_ticket_def Let_def MAX_LIFETIME_def MAX_SECRET_LEN_def and_then_eq_Inr split: if_splits)
       auto
  then have "as_bytes s = ?secret \<and> s \<noteq> []" if "st_secret_token ticket = Some s" for s
    unfolding that by (cases s) (auto simp: and_then_eq_Inr ok_or_eq_Inr from_utf8_Some as_bytes_def split: if_splits)
  with e len show ?thesis by auto
qed

section \<open>A concrete cipher and codec\<close>

text \<open>They show that the hypotheses can hold: the tag of a sealed message is its nonce and the
  length of its associated data; the codec writes groups of six bits as printable characters.\<close>

definition sample_key :: ticket_key where
  "sample_key =
     \<lparr>tk_seal = (\<lambda>nonce a p. if length nonce = 12 \<and> bytes_ok nonce
          then Some (p @ nonce @ be_bytes 4 (length a)) else None),
      tk_open = (\<lambda>nonce a c.
         let p = take (length c - 16) c
         in if c = p @ nonce @ be_bytes 4 (length a) then Some p else None)\<rparr>"

fun sextets :: "byte list \<Rightarrow> nat list" where
  "sextets [] = []"
| "sextets [a] = [a div 4, a mod 4 * 16]"
| "sextets [a, b] = [a div 4, a mod 4 * 16 + b div 16, b mod 16 * 4]"
| "sextets (a # b # c # bs) =
     a div 4 # (a mod 4 * 16 + b div 16) # (b mod 16 * 4 + c div 64) # c mod 64 # sextets bs"

fun unsextets :: "nat list \<Rightarrow> byte list" where
  "unsextets [w, x] = [w * 4 + x div 16]"
| "unsextets [w, x, y] = [w * 4 + x div 16, x mod 16 * 16 + y div 4]"
| "unsextets (w # x # y # z # ss) =
     (w * 4 + x div 16) # (x mod 16 * 16 + y div 4) # (y mod 4 * 64 + z) # unsextets ss"
| "unsextets _ = []"

definition sample_codec :: url_codec where
  "sample_codec =
     \<lparr>url_encode = (\<lambda>bs. map (\<lambda>s. s + 48) (sextets bs)),
      url_decode = (\<lambda>cs. Some (unsextets (map (\<lambda>c. c - 48) cs)))\<rparr>"

lemma sextets_less: "bytes_ok bs \<Longrightarrow> x \<in> set (sextets bs) \<Longrightarrow> x < 64"
proof (induction bs rule: sextets.induct)
  case (4 a b c bs)
  then have "a div 4 < 64" "b div 16 < 16" "c div 64 < 4" "a mod 4 < 4" "b mod 16 < 16"
    by (auto simp: bytes_ok_def less_mult_imp_div_less)
  with 4 show ?case by (auto simp: bytes_ok_def)
next
  case (3 a b)
  then have "a div 4 < 64" "b div 16 < 16" "a mod 4 < 4" "b mod 16 < 16"
    by (auto simp: bytes_ok_def less_mult_imp_div_less)
  with 3 show ?case by auto
next
  case (2 a)
  then have "a div 4 < 64" "a mod 4 < 4" by (auto simp: bytes_ok_def less_mult_imp_div_less)
  with 2 show ?case by auto
qed simp

lemma unsextets_sextets: "bytes_ok bs \<Longrightarrow> unsextets (sextets bs) = bs"
proof (induction bs rule: sextets.induct)
  case (4 a b c bs)
  then have "b div 16 < 16" "c div 64 < 4" by (auto simp: bytes_ok_def less_mult_imp_div_less)
  with 4 show ?case by (auto simp: bytes_ok_def mod_mult_self3)
next
  case (3 a b)
  then have "b div 16 < 16" by (auto simp: bytes_ok_def less_mult_imp_div_less)
  then show ?case by simp
qed simp_all

lemma length_sextets: "length (sextets bs) = (4 * length bs + 2) div 3"
  by (induction bs rule: sextets.induct) simp_all

lemma good_sample: "good_key sample_key" "good_codec sample_codec"
proof -
  show "good_key sample_key"
    by (auto simp: good_key_def sample_key_def Let_def TAG_LEN_def bytes_ok_def be_bytes_less split: if_splits)
  have "str_len (map (\<lambda>s. s + 48) (sextets bs)) = (4 * length bs + 2) div 3" if "bytes_ok bs" for bs
    using sextets_less [OF that] by (subst str_len_ascii) (force simp: length_sextets)+
  then show "good_codec sample_codec"
    by (auto simp: good_codec_def sample_codec_def comp_def unsextets_sextets)
qed

section \<open>Verifying what was issued\<close>

lemma verify_issued:
  assumes "good_key key" and "good_codec codec"
    and "issue_at key codec (Some nonce) sid urn secret_token hq ttl now = Inr encoded"
    and "length nonce = 12" and "bytes_ok nonce" and "sid < 2 ^ 128"
    and "\<And>s. secret_token = Some s \<Longrightarrow> scalar s" and "0 \<le> later"
  shows "verify_at key codec encoded urn later =
    (let expires = nat (now div 10 ^ 9) + min ttl MAX_LIFETIME div 10 ^ 9; t = nat (later div 10 ^ 9)
     in if expires \<le> t \<or> 300 < expires - t then Inl Expired
        else Inr \<lparr>st_session_id = sid, st_secret_token = secret_of secret_token, st_high_quality = hq\<rparr>)"
proof -
  define e where "e = nat (now div 10 ^ 9) + min ttl MAX_LIFETIME div 10 ^ 9"
  define s where "s = (case secret_token of Some s \<Rightarrow> s | None \<Rightarrow> [])"
  let ?p = "ticket_plaintext e hq sid (as_bytes s)"
  have e: "e < 2 ^ 64" and len: "str_len s \<le> 1024"
    and sealed: "\<exists>c. tk_seal key nonce (aad urn) ?p = Some c \<and> encoded = url_encode codec (nonce @ c)"
    using assms(3) by (auto simp: issue_Inr e_def s_def)
  then obtain c where c: "tk_seal key nonce (aad urn) ?p = Some c" and
    enc: "encoded = url_encode codec (nonce @ c)" by auto
  have scalar: "scalar s" using assms(7) by (auto simp: s_def scalar_def split: option.splits)
  then have p: "bytes_ok ?p" by (intro bytes_ok_plaintext bytes_ok_as_bytes)
  from assms(1) c p have opened: "tk_open key nonce (aad urn) c = Some ?p"
    and lenc: "length c = length ?p + TAG_LEN" and okc: "bytes_ok c"
    by (auto simp: good_key_def)
  have "bytes_ok (nonce @ c)" using assms(5) okc by (auto simp: bytes_ok_def)
  with assms(2) have dec: "url_decode codec encoded = Some (nonce @ c)"
    and lene: "str_len encoded = (4 * length (nonce @ c) + 2) div 3"
    by (auto simp: good_codec_def enc)
  have sizes: "length (nonce @ c) = 56 + str_len s"
    using assms(4) lenc by (simp add: length_plaintext length_as_bytes HEADER_LEN_def TAG_LEN_def)
  have "str_len encoded \<le> 2048"
    using lene sizes len div_le_mono [of "4 * length (nonce @ c) + 2" 4322 3] by simp
  then have "verify_at key codec encoded urn later = parse_ticket ?p (nat (later div 10 ^ 9))"
    using dec sizes opened assms(4,8)
    by (simp add: verify_at_def MAX_TICKET_LEN_def NONCE_LEN_def HEADER_LEN_def TAG_LEN_def unix_seconds_def)
  moreover have "(if s = [] then None else Some s) = secret_of secret_token"
    by (auto simp: secret_of_def s_def split: option.splits)
  ultimately show ?thesis
    unfolding Let_def e_def [symmetric] by (simp only: parse_plaintext [OF e assms(6) scalar len])
qed

section \<open>Properties\<close>

text \<open>
  C33. A ticket opens to what it was issued for, for exactly its lifetime: with a cipher and a codec
  that invert, a ticket issued with a 12-byte nonce verifies under the same key and track at every
  second before it expires and not more than five minutes ahead of that, and yields the session, the
  secret (none if it was empty) and the quality flag; at any other second it is expired.
\<close>

theorem ticket_round_trip:
  assumes "good_key key" and "good_codec codec"
    and "issue_at key codec (Some nonce) sid urn secret_token hq ttl now = Inr encoded"
    and "length nonce = 12" and "bytes_ok nonce" and "sid < 2 ^ 128"
    and "\<And>s. secret_token = Some s \<Longrightarrow> scalar s" and "0 \<le> later"
  shows "verify_at key codec encoded urn later =
    (let expires = nat (now div 10 ^ 9) + min ttl MAX_LIFETIME div 10 ^ 9; t = nat (later div 10 ^ 9)
     in if expires \<le> t \<or> 300 < expires - t then Inl Expired
        else Inr \<lparr>st_session_id = sid, st_secret_token = secret_of secret_token, st_high_quality = hq\<rparr>)"
  by (rule verify_issued [OF assms])

lemma sample_issued:
  "\<exists>encoded. issue_at sample_key sample_codec (Some (replicate 12 7)) 5 [] None True (60 * 10 ^ 9) (10 ^ 12)
     = Inr encoded"
  unfolding issue_Inr
  by (simp add: sample_key_def bytes_ok_def MAX_LIFETIME_def str_len_def)

lemma sample_accepted:
  "\<exists>encoded ticket. verify_at sample_key sample_codec encoded [] (10 ^ 12) = Inr ticket"
proof -
  obtain encoded where i: "issue_at sample_key sample_codec (Some (replicate 12 7)) 5 [] None True
      (60 * 10 ^ 9) (10 ^ 12) = Inr encoded"
    using sample_issued by blast
  have nonce: "length (replicate 12 (7 :: nat)) = 12" "bytes_ok (replicate 12 7)"
    by (simp_all add: bytes_ok_def)
  show ?thesis
    using verify_issued [OF good_sample i nonce, of "10 ^ 12"]
    by (intro exI [of _ encoded]) (simp add: MAX_LIFETIME_def Let_def)
qed

theorem ticket_round_trip_witness:
  "\<exists>encoded. issue_at sample_key sample_codec (Some (replicate 12 7)) 5 [] None True (60 * 10 ^ 9) (10 ^ 12)
       = Inr encoded
     \<and> verify_at sample_key sample_codec encoded [] (10 ^ 12)
         = Inr \<lparr>st_session_id = 5, st_secret_token = None, st_high_quality = True\<rparr>
     \<and> verify_at sample_key sample_codec encoded [] (1060 * 10 ^ 9) = Inl Expired"
proof -
  obtain encoded where i: "issue_at sample_key sample_codec (Some (replicate 12 7)) 5 [] None True
      (60 * 10 ^ 9) (10 ^ 12) = Inr encoded"
    using sample_issued by blast
  have nonce: "length (replicate 12 (7 :: nat)) = 12" "bytes_ok (replicate 12 7)"
    by (simp_all add: bytes_ok_def)
  note v = ticket_round_trip [OF good_sample i nonce]
  show ?thesis
    using i v [of "10 ^ 12"] v [of "1060 * 10 ^ 9"]
    by (intro exI [of _ encoded]) (simp add: MAX_LIFETIME_def secret_of_def Let_def)
qed

text \<open>
  C34. What an accepted ticket proves, whoever made it: it opened under the associated data of the
  requested track, which differs between tracks, it expires within the next five minutes, and its
  secret is at most 1024 bytes.
\<close>

theorem accepted_ticket_bound:
  assumes "verify_at key codec encoded urn now = Inr ticket"
  shows "\<exists>nonce sealed plaintext.
      url_decode codec encoded = Some (nonce @ sealed)
      \<and> tk_open key nonce (aad urn) sealed = Some plaintext
      \<and> nat (now div 10 ^ 9) < from_be (take 8 (drop 2 plaintext))
      \<and> from_be (take 8 (drop 2 plaintext)) \<le> nat (now div 10 ^ 9) + 300
      \<and> str_len (case st_secret_token ticket of Some s \<Rightarrow> s | None \<Rightarrow> []) \<le> 1024
      \<and> st_secret_token ticket \<noteq> Some []
      \<and> (\<forall>urn'. scalar urn \<and> scalar urn' \<longrightarrow> aad urn' = aad urn \<longleftrightarrow> urn' = urn)"
proof -
  from assms obtain raw plaintext where
    raw: "url_decode codec encoded = Some raw" and
    opened: "tk_open key (take NONCE_LEN raw) (aad urn) (drop NONCE_LEN raw) = Some plaintext" and
    parsed: "parse_ticket plaintext (nat (now div 10 ^ 9)) = Inr ticket"
    by (auto simp: verify_at_def and_then_eq_Inr ok_or_eq_Inr unix_seconds_def split: if_splits)
  note p = parse_ticket_Inr [OF parsed]
  then have secret: "str_len (case st_secret_token ticket of Some s \<Rightarrow> s | None \<Rightarrow> []) \<le> 1024"
    "st_secret_token ticket \<noteq> Some []"
    by (auto split: option.splits simp: length_as_bytes [symmetric] as_bytes_def)
  from p have "nat (now div 10 ^ 9) < from_be (take 8 (drop 2 plaintext))"
    "from_be (take 8 (drop 2 plaintext)) \<le> nat (now div 10 ^ 9) + 300"
    by simp_all
  moreover have "aad urn' = aad urn \<longleftrightarrow> urn' = urn" if "scalar urn" "scalar urn'" for urn'
    using that as_bytes_inject by (simp add: aad_def)
  ultimately show ?thesis
    using raw opened secret append_take_drop_id [of NONCE_LEN raw]
    by (intro exI [of _ "take NONCE_LEN raw"] exI [of _ "drop NONCE_LEN raw"] exI [of _ plaintext]) simp
qed

theorem accepted_ticket_bound_witness:
  "\<exists>encoded ticket nonce sealed plaintext.
     verify_at sample_key sample_codec encoded [] (10 ^ 12) = Inr ticket
     \<and> tk_open sample_key nonce (aad []) sealed = Some plaintext
     \<and> from_be (take 8 (drop 2 plaintext)) \<le> nat (10 ^ 12 div 10 ^ 9) + 300"
proof -
  obtain encoded ticket where v: "verify_at sample_key sample_codec encoded [] (10 ^ 12) = Inr ticket"
    using sample_accepted by blast
  from accepted_ticket_bound [OF v] v show ?thesis by blast
qed

text \<open>
  A key ring answers with the first key that has something to say: the answer is that of the
  first key for which the ticket is not simply invalid, and invalid if there is none.
\<close>

theorem ring_first_answer:
  "ring_verify keys codec encoded urn now =
     (case List.find (\<lambda>key. verify_at key codec encoded urn now \<noteq> Inl InvalidTicket) keys of
        None \<Rightarrow> Inl InvalidTicket
      | Some key \<Rightarrow> verify_at key codec encoded urn now)"
proof -
  have "ring_verify_from (Inl InvalidTicket) keys codec encoded urn now =
     (case List.find (\<lambda>key. verify_at key codec encoded urn now \<noteq> Inl InvalidTicket) keys of
        None \<Rightarrow> Inl InvalidTicket
      | Some key \<Rightarrow> verify_at key codec encoded urn now)"
  proof (induction keys)
    case (Cons key keys)
    then show ?case
      using verify_errors [of key codec encoded urn now]
      by (cases "verify_at key codec encoded urn now") auto
  qed simp
  then show ?thesis by (simp add: ring_verify_def)
qed

end
