(* ===== verification/Channel_Health.thy ===== *)
theory Channel_Health
  imports Prelude "HOL-Library.Word"
begin

text \<open>
  The circuit breaker of the SoundCloud transport: \<open>utils/sc-transport/src/channel_health.rs\<close> (one
  process) and \<open>egress_health.rs\<close> (shared between processes through a store). Counters are \<open>u32\<close>
  words that wrap; times are milliseconds. An operation reads the clock once: \<open>now\<close>.
\<close>

section \<open>The local breaker\<close>

definition BAN_THRESHOLD :: "32 word" where "BAN_THRESHOLD = 4"
definition STALL_THRESHOLD :: "32 word" where "STALL_THRESHOLD = 6"
definition STALL_WINDOW_MS :: int where "STALL_WINDOW_MS = 30000"
definition COOLDOWN :: int where "COOLDOWN = 60000"

datatype trip = Steady | Opened | Closed

record channel_health =
  ch_consecutive_bans :: "32 word"
  ch_open_until_ms :: int
  ch_stalls :: "32 word"
  ch_stall_window_start_ms :: int

definition default_health :: channel_health where
  "default_health =
     \<lparr>ch_consecutive_bans = 0, ch_open_until_ms = 0, ch_stalls = 0, ch_stall_window_start_ms = 0\<rparr>"

definition is_open :: "int \<Rightarrow> channel_health \<Rightarrow> bool" where
  "is_open now ch \<longleftrightarrow> now < ch_open_until_ms ch"

text \<open>A duration in milliseconds.\<close>

definition left_until :: "int \<Rightarrow> int \<Rightarrow> nat option" where
  "left_until now until_ms = (let left = until_ms - now in if 0 < left then Some (nat left) else None)"

definition open_for :: "int \<Rightarrow> channel_health \<Rightarrow> nat option" where
  "open_for now ch = left_until now (ch_open_until_ms ch)"

definition record_ok :: "int \<Rightarrow> channel_health \<Rightarrow> channel_health \<times> trip" where
  "record_ok now ch =
     (ch\<lparr>ch_consecutive_bans := 0, ch_open_until_ms := 0\<rparr>,
      if now < ch_open_until_ms ch then Closed else Steady)"

definition open_breaker :: "int \<Rightarrow> channel_health \<Rightarrow> channel_health \<times> trip" where
  "open_breaker now ch =
     (ch\<lparr>ch_open_until_ms := now + COOLDOWN\<rparr>,
      if now < ch_open_until_ms ch then Steady else Opened)"

definition record_ban :: "int \<Rightarrow> channel_health \<Rightarrow> channel_health \<times> trip" where
  "record_ban now ch =
     (let seen = ch_consecutive_bans ch + 1; ch = ch\<lparr>ch_consecutive_bans := seen\<rparr>
      in if seen < BAN_THRESHOLD then (ch, Steady) else open_breaker now ch)"

definition record_stall_at :: "int \<Rightarrow> channel_health \<Rightarrow> channel_health \<times> trip" where
  "record_stall_at now ch =
     (let ch = (if STALL_WINDOW_MS < now - ch_stall_window_start_ms ch
                then ch\<lparr>ch_stall_window_start_ms := now, ch_stalls := 0\<rparr> else ch);
          seen = ch_stalls ch + 1;
          ch = ch\<lparr>ch_stalls := seen\<rparr>
      in if seen < STALL_THRESHOLD then (ch, Steady)
         else open_breaker now (ch\<lparr>ch_stalls := 0\<rparr>))"

text \<open>\<open>RelayRead\<close> of \<open>types.rs\<close>: only silence counts against the channel.\<close>

datatype 'a relay_read = Found 'a | Missing | Unavailable

definition observe :: "int \<Rightarrow> 'a relay_read \<Rightarrow> channel_health \<Rightarrow> channel_health \<times> trip" where
  "observe now read ch = (case read of Unavailable \<Rightarrow> record_ban now ch | _ \<Rightarrow> record_ok now ch)"

section \<open>The shared breaker\<close>

definition SHARED_REFRESH :: int where "SHARED_REFRESH = 1000"

datatype egress_state = EgressClosed | EgressOpen nat | EgressUnknown

record egress_health =
  eh_local :: channel_health
  eh_has_store :: bool
  eh_shared_open_until_ms :: int
  eh_refreshed_at_ms :: int

definition new_egress :: "bool \<Rightarrow> egress_health" where
  "new_egress has_store =
     \<lparr>eh_local = default_health, eh_has_store = has_store,
      eh_shared_open_until_ms = 0, eh_refreshed_at_ms = 0\<rparr>"

definition shared_is_open :: "int \<Rightarrow> egress_health \<Rightarrow> bool" where
  "shared_is_open now eh \<longleftrightarrow> now < eh_shared_open_until_ms eh"

definition fresh_enough :: "int \<Rightarrow> egress_health \<Rightarrow> bool" where
  "fresh_enough now eh \<longleftrightarrow> now - eh_refreshed_at_ms eh < SHARED_REFRESH"

text \<open>\<open>locked\<close>: another call is refreshing; \<open>state\<close>: what the store answers within its budget,
  \<open>EgressUnknown\<close> if it does not.\<close>

definition refresh_shared :: "int \<Rightarrow> bool \<Rightarrow> egress_state \<Rightarrow> egress_health \<Rightarrow> egress_health" where
  "refresh_shared now locked state eh =
     (if \<not> eh_has_store eh \<or> fresh_enough now eh \<or> locked then eh
      else
        (let eh = eh\<lparr>eh_refreshed_at_ms := now\<rparr>
         in case state of
              EgressOpen left \<Rightarrow> eh\<lparr>eh_shared_open_until_ms := now + int left\<rparr>
            | EgressClosed \<Rightarrow> eh\<lparr>eh_shared_open_until_ms := 0\<rparr>
            | EgressUnknown \<Rightarrow> eh))"

definition egress_is_open :: "int \<Rightarrow> bool \<Rightarrow> egress_state \<Rightarrow> egress_health \<Rightarrow> egress_health \<times> bool" where
  "egress_is_open now locked state eh =
     (if is_open now (eh_local eh) then (eh, True)
      else (let eh = refresh_shared now locked state eh in (eh, shared_is_open now eh)))"

text \<open>\<open>Option::max\<close>: the longer of two waits.\<close>

definition later_wait :: "nat option \<Rightarrow> nat option \<Rightarrow> nat option" where
  "later_wait a b =
     (case (a, b) of (Some x, Some y) \<Rightarrow> Some (max x y) | (None, y) \<Rightarrow> y | (x, None) \<Rightarrow> x)"

definition egress_open_for :: "int \<Rightarrow> bool \<Rightarrow> egress_state \<Rightarrow> egress_health \<Rightarrow> egress_health \<times> nat option" where
  "egress_open_for now locked state eh =
     (let eh = refresh_shared now locked state eh
      in (eh, later_wait (open_for now (eh_local eh)) (left_until now (eh_shared_open_until_ms eh))))"

text \<open>What \<open>settle\<close> writes to the store.\<close>

datatype published = PublishOpen | PublishClosed

definition egress_settle :: "int \<Rightarrow> trip \<Rightarrow> egress_health \<Rightarrow> egress_health \<times> published list \<times> bool" where
  "egress_settle now t eh =
     (let (eh', written) =
        (if eh_has_store eh then
           (case t of
              Steady \<Rightarrow> (eh, [])
            | Opened \<Rightarrow> (eh, [PublishOpen])
            | Closed \<Rightarrow> (eh\<lparr>eh_shared_open_until_ms := 0, eh_refreshed_at_ms := now\<rparr>, [PublishClosed]))
         else (eh, []))
      in (eh', written, is_open now (eh_local eh') \<or> shared_is_open now eh'))"

definition egress_record ::
    "(int \<Rightarrow> channel_health \<Rightarrow> channel_health \<times> trip) \<Rightarrow> int \<Rightarrow> egress_health
     \<Rightarrow> egress_health \<times> published list \<times> bool" where
  "egress_record operation now eh =
     (let (ch, t) = operation now (eh_local eh) in egress_settle now t (eh\<lparr>eh_local := ch\<rparr>))"

definition egress_observe :: "int \<Rightarrow> 'a relay_read \<Rightarrow> egress_health \<Rightarrow> egress_health \<times> published list \<times> bool" where
  "egress_observe now read eh = egress_record (\<lambda>now. observe now read) now eh"

definition egress_answer :: "int \<Rightarrow> bool \<Rightarrow> egress_health \<Rightarrow> egress_health \<times> published list \<times> bool" where
  "egress_answer now answered eh = egress_record (if answered then record_ok else record_ban) now eh"

section \<open>Histories\<close>

datatype health_event = OkSeen | BanSeen | StallSeen

fun health_step :: "health_event \<Rightarrow> int \<Rightarrow> channel_health \<Rightarrow> channel_health \<times> trip" where
  "health_step OkSeen = record_ok"
| "health_step BanSeen = record_ban"
| "health_step StallSeen = record_stall_at"

type_synonym history = "(health_event \<times> int) list"

text \<open>Histories have the newest event first.\<close>

fun after :: "history \<Rightarrow> channel_health" where
  "after [] = default_health"
| "after ((e, t) # h) = fst (health_step e t (after h))"

fun reported :: "history \<Rightarrow> trip" where
  "reported [] = Steady"
| "reported ((e, t) # h) = snd (health_step e t (after h))"

definition clocked :: "history \<Rightarrow> bool" where
  "clocked h \<longleftrightarrow> sorted_wrt (\<lambda>(e, t) (e', t'). t' \<le> t) h"

text \<open>The bans since the last success.\<close>

definition bans_in_a_row :: "history \<Rightarrow> nat" where
  "bans_in_a_row h = length (filter (\<lambda>(e, t). e = BanSeen) (takeWhile (\<lambda>(e, t). e \<noteq> OkSeen) h))"

definition stalls_since :: "int \<Rightarrow> history \<Rightarrow> nat" where
  "stalls_since t0 h = length (filter (\<lambda>(e, t). e = StallSeen \<and> t0 \<le> t) h)"

lemmas step_defs = record_ok_def record_ban_def record_stall_at_def open_breaker_def Let_def

lemma step_other_fields:
  "ch_consecutive_bans (fst (record_stall_at t ch)) = ch_consecutive_bans ch"
  "ch_stalls (fst (record_ban t ch)) = ch_stalls ch"
  "ch_stall_window_start_ms (fst (record_ban t ch)) = ch_stall_window_start_ms ch"
  "ch_consecutive_bans (fst (record_ban t ch)) = ch_consecutive_bans ch + 1"
  by (auto simp: step_defs)

lemma unat_inc: "unat (w + 1) \<le> unat w + 1" for w :: "32 word"
  using mod_less_eq_dividend [of "unat w + unat (1 :: 32 word)" "2 ^ 32"] by (simp add: unat_word_ariths)

lemma bans_counted: "unat (ch_consecutive_bans (after h)) \<le> bans_in_a_row h"
proof (induction h rule: after.induct)
  case (2 e t h)
  then show ?case
    using unat_inc [of "ch_consecutive_bans (after h)"]
    by (cases e) (auto simp: bans_in_a_row_def step_other_fields record_ok_def)
qed (simp add: default_health_def bans_in_a_row_def)

lemma clocked_Cons:
  "clocked ((e, t) # h) \<longleftrightarrow> (\<forall>(e', t') \<in> set h. t' \<le> t) \<and> clocked h"
  by (auto simp: clocked_def)

lemma stalls_counted:
  "clocked h \<Longrightarrow> \<forall>(e, t) \<in> set h. 0 \<le> t \<Longrightarrow>
     unat (ch_stalls (after h)) \<le> stalls_since (ch_stall_window_start_ms (after h)) h
     \<and> (\<forall>t. 0 \<le> t \<and> (\<forall>(e', t') \<in> set h. t' \<le> t) \<longrightarrow> ch_stall_window_start_ms (after h) \<le> t)"
proof (induction h rule: after.induct)
  case (2 e t h)
  let ?ch = "after h"
  have ih: "unat (ch_stalls ?ch) \<le> stalls_since (ch_stall_window_start_ms ?ch) h"
    and start: "\<And>t. 0 \<le> t \<Longrightarrow> \<forall>(e', t') \<in> set h. t' \<le> t \<Longrightarrow> ch_stall_window_start_ms ?ch \<le> t"
    using 2 by (auto simp: clocked_Cons)
  have now: "ch_stall_window_start_ms ?ch \<le> t" using start [of t] 2 by (auto simp: clocked_Cons)
  show ?case
  proof (cases e)
    case OkSeen
    then show ?thesis using ih start by (auto simp: record_ok_def stalls_since_def)
  next
    case BanSeen
    then show ?thesis using ih start by (auto simp: step_other_fields stalls_since_def)
  next
    case StallSeen
    then show ?thesis
      using ih start now unat_inc [of "ch_stalls ?ch"]
      by (auto simp: step_defs stalls_since_def)
  qed
qed (auto simp: default_health_def stalls_since_def)

lemma stalls_since_mono: "t0 \<le> t1 \<Longrightarrow> stalls_since t1 h \<le> stalls_since t0 h"
proof -
  assume "t0 \<le> t1"
  then have "filter (\<lambda>(e, t). e = StallSeen \<and> t1 \<le> t) h
      = filter (\<lambda>(e, t). e = StallSeen \<and> t1 \<le> t) (filter (\<lambda>(e, t). e = StallSeen \<and> t0 \<le> t) h)"
    by (auto simp: filter_filter intro!: filter_cong)
  then show ?thesis unfolding stalls_since_def by (metis length_filter_le)
qed

lemma open_until_cause:
  "ch_open_until_ms (after h) \<le> 0
   \<or> (\<exists>(e, t) \<in> set (takeWhile (\<lambda>(e, t). e \<noteq> OkSeen) h). ch_open_until_ms (after h) = t + 60000)"
proof (induction h rule: after.induct)
  case (2 e t h)
  then show ?case by (cases e) (auto simp: step_defs COOLDOWN_def)
qed (simp add: default_health_def)

lemma open_until_kept:
  "clocked (newer @ (e, t) # older) \<Longrightarrow> \<forall>(e', t') \<in> set newer. e' \<noteq> OkSeen \<Longrightarrow>
   reported ((e, t) # older) = Opened \<Longrightarrow> t + 60000 \<le> ch_open_until_ms (after (newer @ (e, t) # older))"
proof (induction newer)
  case Nil
  then show ?case by (cases e) (auto simp: step_defs COOLDOWN_def split: if_splits)
next
  case (Cons p newer)
  obtain e' t' where p: "p = (e', t')" by (cases p)
  have "t \<le> t'" and ih: "t + 60000 \<le> ch_open_until_ms (after (newer @ (e, t) # older))"
    using Cons by (auto simp: p clocked_Cons)
  then show ?case using Cons.prems(2) by (cases e') (auto simp: p step_defs COOLDOWN_def)
qed

section \<open>Properties\<close>

text \<open>
  The breaker opens only for cause: in every history with a clock that does not go back, an event
  is reported as opening the breaker only if it is a ban that is at least the fourth since the last
  success, or a stall that is at least the sixth within thirty seconds; counters that wrap do not
  change that.
\<close>

theorem opens_for_cause:
  assumes "clocked ((e, t) # h)" and "\<And>e' t'. (e', t') \<in> set ((e, t) # h) \<Longrightarrow> 0 \<le> t'"
    and "reported ((e, t) # h) = Opened"
  shows "(e = BanSeen \<and> 4 \<le> bans_in_a_row ((e, t) # h))
    \<or> (e = StallSeen \<and> 6 \<le> stalls_since (t - 30000) ((e, t) # h))"
proof (cases e)
  case OkSeen
  then show ?thesis using assms(3) by (simp add: record_ok_def split: if_splits)
next
  case BanSeen
  then have "\<not> ch_consecutive_bans (after ((e, t) # h)) < 4"
    using assms(3) by (auto simp: step_defs BAN_THRESHOLD_def split: if_splits)
  then have "4 \<le> unat (ch_consecutive_bans (after ((e, t) # h)))"
    by (simp add: word_less_nat_alt)
  with bans_counted [of "(e, t) # h"] BanSeen show ?thesis by simp
next
  case StallSeen
  have inv: "unat (ch_stalls (after h)) \<le> stalls_since (ch_stall_window_start_ms (after h)) h"
    "ch_stall_window_start_ms (after h) \<le> t"
    using stalls_counted [of h] assms(1,2) by (auto simp: clocked_Cons)
  have recent: "t - 30000 \<le> ch_stall_window_start_ms (after h)" and "\<not> ch_stalls (after h) + 1 < 6"
    using assms(3) StallSeen
    by (auto simp: step_defs STALL_WINDOW_MS_def STALL_THRESHOLD_def split: if_splits)
  then have "6 \<le> unat (ch_stalls (after h) + 1)" by (simp add: word_less_nat_alt)
  also have "\<dots> \<le> stalls_since (ch_stall_window_start_ms (after h)) ((e, t) # h)"
    using unat_inc [of "ch_stalls (after h)"] inv StallSeen by (simp add: stalls_since_def)
  also have "\<dots> \<le> stalls_since (t - 30000) ((e, t) # h)" by (rule stalls_since_mono [OF recent])
  finally show ?thesis using StallSeen by simp
qed

theorem opens_for_cause_witness:
  "reported (map (\<lambda>t. (BanSeen, t)) [40, 30, 20, 10]) = Opened
   \<and> 4 \<le> bans_in_a_row (map (\<lambda>t. (BanSeen, t)) [40, 30, 20, 10])"
proof -
  have r: "reported (map (\<lambda>t. (BanSeen, t)) [40, 30, 20, 10]) = Opened"
    by (simp add: step_defs default_health_def BAN_THRESHOLD_def COOLDOWN_def)
  moreover have "4 \<le> bans_in_a_row ((BanSeen, 40) # map (\<lambda>t. (BanSeen, t)) [30, 20, 10])"
  proof -
    have "clocked ((BanSeen, 40) # map (\<lambda>t. (BanSeen, t)) [30, 20, 10])" by (auto simp: clocked_def)
    moreover have "0 \<le> t'" if "(e', t') \<in> set ((BanSeen, 40) # map (\<lambda>t. (BanSeen, t)) [30, 20, 10])"
      for e' and t' :: int
      using that by auto
    ultimately have "(BanSeen = BanSeen \<and> 4 \<le> bans_in_a_row ((BanSeen, 40) # map (\<lambda>t. (BanSeen, t)) [30, 20, 10]))
      \<or> (BanSeen = StallSeen \<and> 6 \<le> stalls_since (40 - 30000) ((BanSeen, 40) # map (\<lambda>t. (BanSeen, t)) [30, 20, 10]))"
      using r by (intro opens_for_cause) simp_all
    then show ?thesis by simp
  qed
  ultimately show ?thesis by simp
qed

text \<open>
  The breaker closes by itself: whatever happened before, a minute after the last failure that no
  success followed it lets requests through again.
\<close>

theorem breaker_closes:
  assumes "0 \<le> now"
    and "\<And>e t. (e, t) \<in> set (takeWhile (\<lambda>(e, t). e \<noteq> OkSeen) h) \<Longrightarrow> t + 60000 \<le> now"
  shows "\<not> is_open now (after h)"
  using open_until_cause [of h] assms by (fastforce simp: is_open_def)

theorem breaker_closes_witness:
  "is_open 41 (after (map (\<lambda>t. (BanSeen, t)) [40, 30, 20, 10]))
   \<and> \<not> is_open 60040 (after (map (\<lambda>t. (BanSeen, t)) [40, 30, 20, 10]))"
proof -
  have "is_open 41 (after (map (\<lambda>t. (BanSeen, t)) [40, 30, 20, 10]))"
    by (simp add: step_defs is_open_def default_health_def BAN_THRESHOLD_def COOLDOWN_def)
  moreover have "\<not> is_open 60040 (after (map (\<lambda>t. (BanSeen, t)) [40, 30, 20, 10]))"
    by (rule breaker_closes) auto
  ultimately show ?thesis ..
qed

text \<open>
  An outage is announced once: two openings with no success between them are at least a minute
  apart.
\<close>

theorem announced_once:
  assumes "clocked ((e', t') # newer @ (e, t) # older)"
    and "\<And>f u. (f, u) \<in> set newer \<Longrightarrow> f \<noteq> OkSeen"
    and "reported ((e, t) # older) = Opened"
    and "reported ((e', t') # newer @ (e, t) # older) = Opened"
  shows "t + 60000 \<le> t'"
proof -
  have "t + 60000 \<le> ch_open_until_ms (after (newer @ (e, t) # older))"
    using assms(1-3) by (intro open_until_kept) (auto simp: clocked_Cons)
  moreover have "ch_open_until_ms (after (newer @ (e, t) # older)) \<le> t'"
    using assms(4) by (cases e') (auto simp: step_defs split: if_splits)
  ultimately show ?thesis by simp
qed

theorem announced_once_witness:
  "reported ((BanSeen, 60040) # [] @ (BanSeen, 40) # map (\<lambda>t. (BanSeen, t)) [30, 20, 10]) = Opened
   \<and> (40 :: int) + 60000 \<le> 60040"
proof -
  have r: "reported ((BanSeen, 60040) # [] @ (BanSeen, 40) # map (\<lambda>t. (BanSeen, t)) [30, 20, 10]) = Opened"
    "reported ((BanSeen, 40) # map (\<lambda>t. (BanSeen, t)) [30, 20, 10]) = Opened"
    by (simp_all add: step_defs default_health_def BAN_THRESHOLD_def COOLDOWN_def)
  have "(40 :: int) + 60000 \<le> 60040"
    by (rule announced_once [OF _ _ r(2) r(1)]) (auto simp: clocked_def)
  with r(1) show ?thesis by simp
qed

end
