(* ===== verification/Write_Pause.thy ===== *)
theory Write_Pause
  imports Prelude
begin

text \<open>
  \<open>jobs/src/handlers/sync_queue/write_pause.rs\<close>: how long the sync queue holds back writes after
  SoundCloud refused one. An \<open>Instant\<close> and a \<open>Duration\<close> are nanoseconds; each operation reads the
  clock once, \<open>now\<close>, and holds the mutex throughout, so operations are atomic. The hash map is a map.
  Instants far beyond the life of a process, where adding a duration would panic, are not modelled.
\<close>

abbreviation secs :: "nat \<Rightarrow> nat" where
  "secs n \<equiv> n * 10 ^ 9"

definition MAX_PAUSE :: nat where "MAX_PAUSE = secs (2 * 60 * 60)"
definition PROBE_HOLD :: nat where "PROBE_HOLD = secs 120"

record pause =
  pa_until :: nat
  pa_strikes :: nat
  pa_probing :: bool

datatype admission = Open | Probe | Paused int

type_synonym 'k pauses = "'k \<rightharpoonup> pause"

definition whole_seconds :: "nat \<Rightarrow> int" where
  "whole_seconds duration = max (min (int (duration div 10 ^ 9)) (2 ^ 63 - 1)) 1"

text \<open>\<open>Duration::from_secs(u64::try_from(seconds).unwrap_or(0).max(1))\<close>.\<close>

definition base_hold :: "int \<Rightarrow> nat" where
  "base_hold seconds = secs (max (if seconds < 0 then 0 else nat seconds) 1)"

definition entry_or_insert :: "nat \<Rightarrow> 'k \<Rightarrow> 'k pauses \<Rightarrow> pause" where
  "entry_or_insert now key paused =
     (case paused key of
        Some p \<Rightarrow> p
      | None \<Rightarrow> \<lparr>pa_until = now, pa_strikes = 0, pa_probing = False\<rparr>)"

text \<open>\<open>1_u32.checked_shl(strikes).unwrap_or(u32::MAX)\<close> and \<open>Duration::checked_mul\<close>, which fails when the
  seconds overflow \<open>u64\<close>.\<close>

definition backoff_factor :: "nat \<Rightarrow> nat" where
  "backoff_factor strikes = (if strikes < 32 then 2 ^ strikes else 2 ^ 32 - 1)"

definition checked_mul :: "nat \<Rightarrow> nat \<Rightarrow> nat option" where
  "checked_mul duration factor =
     (if duration * factor div 10 ^ 9 < 2 ^ 64 then Some (duration * factor) else None)"

definition longer_hold :: "int \<Rightarrow> nat \<Rightarrow> nat" where
  "longer_hold seconds strikes =
     min (case checked_mul (base_hold seconds) (backoff_factor strikes) of
            Some d \<Rightarrow> d
          | None \<Rightarrow> MAX_PAUSE) MAX_PAUSE"

definition hold :: "nat \<Rightarrow> 'k \<Rightarrow> int \<Rightarrow> bool \<Rightarrow> 'k pauses \<Rightarrow> 'k pauses \<times> int" where
  "hold now key seconds escalate paused =
     (let p = entry_or_insert now key paused; base = base_hold seconds
      in if escalate \<and> (pa_probing p \<or> pa_strikes p = 0 \<or> pa_until p \<le> now) then
           (let longer = longer_hold seconds (pa_strikes p)
            in (paused(key \<mapsto> \<lparr>pa_until = now + longer,
                              pa_strikes = min (pa_strikes p + 1) (2 ^ 32 - 1),
                              pa_probing = False\<rparr>),
                whole_seconds longer))
         else
           (paused(key \<mapsto> p\<lparr>pa_until := max (pa_until p) (now + base)\<rparr>), whole_seconds base))"

definition strikes_of :: "'k \<Rightarrow> 'k pauses \<Rightarrow> nat" where
  "strikes_of key paused = (case paused key of None \<Rightarrow> 0 | Some p \<Rightarrow> pa_strikes p)"

definition pause_key :: "nat \<Rightarrow> 'k \<Rightarrow> int \<Rightarrow> 'k pauses \<Rightarrow> 'k pauses" where
  "pause_key now key seconds paused = fst (hold now key seconds False paused)"

definition pause_longer_each_time :: "nat \<Rightarrow> 'k \<Rightarrow> int \<Rightarrow> 'k pauses \<Rightarrow> 'k pauses \<times> int \<times> nat" where
  "pause_longer_each_time now key seconds paused =
     (let (paused', s) = hold now key seconds True paused in (paused', s, strikes_of key paused'))"

definition pause_refused :: "nat \<Rightarrow> 'k \<Rightarrow> int \<Rightarrow> 'k pauses \<Rightarrow> 'k pauses \<times> int \<times> nat" where
  "pause_refused now key seconds paused =
     (let p = entry_or_insert now key paused;
          p' = \<lparr>pa_until = max (pa_until p) (now + min (base_hold seconds) MAX_PAUSE),
                pa_strikes = max (pa_strikes p) 1,
                pa_probing = False\<rparr>
      in (paused(key \<mapsto> p'), whole_seconds (pa_until p' - now), pa_strikes p'))"

definition restore :: "nat \<Rightarrow> 'k \<Rightarrow> nat \<Rightarrow> nat \<Rightarrow> 'k pauses \<Rightarrow> 'k pauses" where
  "restore now key remaining strikes paused =
     paused(key \<mapsto> \<lparr>pa_until = now + min remaining MAX_PAUSE, pa_strikes = max strikes 1,
                    pa_probing = False\<rparr>)"

definition admit_write :: "nat \<Rightarrow> 'k \<Rightarrow> 'k pauses \<Rightarrow> 'k pauses \<times> admission" where
  "admit_write now key paused =
     (case paused key of
        None \<Rightarrow> (paused, Open)
      | Some p \<Rightarrow>
          (let remaining = pa_until p - now
           in if remaining \<noteq> 0 then (paused, Paused (whole_seconds remaining))
              else if pa_strikes p = 0 then (paused(key := None), Open)
              else (paused(key \<mapsto> p\<lparr>pa_until := now + PROBE_HOLD, pa_probing := True\<rparr>), Probe)))"

definition succeeded :: "nat \<Rightarrow> 'k \<Rightarrow> nat option \<Rightarrow> 'k pauses \<Rightarrow> 'k pauses" where
  "succeeded now key spacing paused =
     (case spacing of
        Some d \<Rightarrow> paused(key \<mapsto> \<lparr>pa_until = now + d, pa_strikes = 0, pa_probing = False\<rparr>)
      | None \<Rightarrow> paused(key := None))"

definition blocked :: "nat \<Rightarrow> 'k \<Rightarrow> bool \<Rightarrow> 'k pauses \<Rightarrow> int option" where
  "blocked now key own_probe paused =
     Option.bind (paused key) (\<lambda>p.
       let remaining = pa_until p - now
       in if remaining = 0 \<or> (own_probe \<and> pa_probing p) then None
          else Some (whole_seconds remaining))"

definition remaining_seconds :: "nat \<Rightarrow> 'k \<Rightarrow> 'k pauses \<Rightarrow> 'k pauses \<times> int option" where
  "remaining_seconds now key paused =
     (let (paused', a) = admit_write now key paused
      in (paused', case a of Paused s \<Rightarrow> Some s | _ \<Rightarrow> None))"

text \<open>The keys held now, as a set: the order of a hash map is unspecified.\<close>

definition held :: "nat \<Rightarrow> 'k pauses \<Rightarrow> 'k set" where
  "held now paused = {key. \<exists>p. paused key = Some p \<and> now < pa_until p}"

section \<open>Histories\<close>

datatype 'k pause_event =
    EPause 'k int
  | ELonger 'k int
  | ERefused 'k int
  | ERestore 'k nat nat
  | EAdmit 'k
  | ESucceeded 'k "nat option"

fun pause_step :: "'k pause_event \<Rightarrow> nat \<Rightarrow> 'k pauses \<Rightarrow> 'k pauses" where
  "pause_step (EPause k s) now ps = pause_key now k s ps"
| "pause_step (ELonger k s) now ps = fst (pause_longer_each_time now k s ps)"
| "pause_step (ERefused k s) now ps = fst (pause_refused now k s ps)"
| "pause_step (ERestore k d n) now ps = restore now k d n ps"
| "pause_step (EAdmit k) now ps = fst (admit_write now k ps)"
| "pause_step (ESucceeded k sp) now ps = succeeded now k sp ps"

fun event_key :: "'k pause_event \<Rightarrow> 'k" where
  "event_key (EPause k s) = k"
| "event_key (ELonger k s) = k"
| "event_key (ERefused k s) = k"
| "event_key (ERestore k d n) = k"
| "event_key (EAdmit k) = k"
| "event_key (ESucceeded k sp) = k"

text \<open>The oldest event first.\<close>

fun run_pauses :: "('k pause_event \<times> nat) list \<Rightarrow> 'k pauses \<Rightarrow> 'k pauses" where
  "run_pauses [] ps = ps"
| "run_pauses ((e, t) # h) ps = run_pauses h (pause_step e t ps)"

lemmas pause_defs =
  pause_key_def pause_longer_each_time_def pause_refused_def restore_def admit_write_def succeeded_def
  hold_def Let_def case_prod_unfold

lemma step_other_key: "event_key e \<noteq> k \<Longrightarrow> pause_step e t ps k = ps k"
  by (cases e) (auto simp: pause_defs split: option.splits)

section \<open>The backoff\<close>

lemma base_hold_ge: "secs 1 \<le> base_hold seconds"
  by (simp add: base_hold_def)

lemma longer_hold_formula: "longer_hold seconds strikes = min (base_hold seconds * 2 ^ strikes) MAX_PAUSE"
proof -
  let ?b = "base_hold seconds"
  have big: "MAX_PAUSE \<le> ?b * n" if "7200 \<le> n" for n
    using mult_le_mono [OF base_hold_ge [of seconds] that] by (simp add: MAX_PAUSE_def)
  have pow: "7200 \<le> (2 :: nat) ^ strikes" if "32 \<le> strikes"
    using power_increasing [OF that, of "2 :: nat"] by simp
  have over: "MAX_PAUSE \<le> ?b * backoff_factor strikes" if "\<not> ?b * backoff_factor strikes div 10 ^ 9 < 2 ^ 64"
  proof -
    have "(2 ^ 64 :: nat) \<le> ?b * backoff_factor strikes div 10 ^ 9" using that by simp
    also have "\<dots> \<le> ?b * backoff_factor strikes" by simp
    finally show ?thesis by (simp add: MAX_PAUSE_def)
  qed
  show ?thesis
  proof (cases "strikes < 32")
    case True
    then show ?thesis using over by (auto simp: longer_hold_def checked_mul_def backoff_factor_def min_def)
  next
    case False
    then show ?thesis
      using over big [of "2 ^ 32 - 1"] big [of "2 ^ strikes"] pow
      by (auto simp: longer_hold_def checked_mul_def backoff_factor_def min_def split: if_splits)
  qed
qed

text \<open>A run of refused probes: the writes were refused \<open>n\<close> times, last at \<open>r\<close>, each refusal after the
  first answering a probe that was let out.\<close>

inductive refused_probes :: "'k \<Rightarrow> int \<Rightarrow> nat \<Rightarrow> nat \<Rightarrow> 'k pauses \<Rightarrow> bool" where
  first_refusal: "ps k = None \<Longrightarrow> refused_probes k s 1 r (fst (pause_longer_each_time r k s ps))"
| probe_refused:
    "refused_probes k s n r ps \<Longrightarrow> admit_write a k ps = (ps', Probe) \<Longrightarrow>
     refused_probes k s (Suc n) r' (fst (pause_longer_each_time r' k s ps'))"

inductive_cases refused_probesE: "refused_probes k s n r ps"

lemma admit_Probe:
  assumes "admit_write a k ps = (ps', Probe)"
  shows "\<exists>p. ps k = Some p \<and> pa_until p \<le> a \<and> pa_strikes p \<noteq> 0
    \<and> ps' = ps(k \<mapsto> p\<lparr>pa_until := a + PROBE_HOLD, pa_probing := True\<rparr>)"
  using assms by (auto simp: admit_write_def Let_def split: option.splits if_splits)

lemma refused_probes_state:
  "refused_probes k s n r ps \<Longrightarrow> n < 2 ^ 32 \<Longrightarrow>
     ps k = Some \<lparr>pa_until = r + min (base_hold s * 2 ^ (n - 1)) MAX_PAUSE, pa_strikes = n, pa_probing = False\<rparr>"
proof (induction rule: refused_probes.induct)
  case (first_refusal ps k s r)
  then show ?case
    by (simp add: pause_longer_each_time_def hold_def entry_or_insert_def Let_def longer_hold_formula)
next
  case (probe_refused k s n r ps a ps' r')
  then have "ps k = Some \<lparr>pa_until = r + min (base_hold s * 2 ^ (n - 1)) MAX_PAUSE, pa_strikes = n, pa_probing = False\<rparr>"
    by simp
  with admit_Probe [OF probe_refused.hyps(2)] probe_refused.prems show ?case
    by (auto simp: pause_longer_each_time_def hold_def entry_or_insert_def Let_def longer_hold_formula)
qed

section \<open>Holds\<close>

lemma probe_hold_kept:
  "\<forall>(e, u) \<in> set h. t \<le> u \<and> (event_key e = k \<longrightarrow> e = EAdmit k) \<Longrightarrow>
     \<exists>p. ps k = Some p \<and> pa_strikes p \<noteq> 0 \<and> t + PROBE_HOLD \<le> pa_until p \<Longrightarrow>
     \<exists>p. run_pauses h ps k = Some p \<and> pa_strikes p \<noteq> 0 \<and> t + PROBE_HOLD \<le> pa_until p"
proof (induction h arbitrary: ps)
  case (Cons x h)
  obtain e u where x: "x = (e, u)" by (cases x)
  have "t \<le> u" and key: "event_key e = k \<longrightarrow> e = EAdmit k"
    and rest: "\<forall>(e, u) \<in> set h. t \<le> u \<and> (event_key e = k \<longrightarrow> e = EAdmit k)"
    using Cons.prems(1) by (auto simp: x)
  have "\<exists>p. pause_step e u ps k = Some p \<and> pa_strikes p \<noteq> 0 \<and> t + PROBE_HOLD \<le> pa_until p"
  proof (cases "event_key e = k")
    case True
    with key Cons.prems(2) \<open>t \<le> u\<close> show ?thesis by (auto simp: admit_write_def Let_def)
  next
    case False
    with Cons.prems(2) show ?thesis by (simp add: step_other_key)
  qed
  with Cons.IH [OF rest] show ?case by (simp add: x)
qed simp

fun ends_within :: "'k pause_event \<Rightarrow> bool" where
  "ends_within (EPause k s) \<longleftrightarrow> s \<le> 7200"
| "ends_within (ELonger k s) \<longleftrightarrow> s \<le> 7200"
| "ends_within (ESucceeded k sp) \<longleftrightarrow> (case sp of None \<Rightarrow> True | Some d \<Rightarrow> d \<le> MAX_PAUSE)"
| "ends_within e \<longleftrightarrow> True"

lemma base_hold_le: "s \<le> 7200 \<Longrightarrow> base_hold s \<le> MAX_PAUSE"
  by (auto simp: base_hold_def MAX_PAUSE_def)

lemma step_ends:
  assumes "ends_within e" "u \<le> t" "\<forall>k p. ps k = Some p \<longrightarrow> pa_until p \<le> t + MAX_PAUSE"
  shows "pause_step e u ps k = Some p \<Longrightarrow> pa_until p \<le> t + MAX_PAUSE"
proof (cases "event_key e = k")
  case False
  then show "pause_step e u ps k = Some p \<Longrightarrow> pa_until p \<le> t + MAX_PAUSE"
    using assms(3) by (simp add: step_other_key)
next
  case True
  have entry: "pa_until (entry_or_insert u k ps) \<le> t + MAX_PAUSE"
    using assms(2,3) by (auto simp: entry_or_insert_def split: option.splits)
  have longer: "longer_hold s n \<le> MAX_PAUSE" for s n by (simp add: longer_hold_def)
  have probe: "PROBE_HOLD \<le> MAX_PAUSE" by (simp add: PROBE_HOLD_def MAX_PAUSE_def)
  assume step: "pause_step e u ps k = Some p"
  show "pa_until p \<le> t + MAX_PAUSE"
  proof (cases e)
    case (EPause k' s)
    with step True entry assms(1,2) base_hold_le [of s] show ?thesis
      by (auto simp: pause_key_def hold_def Let_def)
  next
    case (ELonger k' s)
    with step True entry assms(1,2) base_hold_le [of s] longer [of s] show ?thesis
      by (auto simp: pause_longer_each_time_def hold_def Let_def add_mono split: if_splits)
  next
    case (ERefused k' s)
    with step True entry assms(2) show ?thesis
      by (auto simp: pause_refused_def Let_def)
  next
    case (ERestore k' d n)
    with step True assms(2) show ?thesis by (auto simp: restore_def)
  next
    case (EAdmit k')
    with step True assms(2,3) probe show ?thesis
      by (auto simp: admit_write_def Let_def split: option.splits if_splits)
  next
    case (ESucceeded k' sp)
    with step True assms(1,2) show ?thesis by (auto simp: succeeded_def split: option.splits)
  qed
qed

lemma run_ends:
  "\<forall>(e, u) \<in> set h. ends_within e \<and> u \<le> t \<Longrightarrow> \<forall>k p. ps k = Some p \<longrightarrow> pa_until p \<le> t + MAX_PAUSE \<Longrightarrow>
     run_pauses h ps k = Some p \<Longrightarrow> pa_until p \<le> t + MAX_PAUSE"
proof (induction h arbitrary: ps)
  case (Cons x h)
  obtain e u where x: "x = (e, u)" by (cases x)
  have "\<forall>k p. pause_step e u ps k = Some p \<longrightarrow> pa_until p \<le> t + MAX_PAUSE"
    using step_ends [of e u t ps] Cons.prems(1,2) by (auto simp: x)
  with Cons.IH [of "pause_step e u ps"] Cons.prems(1,3) show ?case by (auto simp: x)
qed simp

section \<open>Properties\<close>

text \<open>
  The wait doubles with every refused probe up to two hours: after \<open>n\<close> refusals in a row, each
  after the first answering a probe, the key is held for \<open>base * 2 ^ (n - 1)\<close> or two hours, whichever
  is less. The shifts and products that would overflow are covered.
\<close>

theorem backoff_doubles:
  assumes "refused_probes k s n r ps" and "n < 2 ^ 32"
  shows "ps k = Some \<lparr>pa_until = r + min (base_hold s * 2 ^ (n - 1)) MAX_PAUSE,
                       pa_strikes = n, pa_probing = False\<rparr>"
  by (rule refused_probes_state [OF assms])

theorem backoff_doubles_witness:
  "\<exists>ps. refused_probes ''likes'' 60 2 (secs 70) ps
     \<and> ps ''likes'' = Some \<lparr>pa_until = secs 190, pa_strikes = 2, pa_probing = False\<rparr>"
proof -
  let ?p1 = "fst (pause_longer_each_time 0 ''likes'' 60 Map.empty)"
  let ?p2 = "fst (admit_write (secs 65) ''likes'' ?p1)"
  let ?p3 = "fst (pause_longer_each_time (secs 70) ''likes'' 60 ?p2)"
  have one: "refused_probes ''likes'' 60 1 0 ?p1" by (rule first_refusal) simp
  have "?p1 ''likes'' = Some \<lparr>pa_until = secs 60, pa_strikes = 1, pa_probing = False\<rparr>"
    using refused_probes_state [OF one] by (simp add: base_hold_def MAX_PAUSE_def)
  then have "admit_write (secs 65) ''likes'' ?p1 = (?p2, Probe)"
    by (simp add: admit_write_def)
  then have two: "refused_probes ''likes'' 60 (Suc 1) (secs 70) ?p3"
    by (rule probe_refused [OF one])
  have "?p3 ''likes'' = Some \<lparr>pa_until = secs 190, pa_strikes = 2, pa_probing = False\<rparr>"
    using backoff_doubles [OF two] by (simp add: base_hold_def MAX_PAUSE_def)
  with two show ?thesis by (intro exI [of _ ?p3]) (simp add: numeral_2_eq_2)
qed

text \<open>
  One probe at a time: after a probe was let out at \<open>t\<close>, if nothing but admissions happens to the
  key, whatever happens to others, the next probe is let out at least two minutes later.
\<close>

theorem one_probe_at_a_time:
  assumes "admit_write t k ps = (ps1, Probe)"
    and "\<And>e u. (e, u) \<in> set h \<Longrightarrow> t \<le> u \<and> (event_key e = k \<longrightarrow> e = EAdmit k)"
    and "admit_write t' k (run_pauses h ps1) = (ps2, Probe)"
  shows "t + secs 120 \<le> t'"
proof -
  have "\<exists>p. ps1 k = Some p \<and> pa_strikes p \<noteq> 0 \<and> t + PROBE_HOLD \<le> pa_until p"
    using admit_Probe [OF assms(1)] by auto
  then have "\<exists>p. run_pauses h ps1 k = Some p \<and> pa_strikes p \<noteq> 0 \<and> t + PROBE_HOLD \<le> pa_until p"
    using assms(2) by (intro probe_hold_kept) auto
  with admit_Probe [OF assms(3)] show ?thesis by (auto simp: PROBE_HOLD_def)
qed

theorem one_probe_at_a_time_witness:
  "\<exists>ps1 ps2. admit_write 5 ''likes'' [''likes'' \<mapsto> \<lparr>pa_until = 0, pa_strikes = 1, pa_probing = False\<rparr>] = (ps1, Probe)
     \<and> admit_write (secs 200) ''likes'' (run_pauses [(EAdmit ''likes'', 9)] ps1) = (ps2, Probe)
     \<and> 5 + secs 120 \<le> secs 200"
proof -
  let ?ps = "[''likes'' \<mapsto> \<lparr>pa_until = 0, pa_strikes = 1, pa_probing = False\<rparr>]"
  let ?ps1 = "?ps(''likes'' \<mapsto> \<lparr>pa_until = 5 + PROBE_HOLD, pa_strikes = 1, pa_probing = True\<rparr>)"
  have a: "admit_write 5 ''likes'' ?ps = (?ps1, Probe)" by (simp add: admit_write_def)
  have "run_pauses [(EAdmit ''likes'', 9)] ?ps1 = ?ps1"
    by (simp add: admit_write_def PROBE_HOLD_def)
  then obtain ps2 where b: "admit_write (secs 200) ''likes'' (run_pauses [(EAdmit ''likes'', 9)] ?ps1) = (ps2, Probe)"
    by (simp add: admit_write_def PROBE_HOLD_def)
  have "5 + secs 120 \<le> secs 200"
    by (rule one_probe_at_a_time [OF a _ b]) auto
  with a b show ?thesis by blast
qed

text \<open>
  C37. Every hold ends: after any history of refusals, successes and admissions whose waits are at
  most two hours, every key is let through, as open or as a probe, two hours after the last event.
\<close>

theorem holds_end:
  assumes "\<And>e u. (e, u) \<in> set h \<Longrightarrow> ends_within e \<and> u \<le> t" and "t + secs 7200 \<le> now"
  shows "snd (admit_write now k (run_pauses h Map.empty)) \<in> {Open, Probe}"
proof (cases "run_pauses h Map.empty k")
  case None
  then show ?thesis by (simp add: admit_write_def)
next
  case (Some p)
  have "pa_until p \<le> t + MAX_PAUSE"
    using assms(1) by (intro run_ends [OF _ _ Some]) auto
  then have "pa_until p \<le> now" using assms(2) by (simp add: MAX_PAUSE_def)
  with Some show ?thesis by (simp add: admit_write_def)
qed

theorem holds_end_witness:
  "snd (admit_write (secs 7300) ''likes'' (run_pauses [(ERefused ''likes'' 100000, secs 5)] Map.empty)) \<in> {Open, Probe}"
  by (rule holds_end [where t = "secs 5"]) auto

end
