(* ===== verification/Ip_Addr.thy ===== *)
theory Ip_Addr
  imports Bytes
begin

text \<open>
  Addresses of the standard library as the admission of public requests uses them: \<open>IpAddr\<close> with
  its octets, \<open>to_canonical\<close>, \<open>to_ipv4_mapped\<close> and the parser behind \<open>parse::<IpAddr>\<close>, which
  accepts dotted decimals without leading zeros and the IPv6 forms with at most one \<open>::\<close> and an
  embedded IPv4 tail.
\<close>

datatype ip_addr = V4 "byte list" | V6 "byte list"

definition ipv4_mapped :: "byte list \<Rightarrow> byte list option" where
  "ipv4_mapped octets =
     (if take 12 octets = replicate 10 0 @ [255, 255] then Some (drop 12 octets) else None)"

fun to_canonical :: "ip_addr \<Rightarrow> ip_addr" where
  "to_canonical (V4 a) = V4 a"
| "to_canonical (V6 a) = (case ipv4_mapped a of Some b \<Rightarrow> V4 b | None \<Rightarrow> V6 a)"

fun valid_ip :: "ip_addr \<Rightarrow> bool" where
  "valid_ip (V4 a) \<longleftrightarrow> length a = 4 \<and> (\<forall>x \<in> set a. x < 256)"
| "valid_ip (V6 a) \<longleftrightarrow> length a = 16 \<and> (\<forall>x \<in> set a. x < 256)"

definition canonical_ip :: "ip_addr \<Rightarrow> bool" where
  "canonical_ip a \<longleftrightarrow> to_canonical a = a"

section \<open>The parser\<close>

text \<open>A reader takes a prefix of the text and leaves the rest; \<open>None\<close> reads nothing.\<close>

type_synonym 'a reader = "str \<Rightarrow> ('a \<times> str) option"

definition read_char :: "rchar \<Rightarrow> unit reader" where
  "read_char c s = (case s of x # s' \<Rightarrow> if x = c then Some ((), s') else None | [] \<Rightarrow> None)"

definition digit_value :: "nat \<Rightarrow> rchar \<Rightarrow> nat option" where
  "digit_value radix c =
     (let v = if is_ascii_digit c then c - 48
              else if is_ascii_lowercase c then c - 87
              else if is_ascii_uppercase c then c - 55 else radix
      in if v < radix then Some v else None)"

definition read_number :: "nat \<Rightarrow> nat \<Rightarrow> bool \<Rightarrow> nat reader" where
  "read_number radix max_digits allow_zero_prefix s =
     (let ds = takeWhile (\<lambda>c. digit_value radix c \<noteq> None) s
      in if ds = [] \<or> max_digits < length ds then None
         else if \<not> allow_zero_prefix \<and> hd ds = 48 \<and> 1 < length ds then None
         else Some (foldl (\<lambda>n c. n * radix + the (digit_value radix c)) 0 ds, drop (length ds) s))"

definition read_octet :: "nat reader" where
  "read_octet s =
     (case read_number 10 3 False s of
        Some (n, s') \<Rightarrow> if n < 256 then Some (n, s') else None
      | None \<Rightarrow> None)"

definition read_separator :: "rchar \<Rightarrow> nat \<Rightarrow> 'a reader \<Rightarrow> 'a reader" where
  "read_separator sep i inner s =
     (if 0 < i then Option.bind (read_char sep s) (\<lambda>(_, s'). inner s') else inner s)"

fun read_octets :: "nat \<Rightarrow> nat \<Rightarrow> byte list reader" where
  "read_octets i 0 s = Some ([], s)"
| "read_octets i (Suc n) s =
     Option.bind (read_separator 46 i read_octet s) (\<lambda>(a, s').
       map_option (\<lambda>(as, r). (a # as, r)) (read_octets (Suc i) n s'))"

definition read_ipv4_addr :: "byte list reader" where
  "read_ipv4_addr = read_octets 0 4"

text \<open>
  \<open>read_groups\<close>: up to \<open>left\<close> groups of two bytes from position \<open>i\<close>, the last two of which may be
  an IPv4 address; the flag says that one was read.
\<close>

fun read_groups :: "nat \<Rightarrow> nat \<Rightarrow> str \<Rightarrow> (byte list \<times> bool) \<times> str" where
  "read_groups i 0 s = (([], False), s)"
| "read_groups i (Suc left) s =
     (case (if 0 < left then read_separator 58 i read_ipv4_addr s else None) of
        Some (a, s') \<Rightarrow> ((a, True), s')
      | None \<Rightarrow>
          (case read_separator 58 i (read_number 16 4 True) s of
             None \<Rightarrow> (([], False), s)
           | Some (g, s') \<Rightarrow>
               (case read_groups (Suc i) left s' of
                  ((gs, v4), r) \<Rightarrow> ((g div 256 # g mod 256 # gs, v4), r))))"

definition read_ipv6_addr :: "byte list reader" where
  "read_ipv6_addr s =
     (case read_groups 0 8 s of
        ((head, head_v4), s1) \<Rightarrow>
          if length head = 16 then Some (head, s1)
          else if head_v4 then None
          else Option.bind (read_char 58 s1) (\<lambda>(_, s2).
            map_option
              (\<lambda>(_, s3).
                 case read_groups 0 (7 - length head div 2) s3 of
                   ((tail, _), s4) \<Rightarrow> (head @ replicate (16 - length head - length tail) 0 @ tail, s4))
              (read_char 58 s2)))"

definition parse_ip :: "str \<Rightarrow> ip_addr option" where
  "parse_ip s =
     (case read_ipv4_addr s of
        Some (a, r) \<Rightarrow> if r = [] then Some (V4 a) else None
      | None \<Rightarrow>
          (case read_ipv6_addr s of
             Some (a, r) \<Rightarrow> if r = [] then Some (V6 a) else None
           | None \<Rightarrow> None))"

section \<open>Lemmas\<close>

lemma read_octet_small: "read_octet s = Some (a, r) \<Longrightarrow> a < 256"
  by (auto simp: read_octet_def split: option.splits if_splits)

lemma read_octets_valid:
  "read_octets i n s = Some (as, r) \<Longrightarrow> length as = n \<and> (\<forall>a \<in> set as. a < 256)"
  by (induction i n s arbitrary: as r rule: read_octets.induct)
     (fastforce simp: read_separator_def bind_eq_Some_conv dest: read_octet_small split: if_splits)+

lemma digit_value_less: "digit_value radix c = Some v \<Longrightarrow> v < radix"
  by (auto simp: digit_value_def Let_def split: if_splits)

lemma digits_less:
  "(\<And>c. c \<in> set ds \<Longrightarrow> digit_value 16 c \<noteq> None) \<Longrightarrow>
   foldl (\<lambda>n c. n * 16 + the (digit_value 16 c)) 0 ds < 16 ^ length ds"
proof (induction ds rule: rev_induct)
  case (snoc d ds)
  then obtain v where "digit_value 16 d = Some v" "v < 16"
    using digit_value_less by fastforce
  with snoc show ?case by simp
qed simp

lemma read_group_less:
  assumes "read_number 16 4 True s = Some (g, r)"
  shows "g < 65536"
proof -
  let ?ds = "takeWhile (\<lambda>c. digit_value 16 c \<noteq> None) s"
  have "g < 16 ^ length ?ds" "length ?ds \<le> 4"
    using assms digits_less [of ?ds] by (auto simp: read_number_def Let_def dest: set_takeWhileD split: if_splits)
  then show ?thesis using power_increasing [of "length ?ds" 4 "16 :: nat"] by simp
qed

lemma read_groups_valid:
  "read_groups i n s = ((as, v4), r) \<Longrightarrow>
   even (length as) \<and> length as \<le> 2 * n \<and> (\<forall>a \<in> set as. a < 256)"
proof (induction i n s arbitrary: as v4 r rule: read_groups.induct)
  case (2 i left s)
  show ?case
  proof (cases "if 0 < left then read_separator 58 i read_ipv4_addr s else None")
    case None
    show ?thesis
    proof (cases "read_separator 58 i (read_number 16 4 True) s")
      case (Some x)
      obtain g s' gs w where x: "x = (g, s')" and gs: "read_groups (Suc i) left s' = ((gs, w), r)"
          "as = g div 256 # g mod 256 # gs"
        using 2(2) None Some by (cases x) (auto split: prod.splits)
      have "g < 65536"
        using Some x read_group_less by (fastforce simp: read_separator_def bind_eq_Some_conv split: if_splits)
      then show ?thesis using 2(1) [OF None Some x [symmetric] gs(1)] gs(2) by auto
    qed (use 2(2) None in auto)
  next
    case (Some x)
    then obtain s' where "x = (as, s')" using 2(2) by (cases x) auto
    with Some have "length as = 4 \<and> (\<forall>a \<in> set as. a < 256)" "0 < left"
      by (auto simp: read_separator_def read_ipv4_addr_def bind_eq_Some_conv
          dest: read_octets_valid split: if_splits)
    then show ?thesis by auto
  qed
qed simp

text \<open>Whatever the parser accepts is an address: four or sixteen octets.\<close>

lemma read_ipv6_valid:
  assumes "read_ipv6_addr s = Some (a, r)"
  shows "length a = 16 \<and> (\<forall>x \<in> set a. x < 256)"
proof -
  obtain head v4 s1 where h: "read_groups 0 8 s = ((head, v4), s1)" by (metis prod.exhaust)
  note hv = read_groups_valid [OF h]
  show ?thesis
  proof (cases "length head = 16")
    case True
    then show ?thesis using assms h hv by (auto simp: read_ipv6_addr_def)
  next
    case False
    then obtain s3 where
        s3: "case read_groups 0 (7 - length head div 2) s3 of
               ((tail, _), s4) \<Rightarrow> a = head @ replicate (16 - length head - length tail) 0 @ tail"
      using assms h by (auto simp: read_ipv6_addr_def bind_eq_Some_conv case_prod_beta split: if_splits)
    then obtain tail w s4 where t: "read_groups 0 (7 - length head div 2) s3 = ((tail, w), s4)"
      and a: "a = head @ replicate (16 - length head - length tail) 0 @ tail"
      by (auto split: prod.splits)
    have "length head + length tail \<le> 16"
      using read_groups_valid [OF t] hv False by (auto elim!: evenE)
    then show ?thesis using a hv read_groups_valid [OF t] by auto
  qed
qed

lemma parse_ip_valid: "parse_ip s = Some a \<Longrightarrow> valid_ip a"
  by (auto simp: parse_ip_def read_ipv4_addr_def dest!: read_octets_valid read_ipv6_valid
      split: option.splits if_splits)

text \<open>An IPv4 address in its usual print is read back.\<close>

definition dotted :: "byte list \<Rightarrow> str" where
  "dotted a = join_with [46] (map dec a)"

lemma decimal_digit: "is_ascii_digit c \<Longrightarrow> digit_value 10 c = Some (c - 48)"
  by (auto simp: digit_value_def is_ascii_digit_def Let_def)

lemma read_octet_dec:
  assumes "a < 256" "rest = [] \<or> digit_value 10 (hd rest) = None"
  shows "read_octet (dec a @ rest) = Some (a, rest)"
proof -
  have d: "\<forall>c \<in> set (dec a). digit_value 10 c = Some (c - 48)"
    by (auto intro: decimal_digit dest: dec_digits)
  then have ds: "takeWhile (\<lambda>c. digit_value 10 c \<noteq> None) (dec a @ rest) = dec a"
    using assms(2) by (cases rest) (auto simp: takeWhile_append2)
  have "foldl (\<lambda>n c. n * 10 + the (digit_value 10 c)) 0 (dec a) = undec (dec a)"
    unfolding undec_def using d by (intro foldl_cong) auto
  moreover have "length (dec a) \<le> 3" using assms(1) by (intro length_dec_le) auto
  moreover have "hd (dec a) \<noteq> 48 \<or> length (dec a) = 1"
    using hd_dec [of a] by (cases "a = 0") (auto simp: dec.simps)
  ultimately show ?thesis
    unfolding read_octet_def read_number_def Let_def ds using assms(1) dec_nonempty [of a] by auto
qed

lemma read_dotted:
  "\<forall>a \<in> set as. a < 256 \<Longrightarrow> as \<noteq> [] \<Longrightarrow>
   read_octets i (length as) ((if i = 0 then [] else [46]) @ dotted as) = Some (as, [])"
proof (induction as arbitrary: i)
  case (Cons a as)
  show ?case
  proof (cases as)
    case Nil
    then show ?thesis using Cons.prems read_octet_dec [of a "[]"]
      by (simp add: dotted_def read_separator_def read_char_def)
  next
    case (Cons b bs)
    have "dotted (a # as) = dec a @ 46 # dotted as" by (simp add: dotted_def Cons)
    moreover have "read_octet (dec a @ 46 # dotted as) = Some (a, 46 # dotted as)"
      using Cons.prems by (intro read_octet_dec) (auto simp: digit_value_def is_ascii_digit_def
          is_ascii_lowercase_def is_ascii_uppercase_def Let_def)
    moreover have "read_octets (Suc i) (length as) (46 # dotted as) = Some (as, [])"
      using Cons.IH [of "Suc i"] Cons.prems Cons by simp
    ultimately show ?thesis by (cases "i = 0") (simp_all add: read_separator_def read_char_def)
  qed
qed simp

lemma parse_dotted:
  assumes "length a = 4" "\<forall>x \<in> set a. x < 256"
  shows "parse_ip (dotted a) = Some (V4 a)"
proof -
  have "a \<noteq> []" using assms(1) by auto
  then show ?thesis using read_dotted [of a 0] assms by (simp add: parse_ip_def read_ipv4_addr_def)
qed

interpretation dotted_quad: round_trip
  "\<lambda>a. dotted (case a of V4 b \<Rightarrow> b | V6 b \<Rightarrow> b)" parse_ip "\<lambda>a. valid_ip a \<and> (\<exists>b. a = V4 b)"
  by unfold_locales (auto intro: parse_dotted)

lemma valid_canonical: "valid_ip a \<Longrightarrow> valid_ip (to_canonical a)"
  by (cases a) (auto simp: ipv4_mapped_def dest: in_set_dropD split: option.splits)

end
