(* ===== verification/Public_Admission.thy ===== *)
theory Public_Admission
  imports Effects Redis_Keys Ip_Addr
begin

text \<open>
  Admission of public requests (\<open>api/src/common/admission.rs\<close>): the Lua script with its two
  counters per endpoint, the check around it with the permits and the fail-closed answers, the
  address a request is counted under and the identities derived from it. SHA-256 with its
  hexadecimal print and the membership of an address in a proxy network are parameters; the limits
  of the configuration are a function of the endpoint.

  The script is one atomic step. \<open>serve\<close> is a sequence of its runs, with the requests it admitted;
  a check whose answer is lost or late still counts there, and answers the client with a refusal.
\<close>

section \<open>Endpoints and limits\<close>

datatype endpoint =
    Login | LinkCreate | Resolve | SoundCloudSearch | CatalogMiss | RoomList | RoomCreate | RoomJoin
  | VoiceLinkCode | VoiceRemote | VoiceRemoteWait | VoicePageIp | VoicePageClient | VoiceSalutSub
  | VoiceUtterance | VoiceResolve | VoiceAliceIp | VoiceSalutIp | DiagBundle | DiagEvents | DiagBytes

datatype admission_rejection = Rejected_Limited nat | Rejected_Unavailable

datatype admission_decision = Allowed | Limited nat | Unavailable

record admission_limit =
  global_limit :: nat
  per_client :: nat

record admission_cfg =
  cfg_window :: int
  cfg_limits :: "endpoint \<Rightarrow> admission_limit"

definition WARNING_INTERVAL_MILLISECONDS :: nat where "WARNING_INTERVAL_MILLISECONDS = 30000"
definition DIAG_WINDOW :: int where "DIAG_WINDOW = 3600 * 1000"
definition NAMESPACE :: str where "NAMESPACE = lit ''public:admission''"

fun endpoint_key :: "endpoint \<Rightarrow> str" where
  "endpoint_key Login = lit ''login''"
| "endpoint_key LinkCreate = lit ''link-create''"
| "endpoint_key Resolve = lit ''resolve''"
| "endpoint_key SoundCloudSearch = lit ''sc-search''"
| "endpoint_key CatalogMiss = lit ''catalog-miss''"
| "endpoint_key RoomList = lit ''rooms-list''"
| "endpoint_key RoomCreate = lit ''rooms-create''"
| "endpoint_key RoomJoin = lit ''rooms-join''"
| "endpoint_key VoiceLinkCode = lit ''voice-link-code''"
| "endpoint_key VoiceRemote = lit ''voice-remote''"
| "endpoint_key VoiceRemoteWait = lit ''voice-remote-wait''"
| "endpoint_key VoicePageIp = lit ''voice-page-ip''"
| "endpoint_key VoicePageClient = lit ''voice-page-client''"
| "endpoint_key VoiceSalutSub = lit ''voice-salut-sub''"
| "endpoint_key VoiceUtterance = lit ''voice-utterance''"
| "endpoint_key VoiceResolve = lit ''voice-resolve''"
| "endpoint_key VoiceAliceIp = lit ''voice-alice-ip''"
| "endpoint_key VoiceSalutIp = lit ''voice-salut-ip''"
| "endpoint_key DiagBundle = lit ''diag-bundle''"
| "endpoint_key DiagEvents = lit ''diag-events''"
| "endpoint_key DiagBytes = lit ''diag-bytes''"

text \<open>The permit pool of an endpoint: \<open>True\<close> is \<open>session_in_flight\<close>, \<open>False\<close> is \<open>in_flight\<close>.\<close>

definition gate :: "endpoint \<Rightarrow> bool" where
  "gate e \<longleftrightarrow>
     e \<in> {SoundCloudSearch, CatalogMiss, RoomList, RoomCreate, RoomJoin, VoiceLinkCode, VoiceRemote,
          VoiceRemoteWait, VoiceResolve}"

definition window :: "admission_cfg \<Rightarrow> endpoint \<Rightarrow> int" where
  "window cfg e =
     (if e \<in> {DiagBundle, DiagEvents, DiagBytes} then DIAG_WINDOW else cfg_window cfg)"

definition limits :: "admission_cfg \<Rightarrow> endpoint \<Rightarrow> admission_limit" where
  "limits cfg e = cfg_limits cfg e"

definition global_key :: "endpoint \<Rightarrow> str" where
  "global_key e = NAMESPACE @ lit '':{'' @ endpoint_key e @ lit ''}:global''"

definition client_key :: "endpoint \<Rightarrow> str \<Rightarrow> str" where
  "client_key e identity = NAMESPACE @ lit '':{'' @ endpoint_key e @ lit ''}:client:'' @ identity"

section \<open>The script\<close>

type_synonym counters = "(str, int) keyed"

definition remaining :: "int \<Rightarrow> int \<Rightarrow> str \<Rightarrow> counters \<Rightarrow> int \<times> counters" where
  "remaining now win key m =
     (if pttl now m key = - 1 then (win, pexpire now win key m) else (max (pttl now m key) 1, m))"

definition spend :: "int \<Rightarrow> int \<Rightarrow> int \<Rightarrow> str \<Rightarrow> counters \<Rightarrow> counters" where
  "spend now win cost key m =
     (let m' = incrby now key cost m
      in if get_count now m' key = cost then pexpire now win key m' else m')"

definition admission_script ::
    "int \<Rightarrow> str \<Rightarrow> str \<Rightarrow> int \<Rightarrow> int \<Rightarrow> int \<Rightarrow> int \<Rightarrow> counters \<Rightarrow> (int \<times> int) \<times> counters" where
  "admission_script now gkey ckey glimit climit win cost m =
     (if glimit < get_count now m gkey + cost
      then (case remaining now win gkey m of (left, m') \<Rightarrow> ((0, left), m'))
      else if climit < get_count now m ckey + cost
      then (case remaining now win ckey m of (left, m') \<Rightarrow> ((0, left), m'))
      else ((1, 0), spend now win cost ckey (spend now win cost gkey m)))"

definition milliseconds_to_seconds :: "int \<Rightarrow> nat" where
  "milliseconds_to_seconds ms = min (nat (max ms 1) + 999) (2 ^ 64 - 1) div 1000"

text \<open>The run of the script for one request, with the keys and arguments of \<open>check_redis\<close>.\<close>

definition window_milliseconds :: "admission_cfg \<Rightarrow> endpoint \<Rightarrow> int" where
  "window_milliseconds cfg e = min (window cfg e) (2 ^ 63 - 1)"

definition script_for ::
    "admission_cfg \<Rightarrow> endpoint \<Rightarrow> str \<Rightarrow> nat \<Rightarrow> int \<Rightarrow> counters \<Rightarrow> (int \<times> int) \<times> counters" where
  "script_for cfg e identity cost now =
     admission_script now (global_key e) (client_key e identity)
       (int (global_limit (limits cfg e))) (int (per_client (limits cfg e)))
       (window_milliseconds cfg e) (int cost)"

section \<open>The check\<close>

text \<open>
  What a check acts on: the server clock and the counters, the free permits of the two pools, the
  wall clock and the time of the last warning.
\<close>

record admission_world =
  aw_time :: int
  aw_counters :: counters
  aw_permits :: "bool \<Rightarrow> nat"
  aw_wall :: nat
  last_warning_at :: nat

definition warning_due :: "nat \<Rightarrow> nat \<Rightarrow> bool \<times> nat" where
  "warning_due now previous =
     (if previous \<noteq> 0 \<and> previous \<le> now \<and> now - previous < WARNING_INTERVAL_MILLISECONDS
      then (False, previous) else (True, now))"

definition warn_due :: "admission_world \<Rightarrow> admission_world" where
  "warn_due w = w\<lparr>last_warning_at := snd (warning_due (aw_wall w) (last_warning_at w))\<rparr>"

definition check_redis :: "admission_cfg \<Rightarrow> endpoint \<Rightarrow> str \<Rightarrow> nat \<Rightarrow> (admission_world, admission_decision) eff" where
  "check_redis cfg e identity cost =
     await (command (\<lambda>w. w\<lparr>aw_counters := snd (script_for cfg e identity cost (aw_time w) (aw_counters w))\<rparr>)
                    (\<lambda>w. fst (script_for cfg e identity cost (aw_time w) (aw_counters w))))
       (\<lambda>(allowed, retry_after_milliseconds).
          ok (if allowed = 1 then Allowed
              else Limited (milliseconds_to_seconds retry_after_milliseconds)))"

definition acquire :: "bool \<Rightarrow> admission_world \<Rightarrow> admission_world" where
  "acquire g w = w\<lparr>aw_permits := (aw_permits w)(g := aw_permits w g - 1)\<rparr>"

definition release :: "bool \<Rightarrow> admission_world \<Rightarrow> admission_world" where
  "release g w = w\<lparr>aw_permits := (aw_permits w)(g := aw_permits w g + 1)\<rparr>"

definition check :: "admission_cfg \<Rightarrow> endpoint \<Rightarrow> str \<Rightarrow> nat \<Rightarrow> (admission_world, admission_decision) prog" where
  "check cfg e identity cost =
     bind (inside (acquire (gate e)) (\<lambda>w. 0 < aw_permits w (gate e))) (\<lambda>permit.
       if \<not> permit then Ret Unavailable
       else bind (check_redis cfg e identity cost) (\<lambda>r.
         case r of
           Inr d \<Rightarrow> inside (release (gate e)) (\<lambda>_. d)
         | Inl _ \<Rightarrow> inside (release (gate e) \<circ> warn_due) (\<lambda>_. Unavailable)))"

text \<open>\<open>check_session\<close>, \<open>check_key\<close>: one unit under a hashed identity, refusals as errors.\<close>

fun verdict :: "admission_decision \<Rightarrow> admission_rejection + unit" where
  "verdict Allowed = Inr ()"
| "verdict (Limited s) = Inl (Rejected_Limited s)"
| "verdict Unavailable = Inl Rejected_Unavailable"

section \<open>Addresses and identities\<close>

text \<open>
  \<open>rsplit(',')\<close> gives the pieces from the right; a header value that is no text is skipped. Networks
  of trusted proxies are a list with their membership test.
\<close>

definition forwarded_entries :: "str option list \<Rightarrow> str list" where
  "forwarded_entries values = concat (map (\<lambda>v. rev (split_at 44 v)) (rev (List.map_filter id values)))"

fun first_untrusted :: "(ip_addr \<Rightarrow> bool) \<Rightarrow> ip_addr \<Rightarrow> str list \<Rightarrow> ip_addr" where
  "first_untrusted is_trusted peer [] = peer"
| "first_untrusted is_trusted peer (entry # entries) =
     (case parse_ip (trim entry) of
        None \<Rightarrow> peer
      | Some a \<Rightarrow>
          if \<not> is_trusted (to_canonical a) then to_canonical a
          else first_untrusted is_trusted peer entries)"

definition client_address ::
    "('net \<Rightarrow> ip_addr \<Rightarrow> bool) \<Rightarrow> ip_addr \<Rightarrow> str option list \<Rightarrow> 'net list \<Rightarrow> ip_addr" where
  "client_address contains raw_peer values trusted =
     (let is_trusted = (\<lambda>a. \<exists>net \<in> set trusted. contains net a);
          peer = to_canonical raw_peer
      in if \<not> is_trusted peer then peer
         else first_untrusted is_trusted peer (forwarded_entries values))"

text \<open>What the digests are taken of; \<open>sha\<close> is SHA-256 printed in hexadecimal.\<close>

fun client_bytes :: "ip_addr \<Rightarrow> byte list" where
  "client_bytes (V4 a) = 4 # a"
| "client_bytes (V6 a) = (case ipv4_mapped a of Some b \<Rightarrow> 4 # b | None \<Rightarrow> 6 # take 8 a)"

fun network_bytes :: "ip_addr \<Rightarrow> byte list" where
  "network_bytes (V6 a) = (if ipv4_mapped a = None then 48 # take 6 a else client_bytes (V6 a))"
| "network_bytes (V4 a) = client_bytes (V4 a)"

definition subnet_bytes :: "ip_addr \<Rightarrow> byte list" where
  "subnet_bytes a = (case to_canonical a of V4 b \<Rightarrow> 24 # take 3 b | V6 b \<Rightarrow> network_bytes (V6 b))"

definition client_identity :: "(byte list \<Rightarrow> str) \<Rightarrow> ip_addr \<Rightarrow> str" where
  "client_identity sha a = sha (client_bytes a)"

definition network_identity :: "(byte list \<Rightarrow> str) \<Rightarrow> ip_addr \<Rightarrow> str" where
  "network_identity sha a = sha (network_bytes a)"

definition subnet_identity :: "(byte list \<Rightarrow> str) \<Rightarrow> ip_addr \<Rightarrow> str" where
  "subnet_identity sha a = sha (subnet_bytes a)"

definition key_identity :: "(byte list \<Rightarrow> str) \<Rightarrow> str \<Rightarrow> str" where
  "key_identity sha key = sha (as_bytes key)"

definition session_identity :: "(byte list \<Rightarrow> str) \<Rightarrow> uuid \<Rightarrow> str" where
  "session_identity sha session = sha (be_bytes 16 session)"

section \<open>The doors\<close>

definition check_session ::
    "(byte list \<Rightarrow> str) \<Rightarrow> admission_cfg \<Rightarrow> endpoint \<Rightarrow> uuid \<Rightarrow> (admission_world, admission_rejection + unit) prog" where
  "check_session sha cfg e session =
     bind (check cfg e (session_identity sha session) 1) (\<lambda>d. Ret (verdict d))"

definition check_key ::
    "(byte list \<Rightarrow> str) \<Rightarrow> admission_cfg \<Rightarrow> endpoint \<Rightarrow> str \<Rightarrow> (admission_world, admission_rejection + unit) prog" where
  "check_key sha cfg e identity =
     bind (check cfg e (key_identity sha identity) 1) (\<lambda>d. Ret (verdict d))"

definition admit_diag :: "admission_cfg \<Rightarrow> endpoint \<Rightarrow> str \<Rightarrow> nat \<Rightarrow> (admission_world, unit) eff" where
  "admit_diag cfg e client cost =
     bind (check cfg e client (min cost (2 ^ 32 - 1))) (\<lambda>d.
       case d of
         Allowed \<Rightarrow> ok ()
       | Limited s \<Rightarrow>
           err (with_retry_after (min (int s) (2 ^ 63 - 1))
                 (coded 429 (lit ''diag_admission_limited'')
                   (lit ''Too many reports from this address, try later'')))
       | Unavailable \<Rightarrow>
           err (coded 503 (lit ''auth_admission_unavailable'')
                 (lit ''Reports are temporarily unavailable'')))"

definition resolve_busy :: "nat \<Rightarrow> app_error" where
  "resolve_busy s =
     with_retry_after (min (int s) (2 ^ 63 - 1))
       (coded 503 (lit ''resolve_busy'') (lit ''Opening links is busy, try again shortly''))"

text \<open>A refusal: status, code, message and \<open>Retry-After\<close>; it is never cached.\<close>

record refusal_answer =
  rf_status :: nat
  rf_code :: str
  rf_message :: str
  rf_retry_after :: "int option"

definition rejection :: "endpoint \<Rightarrow> admission_rejection \<Rightarrow> refusal_answer" where
  "rejection e kind =
     (let s = (case kind of Rejected_Limited s \<Rightarrow> s | Rejected_Unavailable \<Rightarrow> 1)
      in if e = Resolve
         then \<lparr>rf_status = error_status (resolve_busy s), rf_code = lit ''resolve_busy'',
               rf_message = lit ''Opening links is busy, try again shortly'',
               rf_retry_after = retry_after_sec (resolve_busy s)\<rparr>
         else (case kind of
                 Rejected_Limited _ \<Rightarrow>
                   \<lparr>rf_status = 429, rf_code = lit ''auth_admission_limited'',
                    rf_message = lit ''Too many authentication requests'',
                    rf_retry_after = Some (int (max s 1))\<rparr>
               | Rejected_Unavailable \<Rightarrow>
                   \<lparr>rf_status = 503, rf_code = lit ''auth_admission_unavailable'',
                    rf_message = lit ''Authentication is temporarily unavailable'',
                    rf_retry_after = Some (int (max s 1))\<rparr>))"

text \<open>
  A public request: the address of the transport, if there is one, and the headers the admission
  reads. \<open>None\<close> as the answer of \<open>admit_request\<close> passes the request on.
\<close>

record public_request =
  pr_peer :: "ip_addr option"
  pr_forwarded :: "str option list"
  pr_origin :: bool
  pr_content_type :: "str option"

definition request_client ::
    "('net \<Rightarrow> ip_addr \<Rightarrow> bool) \<Rightarrow> 'net list \<Rightarrow> public_request \<Rightarrow> ip_addr option" where
  "request_client contains trusted q =
     map_option (\<lambda>peer. client_address contains peer (pr_forwarded q) trusted) (pr_peer q)"

definition admit_request ::
    "('net \<Rightarrow> ip_addr \<Rightarrow> bool) \<Rightarrow> 'net list \<Rightarrow> (byte list \<Rightarrow> str) \<Rightarrow> admission_cfg \<Rightarrow> endpoint
     \<Rightarrow> public_request \<Rightarrow> (admission_world, refusal_answer option) prog" where
  "admit_request contains trusted sha cfg e q =
     (case request_client contains trusted q of
        None \<Rightarrow> inside warn_due (\<lambda>_. Some (rejection e Rejected_Unavailable))
      | Some client \<Rightarrow>
          bind (check cfg e (client_identity sha client) 1) (\<lambda>d.
            Ret (case verdict d of Inr _ \<Rightarrow> None | Inl kind \<Rightarrow> Some (rejection e kind))))"

definition admit_login where "admit_login contains trusted sha cfg = admit_request contains trusted sha cfg Login"
definition admit_link_create where "admit_link_create contains trusted sha cfg = admit_request contains trusted sha cfg LinkCreate"
definition admit_resolve where "admit_resolve contains trusted sha cfg = admit_request contains trusted sha cfg Resolve"

text \<open>\<open>diag_gate\<close>: pages are refused, then anything but JSON, then requests without an address.\<close>

datatype diag_verdict = Diag_Error app_error | Diag_Refused refusal_answer | Diag_Client str

definition is_json :: "str option \<Rightarrow> bool" where
  "is_json content_type =
     (case content_type of
        None \<Rightarrow> False
      | Some v \<Rightarrow> eq_ignore_ascii_case (trim (hd (split_at 59 v))) (lit ''application/json''))"

definition diag_gate ::
    "('net \<Rightarrow> ip_addr \<Rightarrow> bool) \<Rightarrow> 'net list \<Rightarrow> (byte list \<Rightarrow> str) \<Rightarrow> public_request
     \<Rightarrow> (admission_world, diag_verdict) prog" where
  "diag_gate contains trusted sha q =
     (if pr_origin q
      then Ret (Diag_Error (Forbidden (lit ''Diagnostics are not accepted from web pages'')))
      else if \<not> is_json (pr_content_type q)
      then Ret (Diag_Error (coded 415 (lit ''diag_content_type'')
                             (lit ''Diagnostics must be sent as application/json'')))
      else case request_client contains trusted q of
             None \<Rightarrow> inside warn_due (\<lambda>_. Diag_Refused (rejection DiagBundle Rejected_Unavailable))
           | Some client \<Rightarrow> Ret (Diag_Client (client_identity sha client)))"

section \<open>Runs of the script\<close>

record spending =
  sp_at :: int
  sp_endpoint :: endpoint
  sp_identity :: str
  sp_cost :: nat

primrec serve :: "admission_cfg \<Rightarrow> spending list \<Rightarrow> counters \<Rightarrow> spending list" where
  "serve cfg [] m = []"
| "serve cfg (r # rs) m =
     (case script_for cfg (sp_endpoint r) (sp_identity r) (sp_cost r) (sp_at r) m of
        ((allowed, _), m') \<Rightarrow> if allowed = 1 then r # serve cfg rs m' else serve cfg rs m')"

definition spent :: "(spending \<Rightarrow> bool) \<Rightarrow> spending list \<Rightarrow> nat" where
  "spent P as = sum_list (map sp_cost (filter P as))"

definition during :: "int \<Rightarrow> int \<Rightarrow> spending \<Rightarrow> bool" where
  "during since till r \<longleftrightarrow> since \<le> sp_at r \<and> sp_at r \<le> till"

end
