(* ===== verification/Admission_Rules.thy ===== *)
theory Admission_Rules
  imports Public_Admission
begin

text \<open>
  What the admission of public requests promises: the cap on what is admitted within a window, the
  honesty of a refusal, a check that fails closed, and an address that its sender cannot choose.
  The interface \<open>window_counter\<close> is what the cap needs of a counter; the script provides it for the
  global counter of an endpoint and for the counter of each client.
\<close>

section \<open>Keys\<close>

lemma endpoint_key_inject: "endpoint_key e = endpoint_key e' \<longleftrightarrow> e = e'"
  by (cases e; cases e') (simp_all add: lit_def)

lemma endpoint_key_plain: "125 \<notin> set (endpoint_key e)"
  by (cases e) (simp_all add: lit_def)

lemma braced_cancel:
  assumes "xs @ 125 # s = ys @ 125 # t" "125 \<notin> set xs" "125 \<notin> set ys"
  shows "xs = ys \<and> s = (t :: str)"
  using assms by (induction xs arbitrary: ys) (auto simp: Cons_eq_append_conv append_eq_Cons_conv)

lemma keys_cancel:
  "endpoint_key e @ 125 # s = endpoint_key e' @ 125 # t \<longleftrightarrow> e = e' \<and> s = t"
  using braced_cancel [of "endpoint_key e" s "endpoint_key e'" t] endpoint_key_plain [of e]
    endpoint_key_plain [of e'] by (auto simp: endpoint_key_inject)

lemma key_simps [simp]:
  "global_key e = global_key e' \<longleftrightarrow> e = e'"
  "client_key e i = client_key e' i' \<longleftrightarrow> e = e' \<and> i = i'"
  "global_key e \<noteq> client_key e' i'"
  "client_key e i \<noteq> global_key e'"
  by (simp_all add: global_key_def client_key_def lit_def keys_cancel endpoint_key_inject)

section \<open>Counters\<close>

lemma spend_at:
  "0 < win \<Longrightarrow>
   spend now win c k m k =
     Some (get_count now m k + c, if get_count now m k = 0 then Some (now + win) else snd (the (m k)))"
  by (auto simp: spend_def incrby_def get_count_def pexpire_def expire_def set_ex_def live_def Let_def
      split: option.splits if_splits)

lemma spend_other: "k' \<noteq> k \<Longrightarrow> spend now win c k m k' = m k'"
  by (simp add: spend_def Let_def incrby_other pexpire_other)

lemma spend_same: "m k = m' k \<Longrightarrow> spend now win c k m k = spend now win c k m' k"
  by (simp add: spend_def incrby_def get_count_def pexpire_def expire_def set_ex_def del_def live_def
      Let_def split: option.splits)

lemma live_same: "m k = m' k \<Longrightarrow> live t m k = live t m' k"
  by (simp add: live_def)

lemma get_count_same: "m k = m' k \<Longrightarrow> get_count t m k = get_count t m' k"
  by (simp add: get_count_def live_def)

lemma remaining_other: "k' \<noteq> k \<Longrightarrow> snd (remaining now win k m) k' = m k'"
  by (simp add: remaining_def pexpire_other)

definition dated :: "str \<Rightarrow> counters \<Rightarrow> bool" where
  "dated k m \<longleftrightarrow> (\<forall>v. m k \<noteq> Some (v, None))"

lemma remaining_dated: "dated k m \<Longrightarrow> snd (remaining now win k' m) k = m k"
  by (auto simp: remaining_def pexpire_def expire_def set_ex_def del_def pttl_def live_def dated_def
      split: option.splits if_splits)

lemma script_refused:
  assumes "script_for cfg e i c now m = ((a, left), m')" "a \<noteq> 1" "dated k m"
  shows "m' k = m k"
  using assms remaining_dated [OF assms(3)]
  by (auto simp: script_for_def admission_script_def split: if_splits prod.splits dest!: sym [of _ "(_, _)"])
     (metis snd_conv)+

lemma script_admitted:
  "script_for cfg e i c now m = ((1, left), m') \<Longrightarrow>
   get_count now m (global_key e) + int c \<le> int (global_limit (limits cfg e)) \<and>
   get_count now m (client_key e i) + int c \<le> int (per_client (limits cfg e)) \<and>
   m' = spend now (window_milliseconds cfg e) (int c) (client_key e i)
          (spend now (window_milliseconds cfg e) (int c) (global_key e) m)"
  by (auto simp: script_for_def admission_script_def split: if_splits prod.splits)

section \<open>What is spent\<close>

lemma spent_simps [simp]:
  "spent P [] = 0"
  "spent P (as @ bs) = spent P as + spent P bs"
  "spent P [r] = (if P r then sp_cost r else 0)"
  by (simp_all add: spent_def)

lemma spent_mono: "(\<And>r. r \<in> set as \<Longrightarrow> P r \<Longrightarrow> Q r) \<Longrightarrow> spent P as \<le> spent Q as"
  by (induction as) (auto simp: spent_def)

lemma spent_cong: "(\<And>r. r \<in> set as \<Longrightarrow> P r \<longleftrightarrow> Q r) \<Longrightarrow> spent P as = spent Q as"
  by (induction as) (auto simp: spent_def)

lemma spent_cover:
  "(\<And>r. r \<in> set as \<Longrightarrow> P r \<Longrightarrow> Q r \<or> R r) \<Longrightarrow> spent P as \<le> spent Q as + spent R as"
  by (induction as) (auto simp: spent_def)

section \<open>A counter with a fixed window\<close>

text \<open>
  What is true of the counter \<open>k\<close> of the requests \<open>P\<close> after the admissions \<open>past\<close>, the last of them
  at \<open>now\<close> or before: the window began at \<open>s\<close>, the value is what was spent since, and whatever was
  spent in a window's length before \<open>s\<close> came from one earlier window.
\<close>

definition since :: "(spending \<Rightarrow> bool) \<Rightarrow> int \<Rightarrow> spending \<Rightarrow> bool" where
  "since P s r \<longleftrightarrow> P r \<and> s \<le> sp_at r"

definition before :: "(spending \<Rightarrow> bool) \<Rightarrow> int \<Rightarrow> int \<Rightarrow> spending \<Rightarrow> bool" where
  "before P t s r \<longleftrightarrow> P r \<and> t \<le> sp_at r \<and> sp_at r < s"

definition opened ::
    "(spending \<Rightarrow> bool) \<Rightarrow> nat \<Rightarrow> int \<Rightarrow> int \<Rightarrow> spending list \<Rightarrow> int \<Rightarrow> int \<Rightarrow> bool" where
  "opened P bound win now past v s \<longleftrightarrow>
     s \<le> now \<and> v = int (spent (since P s) past) \<and> v \<le> int bound \<and>
     (\<forall>r \<in> set past. P r \<longrightarrow> sp_at r \<le> s + win) \<and>
     (\<forall>t. s \<le> t + win \<longrightarrow> spent (before P t s) past \<le> bound)"

definition tracks ::
    "str \<Rightarrow> (spending \<Rightarrow> bool) \<Rightarrow> nat \<Rightarrow> int \<Rightarrow> int \<Rightarrow> counters \<Rightarrow> spending list \<Rightarrow> bool" where
  "tracks k P bound win now m past \<longleftrightarrow>
     (\<forall>r \<in> set past. sp_at r \<le> now) \<and>
     (case m k of
        None \<Rightarrow> spent P past = 0
      | Some (v, d) \<Rightarrow> (\<exists>s. d = Some (s + win) \<and> opened P bound win now past v s))"

definition capped :: "(spending \<Rightarrow> bool) \<Rightarrow> nat \<Rightarrow> int \<Rightarrow> spending list \<Rightarrow> bool" where
  "capped P bound win past \<longleftrightarrow>
     (\<forall>f t. t \<le> f + win \<longrightarrow> spent (\<lambda>r. P r \<and> during f t r) past \<le> 2 * bound)"

lemma tracks_dated: "tracks k P bound win now m past \<Longrightarrow> dated k m"
  by (auto simp: tracks_def dated_def)

lemma opened_before:
  "opened P bound win now past v s \<Longrightarrow> now \<le> t + win \<Longrightarrow> spent (before P t s) past \<le> bound"
  by (simp add: opened_def)

lemma opened_later: "opened P bound win now past v s \<Longrightarrow> now \<le> now' \<Longrightarrow> opened P bound win now' past v s"
  by (simp add: opened_def)

lemma tracks_later:
  "tracks k P bound win now m past \<Longrightarrow> now \<le> now' \<Longrightarrow> m' k = m k \<Longrightarrow> tracks k P bound win now' m' past"
  by (fastforce simp: tracks_def intro: opened_later split: option.splits)

lemma opened_ignores: "\<not> P r \<Longrightarrow> opened P bound win now (past @ [r]) v s = opened P bound win now past v s"
  by (auto simp: opened_def since_def before_def)

lemma tracks_ignores:
  "tracks k P bound win now m past \<Longrightarrow> \<not> P r \<Longrightarrow> sp_at r \<le> now \<Longrightarrow> tracks k P bound win now m (past @ [r])"
  by (auto simp: tracks_def opened_ignores split: option.splits)

text \<open>A request that finds the counter at zero opens a window at its own time.\<close>

lemma idle_spending:
  assumes "tracks k P bound win now m past" "get_count now m k = 0" "0 < win"
  shows "spent (since P now) past = 0"
    and "now \<le> t + win \<Longrightarrow> spent (before P t now) past \<le> bound"
proof -
  have *: "spent (since P now) past = 0 \<and> (now \<le> t + win \<longrightarrow> spent (before P t now) past \<le> bound)" for t
  proof (cases "m k")
    case None
    then have "spent P past = 0" using assms(1) by (simp add: tracks_def)
    moreover have "spent (since P now) past \<le> spent P past" "spent (before P t now) past \<le> spent P past"
      by (auto simp: since_def before_def intro: spent_mono)
    ultimately show ?thesis by simp
  next
    case (Some x)
    then obtain v s where m: "m k = Some (v, Some (s + win))" and o: "opened P bound win now past v s"
      using assms(1) by (cases x) (auto simp: tracks_def)
    show ?thesis
    proof (cases "now \<le> s + win")
      case True
      then have "v = 0" using m assms(2) by (simp add: get_count_def live_def)
      then have z: "spent (since P s) past = 0" using o by (simp add: opened_def)
      have "spent (since P now) past \<le> spent (since P s) past"
        using o by (auto simp: since_def opened_def intro!: spent_mono)
      moreover have "spent (before P t now) past \<le> spent (before P t s) past + spent (since P s) past"
        by (rule spent_cover) (auto simp: since_def before_def)
      ultimately show ?thesis using z opened_before [OF o, of t] by auto
    next
      case False
      have "spent (since P now) past = spent (\<lambda>_. False) past"
        using o False by (intro spent_cong) (fastforce simp: since_def opened_def)
      moreover have "spent (before P t now) past \<le> spent (since P s) past" if "now \<le> t + win"
        using that False by (auto simp: since_def before_def intro!: spent_mono)
      ultimately show ?thesis using o by (auto simp: opened_def spent_def)
    qed
  qed
  show "spent (since P now) past = 0" using * by simp
  show "now \<le> t + win \<Longrightarrow> spent (before P t now) past \<le> bound" using * by simp
qed

lemma tracks_spend:
  assumes t: "tracks k P bound win (sp_at r) m past" and "0 < win" "P r"
    and room: "get_count (sp_at r) m k + int (sp_cost r) \<le> int bound"
    and m': "m' k = spend (sp_at r) win (int (sp_cost r)) k m k"
  shows "tracks k P bound win (sp_at r) m' (past @ [r])"
proof (cases "get_count (sp_at r) m k = 0")
  case True
  have "opened P bound win (sp_at r) (past @ [r]) (int (sp_cost r)) (sp_at r)"
    using idle_spending [OF t True \<open>0 < win\<close>] t room True \<open>P r\<close> \<open>0 < win\<close>
    by (fastforce simp: opened_def tracks_def since_def before_def)
  then show ?thesis using t True \<open>0 < win\<close> by (simp add: tracks_def m' spend_at)
next
  case False
  then obtain v s where m: "m k = Some (v, Some (s + win))" "sp_at r \<le> s + win"
    and o: "opened P bound win (sp_at r) past v s"
    using t by (auto simp: tracks_def get_count_def live_def split: option.splits if_splits)
  then have "opened P bound win (sp_at r) (past @ [r]) (v + int (sp_cost r)) s"
    using room \<open>P r\<close> by (auto simp: opened_def since_def before_def get_count_def live_def)
  then show ?thesis using t False m \<open>0 < win\<close>
    by (simp add: tracks_def m' spend_at get_count_def live_def)
qed

lemma capped_snoc:
  assumes "tracks k P bound win (sp_at r) m (past @ [r])" "capped P bound win past" "P r"
  shows "capped P bound win (past @ [r])"
proof (unfold capped_def, intro allI impI)
  fix f t :: int assume w: "t \<le> f + win"
  show "spent (\<lambda>r. P r \<and> during f t r) (past @ [r]) \<le> 2 * bound"
  proof (cases "sp_at r \<le> t")
    case True
    show ?thesis
    proof (cases "m k")
      case None
      have "spent (\<lambda>r. P r \<and> during f t r) (past @ [r]) \<le> spent P (past @ [r])"
        by (rule spent_mono) simp
      then show ?thesis using assms(1) None by (simp add: tracks_def)
    next
      case (Some x)
      then obtain v s where o: "opened P bound win (sp_at r) (past @ [r]) v s"
        using assms(1) by (cases x) (auto simp: tracks_def)
      then have "spent (before P f s) (past @ [r]) \<le> bound" "spent (since P s) (past @ [r]) \<le> bound"
        using w True by (auto simp: opened_def simp del: spent_simps)
      moreover have "spent (\<lambda>r. P r \<and> during f t r) (past @ [r]) \<le>
          spent (before P f s) (past @ [r]) + spent (since P s) (past @ [r])"
        by (rule spent_cover) (auto simp: before_def since_def during_def)
      ultimately show ?thesis by linarith
    qed
  next
    case False
    then show ?thesis using assms(2) w by (simp add: capped_def during_def)
  qed
qed

text \<open>
  The counter of a group of requests: an admission of the group finds room under the bound and
  spends on \<open>k\<close>; any other run of the script leaves \<open>k\<close> as it is.
\<close>

locale window_counter =
  fixes cfg :: admission_cfg and k :: str and P :: "spending \<Rightarrow> bool" and bound :: nat and win :: int
  assumes admits:
    "script_for cfg (sp_endpoint r) (sp_identity r) (sp_cost r) now m = ((1, left), m') \<Longrightarrow> P r \<Longrightarrow>
     get_count now m k + int (sp_cost r) \<le> int bound \<and> m' k = spend now win (int (sp_cost r)) k m k"
  and passes:
    "script_for cfg (sp_endpoint r) (sp_identity r) (sp_cost r) now m = ((1, left), m') \<Longrightarrow> \<not> P r \<Longrightarrow>
     m' k = m k"
begin

lemma serve_capped:
  assumes "tracks k P bound win now m past" "capped P bound win past" "0 < win"
    "sorted (map sp_at rs)" "\<forall>r \<in> set rs. now \<le> sp_at r"
  shows "capped P bound win (past @ serve cfg rs m)"
  using assms
proof (induction rs arbitrary: now m past)
  case (Cons r rs)
  obtain a l m' where s: "script_for cfg (sp_endpoint r) (sp_identity r) (sp_cost r) (sp_at r) m = ((a, l), m')"
    by (metis prod.exhaust)
  have t: "tracks k P bound win (sp_at r) m past"
    using tracks_later [OF Cons.prems(1), of "sp_at r" m] Cons.prems(5) by simp
  have rest: "sorted (map sp_at rs)" "\<forall>r' \<in> set rs. sp_at r \<le> sp_at r'"
    using Cons.prems(4) by auto
  show ?case
  proof (cases "a = 1")
    case False
    then have "m' k = m k" using script_refused [OF s] tracks_dated [OF t] by blast
    then show ?thesis
      using Cons.IH [OF tracks_later [OF t] Cons.prems(2,3) rest] False by (simp add: s)
  next
    case True
    have "tracks k P bound win (sp_at r) m' (past @ [r]) \<and> capped P bound win (past @ [r])"
    proof (cases "P r")
      case p: True
      then have "tracks k P bound win (sp_at r) m' (past @ [r])"
        using admits [of r "sp_at r" m l m'] s True Cons.prems(3) by (intro tracks_spend [OF t]) auto
      then show ?thesis using capped_snoc [OF _ Cons.prems(2) p] by blast
    next
      case p: False
      then have "m' k = m k" using passes [of r "sp_at r" m l m'] s True by simp
      then have "tracks k P bound win (sp_at r) m' (past @ [r])"
        using tracks_ignores [OF tracks_later [OF t] p] by simp
      then show ?thesis using p Cons.prems(2) by (simp add: capped_def)
    qed
    then show ?thesis
      using Cons.IH [of "sp_at r" m' "past @ [r]"] Cons.prems(3) rest True by (simp add: s)
  qed
qed simp

lemma fresh_capped:
  assumes "0 < win" "sorted (map sp_at rs)" "t \<le> f + win"
  shows "spent (\<lambda>r. P r \<and> during f t r) (serve cfg rs (\<lambda>_. None)) \<le> 2 * bound"
proof (cases rs)
  case (Cons r rs')
  have "capped P bound win ([] @ serve cfg rs (\<lambda>_. None))"
    using assms Cons by (intro serve_capped [of "sp_at r"]) (auto simp: tracks_def capped_def)
  then show ?thesis using assms(3) by (simp add: capped_def)
qed simp

end

definition of_endpoint :: "endpoint \<Rightarrow> spending \<Rightarrow> bool" where
  "of_endpoint e r \<longleftrightarrow> sp_endpoint r = e"

definition of_client :: "endpoint \<Rightarrow> str \<Rightarrow> spending \<Rightarrow> bool" where
  "of_client e i r \<longleftrightarrow> sp_endpoint r = e \<and> sp_identity r = i"

interpretation global_counter:
  window_counter cfg "global_key e" "of_endpoint e" "global_limit (limits cfg e)"
    "window_milliseconds cfg e"
  for cfg e
  by unfold_locales
    (auto dest!: script_admitted simp: of_endpoint_def spend_other)

interpretation client_counter:
  window_counter cfg "client_key e i" "of_client e i" "per_client (limits cfg e)"
    "window_milliseconds cfg e"
  for cfg e i
  by unfold_locales
    (auto dest!: script_admitted simp: of_client_def spend_other intro: spend_same)

text \<open>
  C6. However requests arrive, in any stretch of time no longer than the window of an endpoint the
  script admits at most twice its limit: twice \<open>per_client\<close> for one client and twice \<open>global\<close> for
  all of them together, counting the cost of each request. Counters of different endpoints and
  clients never share a key.
\<close>

theorem admission_window_cap:
  assumes "sorted (map sp_at rs)" "0 < window_milliseconds cfg e" "till \<le> start + window_milliseconds cfg e"
  shows "spent (\<lambda>r. of_client e i r \<and> during start till r) (serve cfg rs (\<lambda>_. None))
           \<le> 2 * per_client (limits cfg e) \<and>
         spent (\<lambda>r. of_endpoint e r \<and> during start till r) (serve cfg rs (\<lambda>_. None))
           \<le> 2 * global_limit (limits cfg e)"
  using client_counter.fresh_capped [OF assms(2,1,3)] global_counter.fresh_capped [OF assms(2,1,3)]
  by auto

definition sample_cfg :: admission_cfg where
  "sample_cfg = \<lparr>cfg_window = 60000, cfg_limits = (\<lambda>_. \<lparr>global_limit = 3, per_client = 2\<rparr>)\<rparr>"

definition sample_rush :: "spending list" where
  "sample_rush =
     map (\<lambda>t. \<lparr>sp_at = t, sp_endpoint = Login, sp_identity = lit ''a'', sp_cost = 1\<rparr>)
       [0, 59998, 59999, 60001, 60002, 60003]"

text \<open>One request ends a window and two begin the next, all within 20 milliseconds.\<close>

theorem admission_window_cap_witness:
  "spent (\<lambda>r. of_client Login (lit ''a'') r \<and> during 59990 60010 r) (serve sample_cfg sample_rush (\<lambda>_. None)) = 3 \<and>
   spent (\<lambda>r. of_client Login (lit ''a'') r \<and> during 59990 60010 r) (serve sample_cfg sample_rush (\<lambda>_. None))
     \<le> 2 * per_client (limits sample_cfg Login)"
proof
  show "spent (\<lambda>r. of_client Login (lit ''a'') r \<and> during 59990 60010 r)
          (serve sample_cfg sample_rush (\<lambda>_. None)) = 3"
    by code_simp
  show "spent (\<lambda>r. of_client Login (lit ''a'') r \<and> during 59990 60010 r)
          (serve sample_cfg sample_rush (\<lambda>_. None)) \<le> 2 * per_client (limits sample_cfg Login)"
    by (rule conjunct1 [OF admission_window_cap [of _ _ Login]])
       (simp_all add: sample_rush_def sample_cfg_def window_milliseconds_def window_def)
qed

section \<open>Refusals\<close>

lemma remaining_counts:
  "0 < win \<Longrightarrow> get_count now (snd (remaining now win k m)) k' = get_count now m k'"
  by (simp add: remaining_def get_count_def live_pexpire)

lemma remaining_ends:
  "0 < win \<Longrightarrow> remaining now win k m = (left, m') \<Longrightarrow>
   1 \<le> left \<and> (\<forall>t > now + left. live t m' k = None)"
  by (auto simp: remaining_def pttl_def pexpire_def expire_def set_ex_def live_def
      split: option.splits if_splits)

lemma seconds_cover: "left < 2 ^ 63 \<Longrightarrow> left \<le> 1000 * int (milliseconds_to_seconds left)"
  unfolding milliseconds_to_seconds_def by (simp add: min_def zdiv_int) linarith

text \<open>
  A refusal costs nothing and says when to come back: no counter changes its value, the seconds
  announced cover the milliseconds the script returned, and once that time passed the counter that
  had no room is gone, so the next request starts a new window.
\<close>

theorem refusal_is_honest:
  assumes "script_for cfg e i c now m = ((a, left), m')" "a \<noteq> 1" "0 < window_milliseconds cfg e"
  shows "(\<forall>k. get_count now m' k = get_count now m k) \<and> 1 \<le> left \<and>
         (left < 2 ^ 63 \<longrightarrow> left \<le> 1000 * int (milliseconds_to_seconds left)) \<and>
         (\<exists>(k, bound) \<in> {(global_key e, global_limit (limits cfg e)),
                        (client_key e i, per_client (limits cfg e))}.
            int bound < get_count now m k + int c \<and> (\<forall>t > now + left. get_count t m' k = 0))"
proof -
  from assms obtain k bound where r: "remaining now (window_milliseconds cfg e) k m = (left, m')"
    and k: "(k, bound) \<in> {(global_key e, global_limit (limits cfg e)), (client_key e i, per_client (limits cfg e))}"
    and full: "int bound < get_count now m k + int c"
    by (auto simp: script_for_def admission_script_def split: if_splits prod.splits)
  have "\<forall>t > now + left. get_count t m' k = 0"
    using remaining_ends [OF assms(3) r] by (simp add: get_count_def)
  moreover have "\<forall>j. get_count now m' j = get_count now m j"
    using remaining_counts [OF assms(3), of now k m] r by simp
  ultimately show ?thesis
    using k full seconds_cover [of left] remaining_ends [OF assms(3) r] by blast
qed

definition full_counters :: counters where
  "full_counters = [global_key Login \<mapsto> (2, None), client_key Login (lit ''a'') \<mapsto> (2, Some 1500)]"

lemma full_counters_simps:
  "full_counters (global_key Login) = Some (2, None)"
  "full_counters (client_key Login (lit ''a'')) = Some (2, Some 1500)"
  by (simp_all add: full_counters_def)

lemma full_refused:
  "script_for sample_cfg Login (lit ''a'') 1 1000 full_counters = ((0, 500), full_counters)"
  by (simp add: script_for_def admission_script_def remaining_def pttl_def get_count_def live_def
      full_counters_simps limits_def sample_cfg_def)

theorem refusal_is_honest_witness:
  "(\<forall>k. get_count 1000 full_counters k = get_count 1000 full_counters k) \<and>
   milliseconds_to_seconds 500 = 1 \<and> (1 :: int) \<le> 500 \<and>
   (\<exists>(k, bound) \<in> {(global_key Login, 3), (client_key Login (lit ''a''), 2)}.
      int bound < get_count 1000 full_counters k + 1 \<and>
      (\<forall>t > 1000 + 500. get_count t full_counters k = 0))"
  using refusal_is_honest [OF full_refused]
  by (simp add: window_milliseconds_def window_def limits_def sample_cfg_def milliseconds_to_seconds_def)

section \<open>The check fails closed\<close>

lemma check_allowed:
  assumes "exec E (check cfg e i c) w tr Allowed w'"
  shows "\<exists>a b d.
           0 < aw_permits a (gate e) \<and> fst (fst (script_for cfg e i c (aw_time b) (aw_counters b))) = 1 \<and>
           tr = [(a, acquire (gate e) a),
                 (b, b\<lparr>aw_counters := snd (script_for cfg e i c (aw_time b) (aw_counters b))\<rparr>),
                 (d, release (gate e) d)]"
proof -
  from assms obtain tr1 permit w1 tr2 where
      p: "exec E (inside (acquire (gate e)) (\<lambda>w. 0 < aw_permits w (gate e))) w tr1 permit w1"
    and k: "exec E (if \<not> permit then Ret Unavailable
              else bind (check_redis cfg e i c) (\<lambda>r. case r of
                  Inr d \<Rightarrow> inside (release (gate e)) (\<lambda>_. d)
                | Inl _ \<Rightarrow> inside (release (gate e) \<circ> warn_due) (\<lambda>_. Unavailable))) w1 tr2 Allowed w'"
    and tr: "tr = tr1 @ tr2"
    unfolding check_def by (rule exec_bindE)
  from exec_insideD [OF p] obtain a where a: "permit = (0 < aw_permits a (gate e))"
      "tr1 = [(a, acquire (gate e) a)]" by blast
  have permit: permit using k by (cases permit) (auto dest: exec_RetD)
  with k obtain tr3 r w2 tr4 where c: "exec E (check_redis cfg e i c) w1 tr3 r w2"
    and x: "exec E (case r of Inr d \<Rightarrow> inside (release (gate e)) (\<lambda>_. d)
              | Inl _ \<Rightarrow> inside (release (gate e) \<circ> warn_due) (\<lambda>_. Unavailable)) w2 tr4 Allowed w'"
    and tr2: "tr2 = tr3 @ tr4"
    by (auto elim: exec_bindE)
  from x obtain d where d: "r = Inr Allowed" "tr4 = [(d, release (gate e) d)]"
    by (cases r) (auto dest!: exec_insideD)
  from exec_awaitD [OF c [unfolded d check_redis_def]] obtain t1 v t2 w3 where
      "exec E (command (\<lambda>w. w\<lparr>aw_counters := snd (script_for cfg e i c (aw_time w) (aw_counters w))\<rparr>)
         (\<lambda>w. fst (script_for cfg e i c (aw_time w) (aw_counters w)))) w1 t1 (Inr v) w3"
    and "exec E (case v of (allowed, left) \<Rightarrow>
           ok (if allowed = 1 then Allowed else Limited (milliseconds_to_seconds left))) w3 t2 (Inr Allowed) w2"
    and "tr3 = t1 @ t2" by blast
  then obtain b where "tr3 = [(b, b\<lparr>aw_counters := snd (script_for cfg e i c (aw_time b) (aw_counters b))\<rparr>)]"
    "v = fst (script_for cfg e i c (aw_time b) (aw_counters b))" "fst v = 1"
    by (cases v) (auto dest!: exec_commandD exec_RetD split: if_splits, metis fst_conv)
  then show ?thesis using a permit d tr tr2 by auto
qed

text \<open>
  C16. A request is passed on only when it has an address, a permit of its pool was free and the
  script, run once under the identity of that address, admitted it; the permit is given back. A
  store that fails, answers late or loses its answer never lets a request through.
\<close>

theorem admission_fails_closed:
  assumes "exec E (admit_request contains trusted sha cfg e q) w tr None w'"
  shows "\<exists>client a b d.
           request_client contains trusted q = Some client \<and> 0 < aw_permits a (gate e) \<and>
           (case script_for cfg e (client_identity sha client) 1 (aw_time b) (aw_counters b) of
              ((allowed, _), counters) \<Rightarrow>
                allowed = 1 \<and>
                tr = [(a, acquire (gate e) a), (b, b\<lparr>aw_counters := counters\<rparr>), (d, release (gate e) d)])"
proof (cases "request_client contains trusted q")
  case None
  then show ?thesis using assms by (auto simp: admit_request_def dest!: exec_insideD)
next
  case (Some client)
  with assms obtain tr1 d w1 tr2 where
      c: "exec E (check cfg e (client_identity sha client) 1) w tr1 d w1"
    and k: "exec E (Ret (case verdict d of Inl kind \<Rightarrow> Some (rejection e kind) | Inr _ \<Rightarrow> None)) w1 tr2 None w'"
    and tr: "tr = tr1 @ tr2"
    by (auto simp: admit_request_def elim: exec_bindE)
  then have "d = Allowed" "tr2 = []"
    by (cases d; auto dest!: exec_RetD)+
  with check_allowed c tr Some show ?thesis by (fastforce simp: case_prod_beta)
qed

definition in_net :: "byte list \<Rightarrow> ip_addr \<Rightarrow> bool" where
  "in_net prefix a = (case a of V4 b \<Rightarrow> take (length prefix) b = prefix | V6 _ \<Rightarrow> False)"

definition sample_aw :: admission_world where
  "sample_aw =
     \<lparr>aw_time = 0, aw_counters = (\<lambda>_. None), aw_permits = (\<lambda>_. 1), aw_wall = 0, last_warning_at = 0\<rparr>"

definition sample_visit :: public_request where
  "sample_visit =
     \<lparr>pr_peer = Some (V4 [203, 0, 113, 9]), pr_forwarded = [], pr_origin = False, pr_content_type = None\<rparr>"

lemma sample_admitted:
  "fst (run (admit_request in_net [] id sample_cfg Login sample_visit) sample_aw) = None"
  by (simp add: admit_request_def request_client_def sample_visit_def client_address_def check_def
      check_redis_def script_for_def admission_script_def sample_aw_def sample_cfg_def limits_def
      get_count_def live_def acquire_def)

theorem admission_fails_closed_witness:
  "\<exists>tr w' (a :: admission_world) (b :: admission_world). exec (\<lambda>_ _. False) (admit_request in_net [] id sample_cfg Login sample_visit) sample_aw tr None w' \<and>
     length tr = 3 \<and> 0 < aw_permits a (gate Login) \<and>
     fst (fst (script_for sample_cfg Login [4, 203, 0, 113, 9] 1 (aw_time b) (aw_counters b))) = 1"
proof -
  obtain tr where tr: "exec (\<lambda>_ _. False) (admit_request in_net [] id sample_cfg Login sample_visit) sample_aw tr None
      (snd (run (admit_request in_net [] id sample_cfg Login sample_visit) sample_aw))"
    using exec_run sample_admitted by metis
  have client: "request_client in_net [] sample_visit = Some (V4 [203, 0, 113, 9])"
    by (simp add: request_client_def sample_visit_def client_address_def)
  from admission_fails_closed [OF tr] obtain a b :: admission_world where "0 < aw_permits a (gate Login)"
    "fst (fst (script_for sample_cfg Login [4, 203, 0, 113, 9] 1 (aw_time b) (aw_counters b))) = 1" "length tr = 3"
    by (auto simp: client client_identity_def case_prod_beta)
  with tr show ?thesis by blast
qed

section \<open>Addresses\<close>

lemma forwarded_split:
  "forwarded_entries (forged @ [Some (junk @ 44 # genuine)]) =
   forwarded_entries [Some genuine] @ rev (split_at 44 junk) @ forwarded_entries forged"
  by (simp add: forwarded_entries_def map_filter_def split_at_append)

lemma first_untrusted_append:
  "first_untrusted is_trusted peer xs \<noteq> peer \<Longrightarrow>
   first_untrusted is_trusted peer (xs @ ys) = first_untrusted is_trusted peer xs"
  by (induction xs) (auto split: option.splits if_splits)

lemma first_untrusted_cases:
  "first_untrusted is_trusted peer xs = peer \<or> \<not> is_trusted (first_untrusted is_trusted peer xs)"
  by (induction xs) (auto split: option.splits)

text \<open>
  C17. The address a request is counted under cannot be chosen by its sender. A peer that is no
  trusted proxy is counted under its own address, whatever its headers say. Behind trusted proxies,
  once the text they wrote names a client, nothing the sender put in front of it, in the same header
  or in earlier ones, changes the result, and the client named is no proxy.
\<close>

theorem forwarded_for_unforgeable:
  shows "((\<forall>net \<in> set nets. \<not> contains net (to_canonical peer)) \<longrightarrow>
            client_address contains peer headers nets = to_canonical peer) \<and>
         (client_address contains peer [Some genuine] nets \<noteq> to_canonical peer \<longrightarrow>
            client_address contains peer (forged @ [Some (junk @ 44 # genuine)]) nets =
              client_address contains peer [Some genuine] nets \<and>
            (\<forall>net \<in> set nets. \<not> contains net (client_address contains peer [Some genuine] nets)))"
  using first_untrusted_append [of "\<lambda>a. \<exists>net \<in> set nets. contains net a" "to_canonical peer"
      "forwarded_entries [Some genuine]"]
    first_untrusted_cases [of "\<lambda>a. \<exists>net \<in> set nets. contains net a" "to_canonical peer"
      "forwarded_entries [Some genuine]"]
  by (auto simp: client_address_def Let_def forwarded_split)

lemma dotted_entries:
  "forwarded_entries [Some (dotted [203, 0, 113, 9] @ lit '', '' @ dotted [10, 0, 0, 7])] =
     [32 # dotted [10, 0, 0, 7], dotted [203, 0, 113, 9]]"
  by (simp add: forwarded_entries_def map_filter_def dotted_def dec.simps lit_def)

lemma dotted_trim: "trim (32 # dotted [10, 0, 0, 7]) = dotted [10, 0, 0, 7]"
    "trim (dotted [203, 0, 113, 9]) = dotted [203, 0, 113, 9]"
  by (simp_all add: trim_def trim_start_def trim_end_def is_whitespace_def dotted_def dec.simps)

theorem forwarded_for_unforgeable_witness:
  "client_address in_net (V4 [10, 0, 0, 1])
     [Some (lit ''1.1.1.1''),
      Some (lit ''8.8.8.8, junk'' @ 44 # dotted [203, 0, 113, 9] @ lit '', '' @ dotted [10, 0, 0, 7])] [[10]] =
     V4 [203, 0, 113, 9] \<and>
   client_address in_net (V4 [198, 51, 100, 4]) [Some (lit ''1.1.1.1'')] [[10]] = V4 [198, 51, 100, 4]"
proof -
  have g: "client_address in_net (V4 [10, 0, 0, 1])
      [Some (dotted [203, 0, 113, 9] @ lit '', '' @ dotted [10, 0, 0, 7])] [[10]] = V4 [203, 0, 113, 9]"
    by (simp add: client_address_def dotted_entries dotted_trim parse_dotted in_net_def)
  show ?thesis
    using forwarded_for_unforgeable [of "[[10]]" in_net "V4 [10, 0, 0, 1]" "[]"
        "dotted [203, 0, 113, 9] @ lit '', '' @ dotted [10, 0, 0, 7]" "[Some (lit ''1.1.1.1'')]"
        "lit ''8.8.8.8, junk''"]
      forwarded_for_unforgeable [of "[[10]]" in_net "V4 [198, 51, 100, 4]" "[Some (lit ''1.1.1.1'')]"
        "[]" "[]" "[]"] g
    by (simp add: in_net_def)
qed

text \<open>
  Two addresses are counted as one client exactly when they are the same IPv4 address, however
  written, or lie in the same IPv6 network of 64 bits.
\<close>

theorem client_identity_by_network:
  assumes "inj_on sha {b. length b \<le> 9}" "valid_ip a" "valid_ip b"
  shows "client_identity sha a = client_identity sha b \<longleftrightarrow>
           (case (to_canonical a, to_canonical b) of
              (V4 x, V4 y) \<Rightarrow> x = y
            | (V6 x, V6 y) \<Rightarrow> take 8 x = take 8 y
            | _ \<Rightarrow> False)"
proof -
  have len: "length (client_bytes c) \<le> 9" if "valid_ip c" for c
    using that by (cases c) (auto simp: ipv4_mapped_def split: option.splits if_splits)
  have "client_identity sha a = client_identity sha b \<longleftrightarrow> client_bytes a = client_bytes b"
    using assms len by (auto simp: client_identity_def inj_on_def)
  also have "\<dots> \<longleftrightarrow> (case (to_canonical a, to_canonical b) of
      (V4 x, V4 y) \<Rightarrow> x = y | (V6 x, V6 y) \<Rightarrow> take 8 x = take 8 y | _ \<Rightarrow> False)"
    by (cases a; cases b) (auto split: option.splits)
  finally show ?thesis .
qed

theorem client_identity_by_network_witness:
  "client_identity id (V4 [203, 0, 113, 9]) =
     client_identity id (V6 (replicate 10 0 @ [255, 255, 203, 0, 113, 9])) \<and>
   client_identity id (V6 ([32, 1] @ replicate 14 0)) = client_identity id (V6 ([32, 1] @ replicate 13 0 @ [1])) \<and>
   client_identity id (V4 [6, 0, 0, 0]) \<noteq> client_identity id (V4 [4, 0, 0, 0])"
  using client_identity_by_network [of id "V4 [203, 0, 113, 9]" "V6 (replicate 10 0 @ [255, 255, 203, 0, 113, 9])"]
    client_identity_by_network [of id "V6 ([32, 1] @ replicate 14 0)" "V6 ([32, 1] @ replicate 13 0 @ [1])"]
    client_identity_by_network [of id "V4 [6, 0, 0, 0]" "V4 [4, 0, 0, 0]"]
  by (simp add: ipv4_mapped_def eval_nat_numeral)

end
