(* ===== verification/Kv_Bucket.thy ===== *)
theory Kv_Bucket
  imports Redis_Keys
begin

text \<open>
  A key-value bucket of the message broker, as the services use it: values live for the age of the
  bucket, \<open>create\<close> stores a value only where there is none, \<open>get\<close> reads. The bucket also keeps the
  history of its answers, when each value was found or left under a key, which the program does
  not see.

  First write wins: as long as the age has not passed since the first answer for a key, every
  request finds the value of that answer.
\<close>

record ('k, 'v) bucket =
  kb_data :: "('k, 'v) keyed"
  kb_seen :: "(int \<times> 'k \<times> 'v) list"

definition empty_bucket :: "('k, 'v) bucket" where
  "empty_bucket = \<lparr>kb_data = (\<lambda>_. None), kb_seen = []\<rparr>"

definition kv_get :: "int \<Rightarrow> 'k \<Rightarrow> ('k, 'v) bucket \<Rightarrow> 'v option" where
  "kv_get t k b = live t (kb_data b) k"

definition kv_read :: "int \<Rightarrow> 'k \<Rightarrow> ('k, 'v) bucket \<Rightarrow> ('k, 'v) bucket" where
  "kv_read t k b = (case kv_get t k b of None \<Rightarrow> b | Some v \<Rightarrow> b\<lparr>kb_seen := (t, k, v) # kb_seen b\<rparr>)"

definition kv_create :: "int \<Rightarrow> int \<Rightarrow> 'k \<Rightarrow> 'v \<Rightarrow> ('k, 'v) bucket \<Rightarrow> ('k, 'v) bucket" where
  "kv_create age t k v b =
     (case kv_get t k b of
        None \<Rightarrow> \<lparr>kb_data = set_ex t age k v (kb_data b), kb_seen = (t, k, v) # kb_seen b\<rparr>
      | Some _ \<Rightarrow> b)"

section \<open>First write wins\<close>

definition settled :: "int \<Rightarrow> int \<Rightarrow> ('k, 'v) bucket \<Rightarrow> 'k \<Rightarrow> bool" where
  "settled age now b k \<longleftrightarrow>
     (\<exists>c v. (c, k, v) \<in> set (kb_seen b) \<and>
        (\<forall>t v'. (t, k, v') \<in> set (kb_seen b) \<longrightarrow> c \<le> t \<and> t \<le> now \<and> (t \<le> c + age \<longrightarrow> v' = v)) \<and>
        (kb_data b k = Some (v, Some (c + age)) \<or> c + age < now))"

definition bucket_ok :: "int \<Rightarrow> int \<Rightarrow> ('k, 'v) bucket \<Rightarrow> bool" where
  "bucket_ok age now b \<longleftrightarrow>
     (\<forall>k. settled age now b k \<or> (kb_data b k = None \<and> (\<forall>t v. (t, k, v) \<notin> set (kb_seen b))))"

definition logged :: "('k, 'v) bucket \<Rightarrow> bool" where
  "logged b \<longleftrightarrow> (\<forall>k v d. kb_data b k = Some (v, d) \<longrightarrow> (\<exists>t. (t, k, v) \<in> set (kb_seen b)))"

lemma logged_empty [simp]: "logged empty_bucket"
  by (simp add: logged_def empty_bucket_def)

lemma logged_create: "logged b \<Longrightarrow> logged (kv_create age t k v b)"
  by (fastforce simp: logged_def kv_create_def set_ex_def split: option.splits)

lemma logged_read: "logged b \<Longrightarrow> logged (kv_read t k b)"
  by (fastforce simp: logged_def kv_read_def split: option.splits)

lemma logged_get: "logged b \<Longrightarrow> kv_get t k b = Some v \<Longrightarrow> \<exists>t. (t, k, v) \<in> set (kb_seen b)"
  by (auto simp: logged_def kv_get_def live_def split: option.splits if_splits)

text \<open>A condition on keys and values holds of the history when it holds of what is stored.\<close>

lemma seen_create:
  "\<forall>(t, k, v) \<in> set (kb_seen b). P k v \<Longrightarrow> P k v \<Longrightarrow> \<forall>(t, k, v) \<in> set (kb_seen (kv_create age now k v b)). P k v"
  by (auto simp: kv_create_def split: option.splits)

lemma seen_read_all:
  "logged b \<Longrightarrow> \<forall>(t, k, v) \<in> set (kb_seen b). P k v \<Longrightarrow> \<forall>(t, k, v) \<in> set (kb_seen (kv_read now k b)). P k v"
  using logged_get by (fastforce simp: kv_read_def split: option.splits)

lemma bucket_ok_empty [simp]: "bucket_ok age now empty_bucket"
  by (simp add: bucket_ok_def empty_bucket_def)

lemma bucket_ok_later: "bucket_ok age now b \<Longrightarrow> now \<le> now' \<Longrightarrow> bucket_ok age now' b"
  by (fastforce simp: bucket_ok_def settled_def)

lemma settled_other:
  "k' \<noteq> k \<Longrightarrow> kb_data b' k' = kb_data b k' \<Longrightarrow> kb_seen b' = (t, k, v) # kb_seen b \<Longrightarrow>
   settled age now b' k' = settled age now b k'"
  by (auto simp: settled_def)

lemma bucket_ok_read:
  assumes "bucket_ok age t b"
  shows "bucket_ok age t (kv_read t k b)"
proof (cases "kv_get t k b")
  case None
  then show ?thesis using assms by (simp add: kv_read_def)
next
  case (Some v)
  let ?b = "kv_read t k b"
  have b: "kb_data ?b = kb_data b" "kb_seen ?b = (t, k, v) # kb_seen b"
    using Some by (simp_all add: kv_read_def)
  obtain c v0 where s: "(c, k, v0) \<in> set (kb_seen b)"
      "\<forall>t' v'. (t', k, v') \<in> set (kb_seen b) \<longrightarrow> c \<le> t' \<and> t' \<le> t \<and> (t' \<le> c + age \<longrightarrow> v' = v0)"
      "kb_data b k = Some (v0, Some (c + age)) \<or> c + age < t"
    using assms Some by (force simp: bucket_ok_def settled_def kv_get_def live_def)
  have "t \<le> c + age \<Longrightarrow> v = v0" using s(3) Some by (auto simp: kv_get_def live_def)
  then have "settled age t ?b k" using s b unfolding settled_def by auto
  moreover have "settled age t ?b k' = settled age t b k'" if "k' \<noteq> k" for k'
    using that b by (intro settled_other) auto
  ultimately show ?thesis using assms b unfolding bucket_ok_def by (metis prod.inject set_ConsD)
qed

lemma bucket_ok_create:
  assumes "bucket_ok age t b" "0 \<le> age"
  shows "bucket_ok age t (kv_create age t k v b)"
proof (cases "kv_get t k b")
  case None
  let ?b = "kv_create age t k v b"
  have b: "kb_data ?b = set_ex t age k v (kb_data b)" "kb_seen ?b = (t, k, v) # kb_seen b"
    using None by (simp_all add: kv_create_def)
  have "settled age t ?b k"
  proof (cases "settled age t b k")
    case True
    then obtain c v0 where s: "(c, k, v0) \<in> set (kb_seen b)"
        "\<forall>t' v'. (t', k, v') \<in> set (kb_seen b) \<longrightarrow> c \<le> t' \<and> t' \<le> t \<and> (t' \<le> c + age \<longrightarrow> v' = v0)"
        "kb_data b k = Some (v0, Some (c + age)) \<or> c + age < t"
      unfolding settled_def by blast
    then have "c + age < t" using None by (auto simp: kv_get_def live_def split: if_splits)
    with s b show ?thesis unfolding settled_def by (auto intro!: exI [of _ c] exI [of _ v0])
  next
    case False
    then have "\<forall>t v. (t, k, v) \<notin> set (kb_seen b)" using assms by (auto simp: bucket_ok_def)
    with b assms(2) show ?thesis
      unfolding settled_def by (auto simp: set_ex_def intro!: exI [of _ t] exI [of _ v])
  qed
  moreover have "settled age t ?b k' = settled age t b k'" "kb_data ?b k' = kb_data b k'" if "k' \<noteq> k" for k'
    using that b settled_other [of k' k ?b b t v age t] by (simp_all add: set_ex_def)
  ultimately show ?thesis using assms(1) b unfolding bucket_ok_def by (metis prod.inject set_ConsD)
next
  case (Some x)
  then show ?thesis using assms by (simp add: kv_create_def)
qed

lemma first_write_wins:
  assumes "bucket_ok age now b" "\<And>t v. (t, k, v) \<in> set (kb_seen b) \<Longrightarrow> t0 \<le> t \<and> t \<le> t0 + age"
    and "(t, k, v) \<in> set (kb_seen b)" "(t', k, v') \<in> set (kb_seen b)"
  shows "v = v'"
proof -
  obtain c u where c: "(c, k, u) \<in> set (kb_seen b)"
    and s: "\<And>t v. (t, k, v) \<in> set (kb_seen b) \<Longrightarrow> t \<le> c + age \<Longrightarrow> v = u"
    using assms(1,3) unfolding bucket_ok_def settled_def by blast
  have "t \<le> c + age" "t' \<le> c + age" using assms(2) [OF c] assms(2) [OF assms(3)] assms(2) [OF assms(4)] by auto
  then show ?thesis using s assms(3,4) by blast
qed

lemma seen_grows:
  "set (kb_seen b) \<subseteq> set (kb_seen (kv_read t k b))"
  "set (kb_seen b) \<subseteq> set (kb_seen (kv_create age t k v b))"
  by (auto simp: kv_read_def kv_create_def split: option.splits)

lemma seen_read: "kv_get t k b = Some v \<Longrightarrow> (t, k, v) \<in> set (kb_seen (kv_read t k b))"
  by (simp add: kv_read_def)

lemma seen_created: "kv_get t k b = None \<Longrightarrow> (t, k, v) \<in> set (kb_seen (kv_create age t k v b))"
  by (simp add: kv_create_def)

end
