(* ===== verification/Remote_Devices.thy ===== *)
theory Remote_Devices
  imports Rust_Str "HOL-Library.Multiset"
begin

text \<open>
  The devices of a user that take voice commands (\<open>api/src/modules/remote/devices.rs\<close>) and the
  waits they hold open (\<open>waits.rs\<close>). \<open>Devices\<close> is the list of the devices seen lately; a wait is a
  slot, numbered in the order they were handed out, and \<open>Arc::ptr_eq\<close> compares these numbers.
\<close>

section \<open>Devices\<close>

definition MAX_DEVICES_PER_USER :: nat where "MAX_DEVICES_PER_USER = 3"
definition DEVICE_TTL_MS :: int where "DEVICE_TTL_MS = 45000"

record seen =
  sn_device :: str
  sn_active :: int
  sn_at :: int

type_synonym devices = "seen list"

definition fresh :: "int \<Rightarrow> seen \<Rightarrow> bool" where
  "fresh now s \<longleftrightarrow> now - sn_at s < DEVICE_TTL_MS"

text \<open>\<open>Vec::swap_remove\<close>: the last element takes the place of the one removed.\<close>

definition swap_remove :: "nat \<Rightarrow> 'a list \<Rightarrow> 'a list" where
  "swap_remove i xs = butlast (xs[i := last xs])"

definition note_seen :: "str \<Rightarrow> int \<Rightarrow> int \<Rightarrow> devices \<Rightarrow> devices" where
  "note_seen device active now ds =
     (let kept = filter (\<lambda>s. fresh now s \<and> sn_device s \<noteq> device) ds;
          oldest = min_by (\<lambda>a b. sn_at (snd a) < sn_at (snd b)) (List.enumerate 0 kept);
          room = (if MAX_DEVICES_PER_USER \<le> length kept
                  then case oldest of Some (i, _) \<Rightarrow> swap_remove i kept | None \<Rightarrow> kept
                  else kept)
      in room @ [\<lparr>sn_device = device, sn_active = active, sn_at = now\<rparr>])"

definition winner :: "int \<Rightarrow> devices \<Rightarrow> str option" where
  "winner now ds =
     map_option sn_device
       (max_by (\<lambda>a b. (sn_active a, sn_device a) < (sn_active b, sn_device b)) (filter (fresh now) ds))"

definition is_target :: "str \<Rightarrow> int \<Rightarrow> devices \<Rightarrow> bool" where
  "is_target device now ds = (case winner now ds of None \<Rightarrow> True | Some w \<Rightarrow> w = device)"

definition devices_wf :: "devices \<Rightarrow> bool" where
  "devices_wf ds \<longleftrightarrow> length ds \<le> MAX_DEVICES_PER_USER \<and> distinct (map sn_device ds)"

section \<open>Waits\<close>

text \<open>
  \<open>held\<close> is the table of \<open>Waits\<close>, a user without an entry holding none; \<open>given\<close> lists the slots
  handed out, by user and device; \<open>notified\<close> are those told that they were replaced.
\<close>

record waits =
  held :: "str \<Rightarrow> (str \<times> nat) list"
  given :: "(str \<times> str) list"
  notified :: "nat list"

definition enter :: "str \<Rightarrow> str \<Rightarrow> waits \<Rightarrow> nat option \<times> waits" where
  "enter user device w =
     (let ds = held w user; previous = map_of ds device; slot = length (given w)
      in if previous = None \<and> MAX_DEVICES_PER_USER \<le> length ds then (None, w)
         else (Some slot,
               \<lparr>held = (held w)(user := (device, slot) # filter (\<lambda>p. fst p \<noteq> device) ds),
                given = given w @ [(user, device)],
                notified = (case previous of None \<Rightarrow> notified w | Some p \<Rightarrow> p # notified w)\<rparr>))"

definition drop_slot :: "nat \<Rightarrow> waits \<Rightarrow> waits" where
  "drop_slot slot w =
     (case given w ! slot of (user, device) \<Rightarrow>
        if map_of (held w user) device = Some slot
        then w\<lparr>held := (held w)(user := filter (\<lambda>p. fst p \<noteq> device) (held w user))\<rparr>
        else w)"

text \<open>
  A history of waits. A slot is dropped at most once, and only after it was handed out; the number
  of the slots dropped so far is kept beside the table.
\<close>

datatype wait_event = Enter str str | Drop nat

fun wait_step :: "waits \<times> nat list \<Rightarrow> wait_event \<Rightarrow> waits \<times> nat list" where
  "wait_step (w, gone) (Enter user device) = (snd (enter user device w), gone)"
| "wait_step (w, gone) (Drop slot) =
     (if slot < length (given w) \<and> slot \<notin> set gone then (drop_slot slot w, slot # gone) else (w, gone))"

definition no_waits :: waits where
  "no_waits = \<lparr>held = (\<lambda>_. []), given = [], notified = []\<rparr>"

definition after_events :: "wait_event list \<Rightarrow> waits \<times> nat list" where
  "after_events = foldl wait_step (no_waits, [])"

section \<open>Noting a device\<close>

lemma mset_swap_remove:
  assumes "i < length xs"
  shows "mset (swap_remove i xs) = mset xs - {#xs ! i#}"
proof -
  obtain ys y where xs: "xs = ys @ [y]" using assms by (cases xs rule: rev_cases) auto
  show ?thesis
  proof (cases "i = length ys")
    case True
    then show ?thesis by (simp add: xs swap_remove_def)
  next
    case False
    then have "i < length ys" using assms xs by simp
    then show ?thesis
      by (simp add: xs swap_remove_def list_update_append butlast_append nth_append mset_update)
  qed
qed

lemma swap_remove_facts:
  assumes "i < length xs" "distinct (map f xs)"
  shows "length (swap_remove i xs) = length xs - 1" "set (swap_remove i xs) = set xs - {xs ! i}"
    "distinct (map f (swap_remove i xs))"
proof -
  have d: "distinct xs" using assms(2) by (simp add: distinct_map)
  show len: "length (swap_remove i xs) = length xs - 1" by (simp add: swap_remove_def)
  have "set_mset (mset (swap_remove i xs)) = set_mset (mset xs - {#xs ! i#})"
    using mset_swap_remove [OF assms(1)] by simp
  then show set: "set (swap_remove i xs) = set xs - {xs ! i}"
    using d assms(1) by (auto simp: set_mset_diff distinct_count_atmost_1 split: if_splits)
  have "card (set (swap_remove i xs)) = length (swap_remove i xs)"
    using assms(1) d distinct_card [OF d] by (simp add: set len card_Diff_singleton)
  then have "distinct (swap_remove i xs)" by (rule card_distinct)
  then show "distinct (map f (swap_remove i xs))"
    using assms(2) set by (auto simp: distinct_map inj_on_def)
qed

lemma oldest_found:
  fixes f :: "'a \<Rightarrow> int"
  assumes "xs \<noteq> []"
  obtains i where "i < length xs" "\<forall>r \<in> set xs. f (xs ! i) \<le> f r"
    "min_by (\<lambda>a b. f (snd a) < f (snd b)) (List.enumerate 0 xs) = Some (i, xs ! i)"
proof -
  let ?m = "min_by (\<lambda>a b. f (snd a) < f (snd b)) (List.enumerate 0 xs)"
  have "List.enumerate 0 xs \<noteq> []" using assms by (cases xs) simp_all
  then have "?m \<noteq> None" unfolding min_by_None .
  then obtain i x where m: "?m = Some (i, x)" by (metis not_None_eq prod.exhaust)
  then have i: "i < length xs" "x = xs ! i"
    using min_by_in [OF m] by (auto simp: in_set_enumerate_eq)
  have "f (xs ! i) \<le> f r" if "r \<in> set xs" for r
  proof -
    obtain j where "j < length xs" "r = xs ! j" using \<open>r \<in> set xs\<close> by (metis in_set_conv_nth)
    then have "(j, r) \<in> set (List.enumerate 0 xs)" by (auto simp: in_set_enumerate_eq)
    then show ?thesis using min_by_least [OF m, of "(j, r)"] i(2) by simp
  qed
  with i m show thesis by (intro that [of i]) auto
qed

text \<open>The state of a list of devices before a new one is pushed.\<close>

lemma note_seen_cases:
  assumes "devices_wf ds"
  obtains gone where
    "note_seen device active now ds =
       gone @ [\<lparr>sn_device = device, sn_active = active, sn_at = now\<rparr>]"
    "set gone \<subseteq> {s \<in> set ds. fresh now s \<and> sn_device s \<noteq> device}"
    "distinct (map sn_device gone)" "length gone < MAX_DEVICES_PER_USER"
    "\<forall>s \<in> set ds. fresh now s \<and> sn_device s \<noteq> device \<longrightarrow> s \<in> set gone \<or> (\<forall>r \<in> set gone. sn_at s \<le> sn_at r)"
proof -
  let ?kept = "filter (\<lambda>s. fresh now s \<and> sn_device s \<noteq> device) ds"
  let ?new = "\<lparr>sn_device = device, sn_active = active, sn_at = now\<rparr>"
  have d: "distinct (map sn_device ?kept)" and len: "length ?kept \<le> MAX_DEVICES_PER_USER"
    using assms by (auto simp: devices_wf_def distinct_map_filter intro: order_trans [OF length_filter_le])
  show thesis
  proof (cases "MAX_DEVICES_PER_USER \<le> length ?kept")
    case False
    then have "note_seen device active now ds = ?kept @ [?new]" by (simp add: note_seen_def Let_def)
    with False d show ?thesis by (intro that [of ?kept]) auto
  next
    case True
    have "?kept \<noteq> []" using True by (auto simp: MAX_DEVICES_PER_USER_def)
    then obtain i where i: "i < length ?kept" "\<forall>r \<in> set ?kept. sn_at (?kept ! i) \<le> sn_at r"
      and o: "min_by (\<lambda>a b. sn_at (snd a) < sn_at (snd b)) (List.enumerate 0 ?kept) = Some (i, ?kept ! i)"
      by (rule oldest_found [of ?kept sn_at])
    note facts = swap_remove_facts [OF i(1) d]
    show ?thesis
    proof (rule that [of "swap_remove i ?kept"])
      show "note_seen device active now ds = swap_remove i ?kept @ [?new]"
        using True o by (simp add: note_seen_def Let_def)
      show "length (swap_remove i ?kept) < MAX_DEVICES_PER_USER"
        using facts(1) len by (simp add: MAX_DEVICES_PER_USER_def)
      show "\<forall>s \<in> set ds. fresh now s \<and> sn_device s \<noteq> device \<longrightarrow>
          s \<in> set (swap_remove i ?kept) \<or> (\<forall>r \<in> set (swap_remove i ?kept). sn_at s \<le> sn_at r)"
        using facts(2) i(2) by auto
    qed (use facts in auto)
  qed
qed

lemma devices_wf_note: "devices_wf ds \<Longrightarrow> devices_wf (note_seen device active now ds)"
  by (erule note_seen_cases [of ds device active now]) (auto simp: devices_wf_def)

lemma target_most_active:
  assumes "is_target d t ds" "s \<in> set ds" "fresh t s"
  shows "\<exists>r \<in> set ds. sn_device r = d \<and> fresh t r \<and> sn_active s \<le> sn_active r"
proof -
  define key where "key = (\<lambda>s :: seen. (sn_active s, sn_device s))"
  have s: "s \<in> set (filter (fresh t) ds)" using assms by simp
  then obtain r where r: "max_by (\<lambda>a b. key a < key b) (filter (fresh t) ds) = Some r"
    by (cases "max_by (\<lambda>a b. key a < key b) (filter (fresh t) ds)") (simp_all only: max_by_None, auto)
  then have "sn_device r = d" using assms(1) by (simp add: is_target_def winner_def key_def)
  moreover have "sn_active s \<le> sn_active r"
    using max_by_greatest [OF r s] by (auto simp: key_def)
  ultimately show ?thesis using max_by_in [OF r] by auto
qed


definition sample_devices :: devices where
  "sample_devices =
     [\<lparr>sn_device = lit ''a'', sn_active = 1, sn_at = 0\<rparr>,
      \<lparr>sn_device = lit ''b'', sn_active = 5, sn_at = 1000\<rparr>,
      \<lparr>sn_device = lit ''c'', sn_active = 2, sn_at = 2000\<rparr>]"


section \<open>Holding waits\<close>

text \<open>The slot a device holds is the last one it was given, unless that was dropped.\<close>

definition newest :: "(str \<times> str) list \<Rightarrow> str \<Rightarrow> str \<Rightarrow> nat \<Rightarrow> bool" where
  "newest slots user device slot \<longleftrightarrow>
     slot < length slots \<and> slots ! slot = (user, device) \<and>
     (\<forall>later. slot < later \<and> later < length slots \<longrightarrow> slots ! later \<noteq> (user, device))"

definition waits_inv :: "waits \<Rightarrow> nat list \<Rightarrow> bool" where
  "waits_inv w gone \<longleftrightarrow>
     (\<forall>u. length (held w u) \<le> MAX_DEVICES_PER_USER \<and> distinct (map fst (held w u))) \<and>
     (\<forall>u d slot. (d, slot) \<in> set (held w u) \<longleftrightarrow> newest (given w) u d slot \<and> slot \<notin> set gone) \<and>
     (\<forall>slot later. slot < later \<and> later < length (given w) \<and> given w ! slot = given w ! later \<and>
        slot \<notin> set gone \<longrightarrow> slot \<in> set (notified w)) \<and>
     (\<forall>slot \<in> set gone. slot < length (given w))"

lemma newest_snoc:
  "newest (slots @ [p]) u d slot \<longleftrightarrow>
     (if p = (u, d) then slot = length slots else newest slots u d slot)"
proof (cases "p = (u, d)")
  case True
  have "slot = length slots" if "newest (slots @ [p]) u d slot"
    using that True unfolding newest_def by (metis length_append_singleton lessI less_antisym nth_append_length)
  then show ?thesis using True by (auto simp: newest_def)
next
  case False
  have "(slots @ [p]) ! i = (u, d) \<longleftrightarrow> i < length slots \<and> slots ! i = (u, d)" if "i < Suc (length slots)" for i
    using that False by (cases "i = length slots") (auto simp: nth_append)
  then show ?thesis using False unfolding newest_def by (auto dest: less_SucI) 
qed

lemma newest_unique: "newest slots u d slot \<Longrightarrow> newest slots u d slot' \<Longrightarrow> slot = slot'"
  unfolding newest_def by (metis linorder_neqE_nat)

lemma held_wf:
  assumes "waits_inv w gone"
  shows "length (held w u) \<le> MAX_DEVICES_PER_USER" "distinct (map fst (held w u))"
  using assms by (simp_all add: waits_inv_def)

lemma held_iff:
  assumes "waits_inv w gone"
  shows "(d, slot) \<in> set (held w u) \<longleftrightarrow> newest (given w) u d slot \<and> slot \<notin> set gone"
  using assms by (simp add: waits_inv_def)

lemma replaced_told:
  assumes "waits_inv w gone" "slot < later" "later < length (given w)" "given w ! slot = given w ! later"
    "slot \<notin> set gone"
  shows "slot \<in> set (notified w)"
  using assms unfolding waits_inv_def by blast

lemma held_slot:
  assumes "waits_inv w gone"
  shows "map_of (held w u) d = Some slot \<longleftrightarrow> (d, slot) \<in> set (held w u)"
  using held_wf [OF assms] by simp

lemma filter_device: "(d', slot) \<in> set (filter (\<lambda>p. fst p \<noteq> d) xs) \<longleftrightarrow> (d', slot) \<in> set xs \<and> d' \<noteq> d"
  by auto

lemma filter_device_length:
  assumes "distinct (map fst xs)" "map_of xs d \<noteq> None"
  shows "length (filter (\<lambda>p. fst p \<noteq> d) xs) < length xs"
  using assms(2) by (auto simp: map_of_eq_None_iff intro!: length_filter_less)

lemma waits_inv_enter:
  assumes inv: "waits_inv w gone"
  shows "waits_inv (snd (enter user device w)) gone"
proof (cases "map_of (held w user) device = None \<and> MAX_DEVICES_PER_USER \<le> length (held w user)")
  case True
  then show ?thesis using inv by (simp add: enter_def Let_def)
next
  case False
  define n where "n = length (given w)"
  define w' where "w' = snd (enter user device w)"
  have w': "held w' = (held w)(user := (device, n) # filter (\<lambda>p. fst p \<noteq> device) (held w user))"
      "given w' = given w @ [(user, device)]"
      "notified w' = (case map_of (held w user) device of None \<Rightarrow> notified w | Some p \<Rightarrow> p # notified w)"
    using False by (auto simp: w'_def enter_def Let_def n_def)
  have gone: "\<forall>slot \<in> set gone. slot < n" using inv by (simp add: waits_inv_def n_def)
  have lens: "length (held w' u) \<le> MAX_DEVICES_PER_USER \<and> distinct (map fst (held w' u))" for u
  proof (cases "u = user")
    case True
    have "length (filter (\<lambda>p. fst p \<noteq> device) (held w user)) < MAX_DEVICES_PER_USER"
    proof (cases "map_of (held w user) device = None")
      case none: True
      then show ?thesis using False length_filter_le [of "\<lambda>p. fst p \<noteq> device" "held w user"] by linarith
    next
      case some: False
      then show ?thesis using filter_device_length [OF held_wf(2) [OF inv]] held_wf(1) [OF inv, of user] by fastforce
    qed
    then show ?thesis using True held_wf(2) [OF inv, of user] by (auto simp: w' distinct_map_filter)
  next
    case False
    then show ?thesis using held_wf [OF inv] by (simp add: w')
  qed
  have newest: "(d, slot) \<in> set (held w' u) \<longleftrightarrow> newest (given w') u d slot \<and> slot \<notin> set gone" for u d slot
    using held_iff [OF inv] gone by (auto simp: w' newest_snoc n_def)
  have told: "slot \<in> set (notified w')"
    if "slot < later" "later < length (given w')" "given w' ! slot = given w' ! later" "slot \<notin> set gone"
    for slot later
  proof (cases "later < n")
    case True
    then have "slot \<in> set (notified w)"
      using that replaced_told [OF inv, of slot later] by (simp add: w' n_def nth_append)
    then show ?thesis by (simp add: w' split: option.splits)
  next
    case last: False
    then have slot: "slot < n" "given w ! slot = (user, device)"
      using that by (auto simp: w' n_def nth_append less_Suc_eq)
    show ?thesis
    proof (cases "newest (given w) user device slot")
      case True
      then have "map_of (held w user) device = Some slot"
        using held_slot [OF inv] held_iff [OF inv] that(4) by simp
      then show ?thesis by (simp add: w')
    next
      case False
      then obtain l where "slot < l" "l < n" "given w ! l = given w ! slot"
        using slot by (auto simp: newest_def n_def)
      then have "slot \<in> set (notified w)"
        using replaced_told [OF inv, of slot l] that(4) by (simp add: n_def)
      then show ?thesis by (auto simp: w' split: option.splits)
    qed
  qed
  show ?thesis
    unfolding w'_def [symmetric] waits_inv_def using lens newest told gone by (auto simp: w' n_def)
qed

lemma waits_inv_drop:
  assumes inv: "waits_inv w gone" and slot: "slot < length (given w)" "slot \<notin> set gone"
  shows "waits_inv (drop_slot slot w) (slot # gone)"
proof -
  obtain user device where g: "given w ! slot = (user, device)" by (cases "given w ! slot")
  have same: "given (drop_slot slot w) = given w" "notified (drop_slot slot w) = notified w"
    by (simp_all add: drop_slot_def g)
  have held: "(d, t) \<in> set (held (drop_slot slot w) u) \<longleftrightarrow> (d, t) \<in> set (held w u) \<and> t \<noteq> slot" for u d t
  proof (cases "map_of (held w user) device = Some slot")
    case True
    then have mine: "newest (given w) user device slot" "slot \<notin> set gone"
      using held_slot [OF inv] held_iff [OF inv] by blast+
    have h: "held (drop_slot slot w) u =
        (if u = user then filter (\<lambda>p. fst p \<noteq> device) (held w user) else held w u)"
      using True by (simp add: drop_slot_def g)
    have "t = slot \<longleftrightarrow> u = user \<and> d = device" if "newest (given w) u d t"
      using that mine(1) newest_unique g by (auto simp: newest_def)
    then show ?thesis unfolding h by (auto simp: held_iff [OF inv])
  next
    case False
    have "(d, slot) \<notin> set (held w u)"
    proof
      assume "(d, slot) \<in> set (held w u)"
      then have "(d, slot) \<in> set (held w u)" "u = user" "d = device"
        using held_iff [OF inv] g by (simp_all add: newest_def)
      then show False using False held_slot [OF inv] by simp
    qed
    then show ?thesis using False by (simp add: drop_slot_def g) metis
  qed
  have lens: "length (held (drop_slot slot w) u) \<le> MAX_DEVICES_PER_USER \<and>
      distinct (map fst (held (drop_slot slot w) u))" for u
  proof -
    have "length (filter (\<lambda>p. fst p \<noteq> device) (held w user)) \<le> MAX_DEVICES_PER_USER"
      using held_wf(1) [OF inv, of user] length_filter_le by (rule order_trans [rotated])
    moreover have "distinct (map fst (filter (\<lambda>p. fst p \<noteq> device) (held w user)))"
      by (rule distinct_map_filter [OF held_wf(2) [OF inv]])
    ultimately show ?thesis using held_wf [OF inv, of u] by (simp add: drop_slot_def g)
  qed
  have told: "t \<in> set (notified (drop_slot slot w))"
    if "t < later \<and> later < length (given w) \<and> given w ! t = given w ! later \<and> t \<notin> set (slot # gone)" for t later
    using replaced_told [OF inv, of t later] that same by simp
  show ?thesis
    unfolding waits_inv_def same held held_iff [OF inv] using inv lens told slot by (auto simp: waits_inv_def)
qed

lemma after_events_inv: "waits_inv (fst (after_events es)) (snd (after_events es))"
proof (induction es rule: rev_induct)
  case Nil
  show ?case by (simp add: after_events_def no_waits_def waits_inv_def newest_def)
next
  case (snoc e es)
  obtain w gone where s: "after_events es = (w, gone)" by (cases "after_events es")
  then have "after_events (es @ [e]) = wait_step (w, gone) e" by (simp add: after_events_def)
  then show ?case using snoc s waits_inv_enter waits_inv_drop by (cases e) auto
qed

text \<open>
  C32. Whatever order waits begin and end in, a user holds at most three, one per device, and the
  slot held for a device is exactly the last one it was given, as long as that was not dropped: an
  older wait that ends late never frees the place of the newer one. Every wait that was replaced
  while it was still open has been told so.
\<close>

theorem waits_hold_newest:
  assumes "after_events es = (w, gone)"
  shows "length (held w u) \<le> MAX_DEVICES_PER_USER \<and> distinct (map fst (held w u)) \<and>
         ((d, slot) \<in> set (held w u) \<longleftrightarrow> newest (given w) u d slot \<and> slot \<notin> set gone) \<and>
         (slot < later \<and> later < length (given w) \<and> given w ! slot = given w ! later \<and> slot \<notin> set gone \<longrightarrow>
            slot \<in> set (notified w))"
  using after_events_inv [of es] assms unfolding waits_inv_def by simp blast

theorem waits_hold_newest_witness:
  "held (fst (after_events [Enter [49] [97], Enter [49] [97], Drop 0])) [49] = [([97], 1)] \<and>
   0 \<in> set (notified (fst (after_events [Enter [49] [97], Enter [49] [97], Drop 0]))) \<and>
   newest [([49], [97]), ([49], [97])] [49] [97] 1"
proof -
  let ?es = "[Enter [49] [97], Enter [49] [97], Drop 0]"
  have s: "after_events ?es =
      (\<lparr>held = (\<lambda>_. [])([49] := [([97], 1)]), given = [([49], [97]), ([49], [97])], notified = [0]\<rparr>, [0])"
    by (simp add: after_events_def no_waits_def enter_def drop_slot_def MAX_DEVICES_PER_USER_def Let_def)
  show ?thesis using waits_hold_newest [OF s, of "[49]" "[97]" 1 0] by (simp add: s)
qed

end
