(* ===== verification/Remote_Hub.thy ===== *)
theory Remote_Hub
  imports Effects Kv_Bucket Remote_Devices
begin

text \<open>
  Voice commands for the devices of a user (\<open>api/src/modules/remote/store.rs\<close> and \<open>hub.rs\<close>): the
  stream of commands, the buckets of replies, claims and devices of the message broker, and the
  operations of the hub on them. A request to the broker that gets no answer in its budget, or whose
  task is cut off at its deadline, is a command that fails with or without its effect.

  \<open>rm_handed\<close> and \<open>rm_told\<close> record what leaves the hub: commands put into the answer of a waiting
  device, and replies sent on the subject of a command. Whether the store is open is a state of the
  world; opening and forgetting it is left to the environment.
\<close>

section \<open>Data\<close>

datatype command_kind = Utterance | LinkConfirm

record remote_command =
  rc_id :: uuid
  rc_kind :: command_kind
  rc_seq :: int
  rc_user :: str
  rc_source :: str
  rc_text :: str
  rc_hint :: "str option"
  rc_created_at :: int
  rc_expires_at :: int

record remote_reply =
  rr_id :: uuid
  rr_ok :: bool
  rr_speech :: str
  rr_display :: str
  rr_state :: "json option"

record reply_envelope =
  en_user :: str
  en_reply :: remote_reply

record wait_response =
  wr_cursor :: int
  wr_commands :: "remote_command list"
  wr_active_device :: "str option"

datatype asked = Asked_Reply remote_reply | Asked_Offline | Asked_Silent | Asked_Busy
datatype wait_refused = TooManyDevices | Store_Unavailable
datatype unreached = Offline | Busy
datatype replied = Recorded | Reply_Unknown | Reply_Busy
datatype publish_result = Sent | Unsure | Failed

definition COMMANDS_AGE :: int where "COMMANDS_AGE = 120000"
definition REMOTE_SCAN_LIMIT :: nat where "REMOTE_SCAN_LIMIT = 64"
definition REPLIES_AGE :: int where "REPLIES_AGE = 600000"
definition DEVICES_AGE :: int where "DEVICES_AGE = 90000"
definition DEVICE_WRITE_TRIES :: nat where "DEVICE_WRITE_TRIES = 4"
definition EXPIRY_MARGIN_MS :: int where "EXPIRY_MARGIN_MS = 1000"
definition REPLY_WINDOW_MARGIN_MS :: int where "REPLY_WINDOW_MARGIN_MS = 30000"
definition REPLY_CLOCK_SKEW_MS :: int where "REPLY_CLOCK_SKEW_MS = 30000"
definition PRESENCE_REFRESH :: int where "PRESENCE_REFRESH = DEVICE_TTL_MS div 2"
definition CONFIRM_HOLD_MS :: int where "CONFIRM_HOLD_MS = 60000"

definition MISSING_MARKERS :: "str list" where
  "MISSING_MARKERS =
     [lit ''stream not found'', lit ''no stream found'', lit ''does not exist'', lit ''no responders'']"

text \<open>A message of the stream: sequence, time, subject, and the command if the body decodes.\<close>

record message =
  ms_seq :: nat
  ms_at :: int
  ms_user :: str
  ms_body :: "remote_command option"

record remote_world =
  rm_clock :: int
  rm_wall :: int
  rm_instant :: int
  rm_open :: bool
  rm_stream :: "message list"
  rm_last_seq :: nat
  rm_replies :: "(str \<times> uuid, reply_envelope) bucket"
  rm_claims :: "(str \<times> uuid, str) bucket"
  rm_devices :: "(str, nat \<times> devices option) keyed"
  rm_revision :: nat
  rm_published :: "str \<times> str \<Rightarrow> (int \<times> int) option"
  rm_waits :: waits
  rm_told :: "(uuid \<times> reply_envelope) list"
  rm_handed :: "(str \<times> uuid \<times> str) list"

section \<open>The store\<close>

text \<open>\<open>failed\<close>: an error of the broker says that a stream is missing by its text.\<close>

fun is_missing :: "app_error \<Rightarrow> bool" where
  "is_missing (Redis m) \<longleftrightarrow> (\<exists>t \<in> set MISSING_MARKERS. contains_text (map to_ascii_lowercase m) t)"
| "is_missing _ \<longleftrightarrow> False"

text \<open>No answer in the budget of the request: the only error of a request that is no answer.\<close>

fun no_answer :: "app_error \<Rightarrow> bool" where
  "no_answer (RedisPool _) = True"
| "no_answer _ = False"

definition kept_message :: "int \<Rightarrow> message \<Rightarrow> bool" where
  "kept_message t m \<longleftrightarrow> t \<le> ms_at m + COMMANDS_AGE"

text \<open>
  The stream refuses a second message with the identifier of one it still holds, numbers what it
  takes, and keeps 64 messages of a subject.
\<close>

definition stream_push :: "remote_command \<Rightarrow> remote_world \<Rightarrow> remote_world" where
  "stream_push c w =
     (if \<exists>m \<in> set (rm_stream w). kept_message (rm_clock w) m \<and> map_option rc_id (ms_body m) = Some (rc_id c)
      then w
      else let m = \<lparr>ms_seq = Suc (rm_last_seq w), ms_at = rm_clock w, ms_user = rc_user c, ms_body = Some c\<rparr>;
               mine = filter (\<lambda>m. ms_user m = rc_user c) (rm_stream w);
               old = take (Suc (length mine) - REMOTE_SCAN_LIMIT) mine
           in w\<lparr>rm_last_seq := Suc (rm_last_seq w),
                rm_stream := filter (\<lambda>m. m \<notin> set old) (rm_stream w) @ [m]\<rparr>)"

definition store_publish :: "remote_command \<Rightarrow> (remote_world, unit) eff" where
  "store_publish c = command (stream_push c) (\<lambda>_. ())"

definition last_seq :: "(remote_world, nat) eff" where
  "last_seq = command id rm_last_seq"

definition next_message :: "str \<Rightarrow> nat \<Rightarrow> remote_world \<Rightarrow> message option" where
  "next_message user seq w =
     find (\<lambda>m. ms_user m = user \<and> seq < ms_seq m \<and> kept_message (rm_clock w) m) (rm_stream w)"

definition next_after :: "str \<Rightarrow> nat \<Rightarrow> (remote_world, (nat \<times> remote_command option) option) eff" where
  "next_after user seq =
     command id (\<lambda>w. map_option
       (\<lambda>m. (ms_seq m, map_option (\<lambda>c. c\<lparr>rc_seq := int (ms_seq m)\<rparr>) (ms_body m)))
       (next_message user seq w))"

definition claim :: "str \<Rightarrow> uuid \<Rightarrow> str \<Rightarrow> (remote_world, bool) eff" where
  "claim user i device =
     await (command
         (\<lambda>w. w\<lparr>rm_claims := kv_create COMMANDS_AGE (rm_clock w) (user, i) device (rm_claims w)\<rparr>)
         (\<lambda>w. kv_get (rm_clock w) (user, i) (rm_claims w) = None))
       (\<lambda>created.
          if created then ok True
          else await (command
              (\<lambda>w. w\<lparr>rm_claims := kv_read (rm_clock w) (user, i) (rm_claims w)\<rparr>)
              (\<lambda>w. kv_get (rm_clock w) (user, i) (rm_claims w)))
            (\<lambda>holder. ok (holder = Some device)))"

definition claimed :: "str \<Rightarrow> uuid \<Rightarrow> (remote_world, bool) eff" where
  "claimed user i = command id (\<lambda>w. kv_get (rm_clock w) (user, i) (rm_claims w) \<noteq> None)"

definition tell_reply :: "uuid \<Rightarrow> reply_envelope \<Rightarrow> (remote_world, unit) eff" where
  "tell_reply i e = command (\<lambda>w. w\<lparr>rm_told := rm_told w @ [(i, e)]\<rparr>) (\<lambda>_. ())"

definition record_reply :: "reply_envelope \<Rightarrow> (remote_world, unit) eff" where
  "record_reply e =
     (let i = rr_id (en_reply e); key = (en_user e, i)
      in await (command
             (\<lambda>w. w\<lparr>rm_replies := kv_create REPLIES_AGE (rm_clock w) key e (rm_replies w)\<rparr>)
             (\<lambda>w. kv_get (rm_clock w) key (rm_replies w) = None))
           (\<lambda>created.
              if created then tell_reply i e
              else await (command
                  (\<lambda>w. w\<lparr>rm_replies := kv_read (rm_clock w) key (rm_replies w)\<rparr>)
                  (\<lambda>w. kv_get (rm_clock w) key (rm_replies w)))
                (\<lambda>stored. case stored of Some first_ \<Rightarrow> tell_reply i first_ | None \<Rightarrow> ok ())))"

definition reply_for :: "str \<Rightarrow> uuid \<Rightarrow> (remote_world, reply_envelope option) eff" where
  "reply_for user i =
     await (command
         (\<lambda>w. w\<lparr>rm_replies := kv_read (rm_clock w) (user, i) (rm_replies w)\<rparr>)
         (\<lambda>w. kv_get (rm_clock w) (user, i) (rm_replies w)))
       (\<lambda>stored. ok (case stored of
            None \<Rightarrow> None
          | Some e \<Rightarrow> if en_user e = user \<and> rr_id (en_reply e) = i then Some e else None))"

definition device_entry :: "str \<Rightarrow> remote_world \<Rightarrow> (nat \<times> devices option) option" where
  "device_entry user w = live (rm_clock w) (rm_devices w) user"

definition known_devices :: "(nat \<times> devices option) option \<Rightarrow> devices" where
  "known_devices entry = (case entry of Some (_, Some ds) \<Rightarrow> ds | _ \<Rightarrow> [])"

definition store_devices :: "str \<Rightarrow> (remote_world, devices) eff" where
  "store_devices user = command id (\<lambda>w. known_devices (device_entry user w))"

text \<open>An update or creation of a device list goes through when the entry is still the one read.\<close>

definition write_devices :: "str \<Rightarrow> nat option \<Rightarrow> devices \<Rightarrow> remote_world \<Rightarrow> remote_world" where
  "write_devices user revision ds w =
     (if map_option fst (device_entry user w) = revision
      then w\<lparr>rm_revision := Suc (rm_revision w),
             rm_devices := set_ex (rm_clock w) DEVICES_AGE user (Suc (rm_revision w), Some ds) (rm_devices w)\<rparr>
      else w)"

definition wrong_revision :: app_error where
  "wrong_revision = Redis (lit ''remote devices write: wrong last sequence'')"

primrec note_tries :: "nat \<Rightarrow> app_error \<Rightarrow> str \<Rightarrow> str \<Rightarrow> int \<Rightarrow> int \<Rightarrow> (remote_world, unit) eff" where
  "note_tries 0 last_error user device active now = err last_error"
| "note_tries (Suc n) last_error user device active now =
     await (command id (device_entry user)) (\<lambda>entry.
       bind (command
           (write_devices user (map_option fst entry) (note_seen device active now (known_devices entry)))
           (\<lambda>w. map_option fst (device_entry user w) = map_option fst entry))
         (\<lambda>written. case written of
            Inr done \<Rightarrow> if done then ok () else note_tries n wrong_revision user device active now
          | Inl e \<Rightarrow> if no_answer e \<or> is_missing e then err e else note_tries n e user device active now))"

definition note_device :: "str \<Rightarrow> str \<Rightarrow> int \<Rightarrow> int \<Rightarrow> (remote_world, unit) eff" where
  "note_device =
     note_tries DEVICE_WRITE_TRIES (Internal (lit ''remote devices: the entry keeps changing''))"

section \<open>The hub\<close>

definition subject_safe :: "str \<Rightarrow> bool" where
  "subject_safe user \<longleftrightarrow>
     user \<noteq> [] \<and>
     (\<forall>c \<in> set user. is_ascii_digit c \<or> is_ascii_lowercase c \<or> is_ascii_uppercase c \<or> c = 45 \<or> c = 95)"

text \<open>\<open>v7_ms\<close> is the time in milliseconds a version 7 identifier carries, \<open>None\<close> for any other.\<close>

definition fresh_command_id :: "(uuid \<Rightarrow> int option) \<Rightarrow> uuid \<Rightarrow> int \<Rightarrow> bool" where
  "fresh_command_id v7_ms i now =
     (case v7_ms i of
        None \<Rightarrow> False
      | Some created \<Rightarrow>
          created \<le> now + REPLY_CLOCK_SKEW_MS \<and> now - created \<le> COMMANDS_AGE + REPLY_WINDOW_MARGIN_MS)"

definition open_store :: "(remote_world, bool) prog" where
  "open_store = inside id rm_open"

definition wall_now :: "(remote_world, int) prog" where
  "wall_now = inside id rm_wall"

text \<open>\<open>checked\<close>: an error is logged and becomes \<open>None\<close>.\<close>

definition checked :: "(remote_world, 'a) eff \<Rightarrow> (remote_world, 'a option) prog" where
  "checked m = bind m (\<lambda>r. Ret (case r of Inl _ \<Rightarrow> None | Inr a \<Rightarrow> Some a))"

definition reachable_user :: "str \<Rightarrow> (remote_world, unreached + unit) prog" where
  "reachable_user user =
     (if \<not> subject_safe user then Ret (Inl Offline)
      else bind open_store (\<lambda>up.
        if \<not> up then Ret (Inl Busy)
        else bind (checked (store_devices user)) (\<lambda>r.
          case r of
            None \<Rightarrow> Ret (Inl Busy)
          | Some ds \<Rightarrow>
              bind wall_now (\<lambda>now. Ret (if winner now ds = None then Inl Offline else Inr ())))))"

definition new_command ::
    "uuid \<Rightarrow> command_kind \<Rightarrow> str \<Rightarrow> str \<Rightarrow> str \<Rightarrow> str option \<Rightarrow> int \<Rightarrow> int \<Rightarrow> remote_command" where
  "new_command i kind user source txt hint budget now =
     \<lparr>rc_id = i, rc_kind = kind, rc_seq = 0, rc_user = user, rc_source = source, rc_text = txt,
      rc_hint = hint, rc_created_at = now, rc_expires_at = now + max budget 0 + EXPIRY_MARGIN_MS\<rparr>"

definition hub_publish :: "remote_command \<Rightarrow> (remote_world, publish_result) prog" where
  "hub_publish c =
     bind (store_publish c) (\<lambda>r. Ret (case r of Inr _ \<Rightarrow> Sent | Inl e \<Rightarrow> if no_answer e then Unsure else Failed))"

definition hub_answer :: "str \<Rightarrow> uuid \<Rightarrow> (remote_world, remote_reply option) prog" where
  "hub_answer user i =
     (if \<not> subject_safe user then Ret None
      else bind open_store (\<lambda>up.
        if \<not> up then Ret None
        else bind (checked (reply_for user i)) (\<lambda>r.
          Ret (case r of Some (Some e) \<Rightarrow> Some (en_reply e) | _ \<Rightarrow> None))))"

text \<open>
  \<open>dispatch\<close>: the reply is the first message on the subject of the command, heard from the moment
  of the subscription on, that is for this user and command; failing that, the one recorded.
\<close>

definition answers :: "str \<Rightarrow> uuid \<Rightarrow> uuid \<times> reply_envelope \<Rightarrow> bool" where
  "answers user i m \<longleftrightarrow> fst m = i \<and> en_user (snd m) = user \<and> rr_id (en_reply (snd m)) = i"

definition dispatch ::
    "uuid \<Rightarrow> str \<Rightarrow> command_kind \<Rightarrow> str \<Rightarrow> str \<Rightarrow> int \<Rightarrow> (remote_world, asked) prog" where
  "dispatch i user kind source txt budget =
     bind (reachable_user user) (\<lambda>r.
       case r of
         Inl Offline \<Rightarrow> Ret Asked_Offline
       | Inl Busy \<Rightarrow> Ret Asked_Busy
       | Inr _ \<Rightarrow>
           bind wall_now (\<lambda>now.
           bind (checked (command id (\<lambda>w. length (rm_told w)))) (\<lambda>subscribed.
             case subscribed of
               None \<Rightarrow> Ret Asked_Busy
             | Some n \<Rightarrow>
                 bind (hub_publish (new_command i kind user source txt None budget now)) (\<lambda>p.
                   if p = Failed then Ret Asked_Busy
                   else bind (inside id (\<lambda>w. find (answers user i) (drop n (rm_told w)))) (\<lambda>heard.
                     case heard of
                       Some (_, e) \<Rightarrow> Ret (Asked_Reply (en_reply e))
                     | None \<Rightarrow>
                         bind (hub_answer user i) (\<lambda>a.
                           Ret (case a of Some reply \<Rightarrow> Asked_Reply reply | None \<Rightarrow> Asked_Silent)))))))"

definition link_confirm :: "uuid \<Rightarrow> str \<Rightarrow> str \<Rightarrow> str \<Rightarrow> (remote_world, unreached + remote_command) prog" where
  "link_confirm i user provider hint =
     bind (reachable_user user) (\<lambda>r.
       case r of
         Inl e \<Rightarrow> Ret (Inl e)
       | Inr _ \<Rightarrow> bind wall_now (\<lambda>now.
           Ret (Inr (new_command i LinkConfirm user provider [] (Some hint) CONFIRM_HOLD_MS now))))"

definition post :: "remote_command \<Rightarrow> (remote_world, bool) prog" where
  "post c = bind open_store (\<lambda>up. if \<not> up then Ret False else bind (hub_publish c) (\<lambda>p. Ret (p \<noteq> Failed)))"

definition hub_reply ::
    "(uuid \<Rightarrow> int option) \<Rightarrow> str \<Rightarrow> remote_reply \<Rightarrow> (remote_world, replied) prog" where
  "hub_reply v7_ms user reply =
     bind wall_now (\<lambda>now.
       if \<not> subject_safe user \<or> \<not> fresh_command_id v7_ms (rr_id reply) now then Ret Reply_Unknown
       else bind open_store (\<lambda>up.
         if \<not> up then Ret Reply_Busy
         else bind (checked (claimed user (rr_id reply))) (\<lambda>c.
           case c of
             None \<Rightarrow> Ret Reply_Busy
           | Some held_by_one \<Rightarrow>
               if \<not> held_by_one then Ret Reply_Unknown
               else bind (checked (record_reply \<lparr>en_user = user, en_reply = reply\<rparr>)) (\<lambda>r.
                 Ret (case r of Some _ \<Rightarrow> Recorded | None \<Rightarrow> Reply_Busy)))))"

section \<open>Waiting\<close>

definition presence_due :: "str \<Rightarrow> str \<Rightarrow> int \<Rightarrow> remote_world \<Rightarrow> bool" where
  "presence_due user device active w =
     (case rm_published w (user, device) of
        Some (sent_active, sent_at) \<Rightarrow> sent_active \<noteq> active \<or> PRESENCE_REFRESH \<le> rm_instant w - sent_at
      | None \<Rightarrow> True)"

definition note_presence :: "str \<Rightarrow> str \<Rightarrow> int \<Rightarrow> remote_world \<Rightarrow> remote_world" where
  "note_presence user device active w =
     (if presence_due user device active w
      then w\<lparr>rm_published := (rm_published w)((user, device) \<mapsto> (active, rm_instant w))\<rparr> else w)"

definition announce :: "str \<Rightarrow> str \<Rightarrow> int \<Rightarrow> (remote_world, bool) prog" where
  "announce user device active =
     bind (inside (note_presence user device active) (presence_due user device active)) (\<lambda>due.
       if \<not> due then Ret True
       else bind wall_now (\<lambda>now.
         bind (checked (note_device user device active now)) (\<lambda>noted.
           case noted of
             Some _ \<Rightarrow> Ret True
           | None \<Rightarrow>
               inside (\<lambda>w. w\<lparr>rm_published := (rm_published w)((user, device) := None)\<rparr>) (\<lambda>_. False))))"

definition active_device :: "str \<Rightarrow> (remote_world, str option) prog" where
  "active_device user =
     (if \<not> subject_safe user then Ret None
      else bind open_store (\<lambda>up.
        if \<not> up then Ret None
        else bind (checked (store_devices user)) (\<lambda>r.
          case r of
            None \<Rightarrow> Ret None
          | Some ds \<Rightarrow> bind wall_now (\<lambda>now. Ret (winner now ds)))))"

definition deliverable :: "remote_command \<Rightarrow> str \<Rightarrow> (remote_world, bool option) prog" where
  "deliverable c device =
     bind (checked (reply_for (rc_user c) (rc_id c))) (\<lambda>answered.
       case answered of
         None \<Rightarrow> Ret None
       | Some (Some _) \<Rightarrow> Ret (Some False)
       | Some None \<Rightarrow> checked (claim (rc_user c) (rc_id c) device))"

record scan =
  sc_from :: nat
  sc_ready :: "remote_command list"
  sc_devices :: devices
  sc_presence_ok :: bool

text \<open>\<open>scan.ready.push(command)\<close>\<close>

definition hand :: "remote_command \<Rightarrow> str \<Rightarrow> (remote_world, unit) prog" where
  "hand c device = inside (\<lambda>w. w\<lparr>rm_handed := (rc_user c, rc_id c, device) # rm_handed w\<rparr>) (\<lambda>_. ())"

primrec scan_loop :: "nat \<Rightarrow> str \<Rightarrow> str \<Rightarrow> int \<Rightarrow> scan \<Rightarrow> (remote_world, scan) prog" where
  "scan_loop 0 user device now s = Ret s"
| "scan_loop (Suc n) user device now s =
     bind (checked (next_after user (sc_from s))) (\<lambda>r.
       case r of
         Some (Some (seq, body)) \<Rightarrow>
           (case body of
              Some c \<Rightarrow>
                if now < rc_expires_at c then
                  if is_target device now (sc_devices s) then
                    bind (deliverable c device) (\<lambda>d.
                      case d of
                        None \<Rightarrow> Ret s
                      | Some yes \<Rightarrow>
                          if yes then bind (hand c device) (\<lambda>_.
                            scan_loop n user device now (s\<lparr>sc_ready := sc_ready s @ [c], sc_from := seq\<rparr>))
                          else scan_loop n user device now (s\<lparr>sc_from := seq\<rparr>))
                  else if \<not> sc_presence_ok s then Ret s
                  else scan_loop n user device now (s\<lparr>sc_from := seq\<rparr>)
                else scan_loop n user device now (s\<lparr>sc_from := seq\<rparr>)
            | None \<Rightarrow> scan_loop n user device now (s\<lparr>sc_from := seq\<rparr>))
       | _ \<Rightarrow> Ret s)"

definition scan_once :: "str \<Rightarrow> str \<Rightarrow> scan \<Rightarrow> (remote_world, scan) prog" where
  "scan_once user device s =
     bind (checked (store_devices user)) (\<lambda>r.
       case r of
         None \<Rightarrow> Ret s
       | Some ds \<Rightarrow> bind wall_now (\<lambda>now. scan_loop REMOTE_SCAN_LIMIT user device now (s\<lparr>sc_devices := ds\<rparr>)))"

text \<open>
  \<open>settle\<close>: scan, and scan again each time the task wakes with nothing ready. How often it wakes
  before it is replaced, loses its subscription or reaches its deadline is up to the world.
\<close>

primrec rescan :: "nat \<Rightarrow> str \<Rightarrow> str \<Rightarrow> scan \<Rightarrow> (remote_world, scan) prog" where
  "rescan 0 user device s = Ret s"
| "rescan (Suc n) user device s =
     (if sc_ready s \<noteq> [] then Ret s else bind (scan_once user device s) (rescan n user device))"

definition settle_wait :: "nat \<Rightarrow> str \<Rightarrow> str \<Rightarrow> scan \<Rightarrow> (remote_world, scan) prog" where
  "settle_wait wakes user device s = bind (scan_once user device s) (rescan wakes user device)"

text \<open>
  When the task scans again by itself: once woken it checks after 50 milliseconds, then after twice
  as long each time, and at the deadline at the latest. \<open>took\<close> is how long the scan at an instant
  lasts.
\<close>

definition RECHECK_AFTER :: int where "RECHECK_AFTER = 50"

function rechecks :: "(int \<Rightarrow> nat) \<Rightarrow> int \<Rightarrow> int \<Rightarrow> int \<Rightarrow> int list" where
  "rechecks took deadline now pause =
     (if 0 < pause \<and> now < deadline
      then let at_ms = min (now + pause) deadline
           in at_ms # rechecks took deadline (at_ms + int (took at_ms)) (pause * 2)
      else [])"
  by pat_completeness auto
termination
  by (relation "measure (\<lambda>(took, deadline, now, pause). nat (deadline - now))") (auto simp: min_def)

declare rechecks.simps [simp del]

definition waiting :: "nat \<Rightarrow> str \<Rightarrow> str \<Rightarrow> int \<Rightarrow> int option \<Rightarrow> (remote_world, wait_refused + wait_response) prog" where
  "waiting wakes user device active since =
     bind (announce user device active) (\<lambda>presence_ok.
     bind (checked last_seq) (\<lambda>l.
       case l of
         None \<Rightarrow> Ret (Inl Store_Unavailable)
       | Some newest_seq \<Rightarrow>
           (case since of
              Some from_seq \<Rightarrow>
                if nat from_seq \<le> newest_seq then
                  bind (checked (command id (\<lambda>_. ()))) (\<lambda>wake.
                    case wake of
                      None \<Rightarrow> Ret (Inl Store_Unavailable)
                    | Some _ \<Rightarrow>
                        bind (settle_wait wakes user device
                               \<lparr>sc_from = nat from_seq, sc_ready = [], sc_devices = [], sc_presence_ok = presence_ok\<rparr>)
                          (\<lambda>s. bind wall_now (\<lambda>now.
                            Ret (Inr \<lparr>wr_cursor = int (sc_from s), wr_commands = sc_ready s,
                                      wr_active_device = winner now (sc_devices s)\<rparr>))))
                else bind (active_device user) (\<lambda>d.
                  Ret (Inr \<lparr>wr_cursor = int newest_seq, wr_commands = [], wr_active_device = d\<rparr>))
            | None \<Rightarrow> bind (active_device user) (\<lambda>d.
                Ret (Inr \<lparr>wr_cursor = int newest_seq, wr_commands = [], wr_active_device = d\<rparr>)))))"

definition hub_wait :: "nat \<Rightarrow> str \<Rightarrow> str \<Rightarrow> int \<Rightarrow> int option \<Rightarrow> (remote_world, wait_refused + wait_response) prog" where
  "hub_wait wakes user device active since =
     (if \<not> subject_safe user then Ret (Inl Store_Unavailable)
      else bind open_store (\<lambda>up.
        if \<not> up then Ret (Inl Store_Unavailable)
        else case since of
               None \<Rightarrow> waiting wakes user device active since
             | Some _ \<Rightarrow>
                 bind (inside (\<lambda>w. w\<lparr>rm_waits := snd (enter user device (rm_waits w))\<rparr>)
                              (\<lambda>w. fst (enter user device (rm_waits w)))) (\<lambda>slot.
                   case slot of
                     None \<Rightarrow> Ret (Inl TooManyDevices)
                   | Some n \<Rightarrow>
                       bind (waiting wakes user device active since) (\<lambda>r.
                         inside (\<lambda>w. w\<lparr>rm_waits := drop_slot n (rm_waits w)\<rparr>) (\<lambda>_. r)))))"

end
