(* ===== verification/Remote_Rules.thy ===== *)
theory Remote_Rules
  imports Remote_Hub
begin

text \<open>
  What holds of voice commands while any number of requests run against each other, against a
  broker that fails or answers late, and against expiry. \<open>remote_inv\<close> is the invariant of the
  buckets, of the stored device lists and of everything the hub has sent out; \<open>remote_guar\<close> is what
  a step keeps: time does not run back and the history of the buckets only grows.
\<close>

section \<open>The invariant and the guarantee\<close>

definition seen_claims :: "remote_world \<Rightarrow> (int \<times> (str \<times> uuid) \<times> str) set" where
  "seen_claims w = set (kb_seen (rm_claims w))"

definition seen_replies :: "remote_world \<Rightarrow> (int \<times> (str \<times> uuid) \<times> reply_envelope) set" where
  "seen_replies w = set (kb_seen (rm_replies w))"

definition remote_inv :: "remote_world \<Rightarrow> bool" where
  "remote_inv w \<longleftrightarrow>
     bucket_ok COMMANDS_AGE (rm_clock w) (rm_claims w) \<and> bucket_ok REPLIES_AGE (rm_clock w) (rm_replies w) \<and>
     (\<forall>u r ds d. rm_devices w u = Some ((r, Some ds), d) \<longrightarrow> devices_wf ds) \<and>
     (\<forall>(u, i, d) \<in> set (rm_handed w). \<exists>t. (t, (u, i), d) \<in> seen_claims w) \<and>
     logged (rm_replies w) \<and> (\<forall>(t, k, e) \<in> seen_replies w. k = (en_user e, rr_id (en_reply e))) \<and>
     (\<forall>(i, e) \<in> set (rm_told w). \<exists>t. (t, (en_user e, i), e) \<in> seen_replies w)"

definition remote_guar :: "remote_world \<Rightarrow> remote_world \<Rightarrow> bool" where
  "remote_guar w w' \<longleftrightarrow>
     rm_clock w \<le> rm_clock w' \<and> seen_claims w \<subseteq> seen_claims w' \<and> seen_replies w \<subseteq> seen_replies w'"

text \<open>What happens by itself: time passes, the store opens or closes, cached presence is evicted.\<close>

definition remote_env :: "remote_world \<Rightarrow> remote_world \<Rightarrow> bool" where
  "remote_env w w' \<longleftrightarrow>
     rm_clock w \<le> rm_clock w' \<and> rm_claims w' = rm_claims w \<and> rm_replies w' = rm_replies w \<and>
     rm_devices w' = rm_devices w \<and> rm_stream w' = rm_stream w \<and> rm_last_seq w' = rm_last_seq w \<and>
     rm_revision w' = rm_revision w \<and> rm_waits w' = rm_waits w \<and> rm_told w' = rm_told w \<and>
     rm_handed w' = rm_handed w"

abbreviation remote_assured :: "remote_world \<Rightarrow> (remote_world, 'a) prog \<Rightarrow> (remote_world \<Rightarrow> 'a \<Rightarrow> bool) \<Rightarrow> bool" where
  "remote_assured \<equiv> assured remote_inv remote_guar"

lemma remote_guar_refl [simp]: "remote_guar w w"
  by (simp add: remote_guar_def)

lemma remote_guar_trans: "remote_guar u v \<Longrightarrow> remote_guar v w \<Longrightarrow> remote_guar u w"
  by (auto simp: remote_guar_def)

lemma ages [simp]: "0 \<le> COMMANDS_AGE" "0 \<le> REPLIES_AGE"
  by (simp_all add: COMMANDS_AGE_def REPLIES_AGE_def)

text \<open>A step that leaves the buckets, the device lists and what was sent as they are.\<close>

lemma plain_step:
  assumes "remote_inv w" "rm_clock w' = rm_clock w" "rm_claims w' = rm_claims w" "rm_replies w' = rm_replies w"
    "rm_devices w' = rm_devices w" "rm_told w' = rm_told w" "rm_handed w' = rm_handed w"
  shows "remote_inv w' \<and> remote_guar w w'"
  using assms by (simp add: remote_inv_def remote_guar_def seen_claims_def seen_replies_def)

lemma env_step:
  assumes "remote_inv w" "remote_env w w'"
  shows "remote_inv w' \<and> remote_guar w w'"
  using assms
  by (auto simp: remote_inv_def remote_env_def remote_guar_def seen_claims_def seen_replies_def
      intro: bucket_ok_later)

lemma claims_step:
  assumes "remote_inv w" "bucket_ok COMMANDS_AGE (rm_clock w) b" "set (kb_seen (rm_claims w)) \<subseteq> set (kb_seen b)"
  shows "remote_inv (w\<lparr>rm_claims := b\<rparr>) \<and> remote_guar w (w\<lparr>rm_claims := b\<rparr>)"
  using assms by (fastforce simp: remote_inv_def remote_guar_def seen_claims_def seen_replies_def)

lemma replies_step:
  assumes "remote_inv w" "bucket_ok REPLIES_AGE (rm_clock w) b" "set (kb_seen (rm_replies w)) \<subseteq> set (kb_seen b)"
    and "logged b" "\<forall>(t, k, e) \<in> set (kb_seen b). k = (en_user e, rr_id (en_reply e))"
  shows "remote_inv (w\<lparr>rm_replies := b\<rparr>) \<and> remote_guar w (w\<lparr>rm_replies := b\<rparr>)"
  using assms by (fastforce simp: remote_inv_def remote_guar_def seen_claims_def seen_replies_def)

lemma claim_steps:
  assumes "remote_inv w"
  shows "remote_inv (w\<lparr>rm_claims := kv_create COMMANDS_AGE (rm_clock w) k d (rm_claims w)\<rparr>) \<and>
         remote_guar w (w\<lparr>rm_claims := kv_create COMMANDS_AGE (rm_clock w) k d (rm_claims w)\<rparr>)"
    and "remote_inv (w\<lparr>rm_claims := kv_read (rm_clock w) k (rm_claims w)\<rparr>) \<and>
         remote_guar w (w\<lparr>rm_claims := kv_read (rm_clock w) k (rm_claims w)\<rparr>)"
proof -
  have "bucket_ok COMMANDS_AGE (rm_clock w) (rm_claims w)" using assms by (simp add: remote_inv_def)
  then show "remote_inv (w\<lparr>rm_claims := kv_create COMMANDS_AGE (rm_clock w) k d (rm_claims w)\<rparr>) \<and>
         remote_guar w (w\<lparr>rm_claims := kv_create COMMANDS_AGE (rm_clock w) k d (rm_claims w)\<rparr>)"
    and "remote_inv (w\<lparr>rm_claims := kv_read (rm_clock w) k (rm_claims w)\<rparr>) \<and>
         remote_guar w (w\<lparr>rm_claims := kv_read (rm_clock w) k (rm_claims w)\<rparr>)"
    by (intro claims_step [OF assms] bucket_ok_create bucket_ok_read seen_grows ages; assumption)+
qed

lemma reply_steps:
  assumes "remote_inv w"
  shows "remote_inv (w\<lparr>rm_replies :=
           kv_create REPLIES_AGE (rm_clock w) (en_user e, rr_id (en_reply e)) e (rm_replies w)\<rparr>) \<and>
         remote_guar w (w\<lparr>rm_replies :=
           kv_create REPLIES_AGE (rm_clock w) (en_user e, rr_id (en_reply e)) e (rm_replies w)\<rparr>)"
    and "remote_inv (w\<lparr>rm_replies := kv_read (rm_clock w) k (rm_replies w)\<rparr>) \<and>
         remote_guar w (w\<lparr>rm_replies := kv_read (rm_clock w) k (rm_replies w)\<rparr>)"
proof -
  have b: "bucket_ok REPLIES_AGE (rm_clock w) (rm_replies w)" "logged (rm_replies w)"
      "\<forall>(t, k, e) \<in> set (kb_seen (rm_replies w)). k = (en_user e, rr_id (en_reply e))"
    using assms by (simp_all add: remote_inv_def seen_replies_def)
  show "remote_inv (w\<lparr>rm_replies :=
           kv_create REPLIES_AGE (rm_clock w) (en_user e, rr_id (en_reply e)) e (rm_replies w)\<rparr>) \<and>
         remote_guar w (w\<lparr>rm_replies :=
           kv_create REPLIES_AGE (rm_clock w) (en_user e, rr_id (en_reply e)) e (rm_replies w)\<rparr>)"
    by (intro replies_step [OF assms] bucket_ok_create seen_grows ages logged_create b seen_create [OF b(3)]) simp
  show "remote_inv (w\<lparr>rm_replies := kv_read (rm_clock w) k (rm_replies w)\<rparr>) \<and>
         remote_guar w (w\<lparr>rm_replies := kv_read (rm_clock w) k (rm_replies w)\<rparr>)"
    by (intro replies_step [OF assms] bucket_ok_read seen_grows logged_read b seen_read_all [OF b(2,3)])
qed

section \<open>Requests to the store\<close>

lemma assured_any: "remote_assured w0 p (\<lambda>_. Q) \<Longrightarrow> remote_assured w0 p (\<lambda>_. anything)"
  by (erule assured_mono) simp

lemma assured_checked:
  "remote_assured w0 m (\<lambda>w r. case r of Inl _ \<Rightarrow> True | Inr a \<Rightarrow> Q w a) \<Longrightarrow>
   remote_assured w0 (checked m) (\<lambda>w r. case r of None \<Rightarrow> True | Some a \<Rightarrow> Q w a)"
  unfolding checked_def by (erule assured_bindI) (auto split: sum.splits)

lemma assured_read: "remote_assured w0 (command id f) (\<lambda>_. anything)"
  by (rule assured_command) auto

lemma claim_assured:
  "remote_assured w0 (claim u i d) (\<lambda>w r. r = Inr True \<longrightarrow> (\<exists>t. (t, (u, i), d) \<in> seen_claims w))"
  unfolding claim_def
proof (rule assured_awaitI [where R = "\<lambda>w r. r = Inr True \<longrightarrow> (\<exists>t. (t, (u, i), d) \<in> seen_claims w)"])
  show "remote_assured w0 (command
      (\<lambda>w. w\<lparr>rm_claims := kv_create COMMANDS_AGE (rm_clock w) (u, i) d (rm_claims w)\<rparr>)
      (\<lambda>w. kv_get (rm_clock w) (u, i) (rm_claims w) = None))
      (\<lambda>w r. r = Inr True \<longrightarrow> (\<exists>t. (t, (u, i), d) \<in> seen_claims w))"
    by (rule assured_command) (use claim_steps(1) in \<open>auto dest: seen_created simp: seen_claims_def\<close>)
next
  fix w created assume known: "Inr created = Inr True \<longrightarrow> (\<exists>t. (t, (u, i), d) \<in> seen_claims w)"
  have "remote_assured w (await (command
      (\<lambda>w. w\<lparr>rm_claims := kv_read (rm_clock w) (u, i) (rm_claims w)\<rparr>)
      (\<lambda>w. kv_get (rm_clock w) (u, i) (rm_claims w))) (\<lambda>holder. ok (holder = Some d)))
      (\<lambda>w r. r = Inr True \<longrightarrow> (\<exists>t. (t, (u, i), d) \<in> seen_claims w))"
    by (rule assured_awaitI [where R = "\<lambda>w r. r = Inr (Some d) \<longrightarrow> (\<exists>t. (t, (u, i), d) \<in> seen_claims w)"],
        rule assured_command)
       (use claim_steps(2) in \<open>auto dest: seen_read simp: seen_claims_def\<close>)
  then show "remote_assured w (if created then ok True
      else await (command
        (\<lambda>w. w\<lparr>rm_claims := kv_read (rm_clock w) (u, i) (rm_claims w)\<rparr>)
        (\<lambda>w. kv_get (rm_clock w) (u, i) (rm_claims w))) (\<lambda>holder. ok (holder = Some d)))
      (\<lambda>w r. r = Inr True \<longrightarrow> (\<exists>t. (t, (u, i), d) \<in> seen_claims w))"
    using known by simp
qed simp

lemma tell_assured:
  assumes "\<exists>t. (t, (en_user e, i), e) \<in> seen_replies w0"
  shows "remote_assured w0 (tell_reply i e) (\<lambda>_. anything)"
  unfolding tell_reply_def
proof (rule assured_command)
  fix w assume "remote_inv w" "remote_guar w0 w"
  moreover then have "\<exists>t. (t, (en_user e, i), e) \<in> seen_replies w"
    using assms by (auto simp: remote_guar_def)
  ultimately show "remote_inv (w\<lparr>rm_told := rm_told w @ [(i, e)]\<rparr>) \<and>
      remote_guar w (w\<lparr>rm_told := rm_told w @ [(i, e)]\<rparr>) \<and> True"
    by (auto simp: remote_inv_def remote_guar_def seen_claims_def seen_replies_def)
qed simp

lemma reply_read_assured:
  "remote_assured w0 (command (\<lambda>w. w\<lparr>rm_replies := kv_read (rm_clock w) k (rm_replies w)\<rparr>)
     (\<lambda>w. kv_get (rm_clock w) k (rm_replies w)))
   (\<lambda>w r. \<forall>e. r = Inr (Some e) \<longrightarrow> (\<exists>t. (t, k, e) \<in> seen_replies w) \<and> k = (en_user e, rr_id (en_reply e)))"
proof (rule assured_command)
  fix w assume "remote_inv w"
  note step = reply_steps(2) [OF this, of k]
  have "(\<exists>t. (t, k, e) \<in> seen_replies (w\<lparr>rm_replies := kv_read (rm_clock w) k (rm_replies w)\<rparr>)) \<and>
      k = (en_user e, rr_id (en_reply e))" if "kv_get (rm_clock w) k (rm_replies w) = Some e" for e
  proof -
    have "(rm_clock w, k, e) \<in> seen_replies (w\<lparr>rm_replies := kv_read (rm_clock w) k (rm_replies w)\<rparr>)"
      using seen_read [OF that] by (simp add: seen_replies_def)
    then show ?thesis using step unfolding remote_inv_def by blast
  qed
  then show "remote_inv (w\<lparr>rm_replies := kv_read (rm_clock w) k (rm_replies w)\<rparr>) \<and>
      remote_guar w (w\<lparr>rm_replies := kv_read (rm_clock w) k (rm_replies w)\<rparr>) \<and>
      (\<forall>e. Inr (kv_get (rm_clock w) k (rm_replies w)) = Inr (Some e) \<longrightarrow>
        (\<exists>t. (t, k, e) \<in> seen_replies (w\<lparr>rm_replies := kv_read (rm_clock w) k (rm_replies w)\<rparr>)) \<and>
        k = (en_user e, rr_id (en_reply e)))"
    using step by simp
qed simp

lemma record_reply_assured: "remote_assured w0 (record_reply e) (\<lambda>_. anything)"
  unfolding record_reply_def Let_def
proof (rule assured_awaitI
    [where R = "\<lambda>w r. r = Inr True \<longrightarrow> (\<exists>t. (t, (en_user e, rr_id (en_reply e)), e) \<in> seen_replies w)"])
  show "remote_assured w0 (command (\<lambda>w. w\<lparr>rm_replies :=
        kv_create REPLIES_AGE (rm_clock w) (en_user e, rr_id (en_reply e)) e (rm_replies w)\<rparr>)
      (\<lambda>w. kv_get (rm_clock w) (en_user e, rr_id (en_reply e)) (rm_replies w) = None))
      (\<lambda>w r. r = Inr True \<longrightarrow> (\<exists>t. (t, (en_user e, rr_id (en_reply e)), e) \<in> seen_replies w))"
    by (rule assured_command) (use reply_steps(1) in \<open>auto dest: seen_created simp: seen_replies_def\<close>)
next
  fix w created assume known:
    "Inr created = Inr True \<longrightarrow> (\<exists>t. (t, (en_user e, rr_id (en_reply e)), e) \<in> seen_replies w)"
  have "remote_assured w (await (command
        (\<lambda>w. w\<lparr>rm_replies := kv_read (rm_clock w) (en_user e, rr_id (en_reply e)) (rm_replies w)\<rparr>)
        (\<lambda>w. kv_get (rm_clock w) (en_user e, rr_id (en_reply e)) (rm_replies w)))
      (\<lambda>stored. case stored of Some f \<Rightarrow> tell_reply (rr_id (en_reply e)) f | None \<Rightarrow> ok ())) (\<lambda>_. anything)"
  proof (rule assured_awaitI [OF reply_read_assured])
    fix w stored assume found: "\<forall>f. Inr stored = Inr (Some f) \<longrightarrow>
        (\<exists>t. (t, (en_user e, rr_id (en_reply e)), f) \<in> seen_replies w) \<and>
        (en_user e, rr_id (en_reply e)) = (en_user f, rr_id (en_reply f))"
    show "remote_assured w (case stored of Some f \<Rightarrow> tell_reply (rr_id (en_reply e)) f | None \<Rightarrow> ok ()) (\<lambda>_. anything)"
    proof (cases stored)
      case (Some f)
      then have "\<exists>t. (t, (en_user f, rr_id (en_reply e)), f) \<in> seen_replies w"
        using found by (metis prod.inject)
      then show ?thesis using Some tell_assured by simp
    qed simp
  qed simp
  then show "remote_assured w (if created then tell_reply (rr_id (en_reply e)) e else await (command
        (\<lambda>w. w\<lparr>rm_replies := kv_read (rm_clock w) (en_user e, rr_id (en_reply e)) (rm_replies w)\<rparr>)
        (\<lambda>w. kv_get (rm_clock w) (en_user e, rr_id (en_reply e)) (rm_replies w)))
      (\<lambda>stored. case stored of Some f \<Rightarrow> tell_reply (rr_id (en_reply e)) f | None \<Rightarrow> ok ())) (\<lambda>_. anything)"
    using known by (auto intro!: tell_assured)
qed simp

section \<open>The other requests and the hub\<close>

lemma any_bind:
  "remote_assured w0 p (\<lambda>_. anything) \<Longrightarrow> (\<And>w a. remote_assured w (k a) (\<lambda>_. anything)) \<Longrightarrow>
   remote_assured w0 (bind p k) (\<lambda>_. anything)"
  by (rule assured_bindI)

lemma any_await:
  "remote_assured w0 m (\<lambda>_. anything) \<Longrightarrow> (\<And>w a. remote_assured w (k a) (\<lambda>_. anything)) \<Longrightarrow>
   remote_assured w0 (await m k) (\<lambda>_. anything)"
  by (rule assured_awaitI) auto

lemma any_checked: "remote_assured w0 m (\<lambda>_. anything) \<Longrightarrow> remote_assured w0 (checked m) (\<lambda>_. anything)"
  unfolding checked_def by (rule any_bind) auto

lemma any_inside:
  "(\<And>w. remote_inv w \<Longrightarrow> remote_inv (u w) \<and> remote_guar w (u w)) \<Longrightarrow> remote_assured w0 (inside u f) (\<lambda>_. anything)"
  by (rule assured_inside) simp

lemma any_command:
  "(\<And>w. remote_inv w \<Longrightarrow> remote_inv (u w) \<and> remote_guar w (u w)) \<Longrightarrow> remote_assured w0 (command u f) (\<lambda>_. anything)"
  by (rule assured_command) simp_all

lemma any_ret: "remote_assured w0 (Ret a) (\<lambda>_. anything)"
  by simp

lemma any_if:
  "remote_assured w0 p Q \<Longrightarrow> remote_assured w0 q Q \<Longrightarrow> remote_assured w0 (if b then p else q) Q"
  by simp

lemma any_option:
  "remote_assured w0 p Q \<Longrightarrow> (\<And>a. remote_assured w0 (k a) Q) \<Longrightarrow>
   remote_assured w0 (case x of None \<Rightarrow> p | Some a \<Rightarrow> k a) Q"
  by (cases x) simp_all

lemma any_sum:
  "(\<And>a. remote_assured w0 (p a) Q) \<Longrightarrow> (\<And>a. remote_assured w0 (k a) Q) \<Longrightarrow>
   remote_assured w0 (case x of Inl a \<Rightarrow> p a | Inr a \<Rightarrow> k a) Q"
  by (cases x) simp_all

lemma any_prod: "(\<And>a b. remote_assured w0 (k a b) Q) \<Longrightarrow> remote_assured w0 (case x of (a, b) \<Rightarrow> k a b) Q"
  by (cases x) simp

lemma any_unreached:
  "remote_assured w0 p Q \<Longrightarrow> remote_assured w0 q Q \<Longrightarrow> remote_assured w0 (case x of Offline \<Rightarrow> p | Busy \<Rightarrow> q) Q"
  by (cases x) simp_all

lemma plain_any:
  "remote_assured w0 open_store (\<lambda>_. anything)"
  "remote_assured w0 wall_now (\<lambda>_. anything)"
  "remote_assured w0 (command id g) (\<lambda>_. anything)"
  "remote_assured w0 (inside id f) (\<lambda>_. anything)"
  "remote_assured w0 (inside (note_presence user device active) h) (\<lambda>_. anything)"
  "remote_assured w0 (inside (\<lambda>w. w\<lparr>rm_published := pub w\<rparr>) h') (\<lambda>_. anything)"
  "remote_assured w0 (inside (\<lambda>w. w\<lparr>rm_waits := wt w\<rparr>) h'') (\<lambda>_. anything)"
  unfolding open_store_def wall_now_def
  by ((rule any_inside any_command, erule plain_step; simp add: note_presence_def)+)

lemma store_any:
  "remote_assured w0 (store_publish c) (\<lambda>_. anything)"
  "remote_assured w0 last_seq (\<lambda>_. anything)"
  "remote_assured w0 (next_after user seq) (\<lambda>_. anything)"
  "remote_assured w0 (claimed user i) (\<lambda>_. anything)"
  "remote_assured w0 (store_devices user) (\<lambda>_. anything)"
  "remote_assured w0 (reply_for user i) (\<lambda>_. anything)"
proof -
  have "remote_inv (stream_push c w) \<and> remote_guar w (stream_push c w)" if "remote_inv w" for w
    by (rule plain_step [OF that]) (simp_all add: stream_push_def Let_def)
  then show "remote_assured w0 (store_publish c) (\<lambda>_. anything)"
    unfolding store_publish_def by (rule any_command)
  show "remote_assured w0 (reply_for user i) (\<lambda>_. anything)"
    unfolding reply_for_def by (rule any_await [OF assured_mono [OF reply_read_assured]]) simp_all
qed (simp_all only: last_seq_def next_after_def claimed_def store_devices_def plain_any)

lemma write_devices_step:
  assumes "remote_inv w" "devices_wf ds"
  shows "remote_inv (write_devices user r ds w) \<and> remote_guar w (write_devices user r ds w)"
  using assms by (auto simp: write_devices_def remote_inv_def remote_guar_def seen_claims_def seen_replies_def
      set_ex_def)

lemma entry_wf: "remote_inv w \<Longrightarrow> devices_wf (known_devices (device_entry user w))"
  by (auto simp: known_devices_def device_entry_def live_def remote_inv_def devices_wf_def
      split: option.splits if_splits)

lemma note_tries_any: "remote_assured w0 (note_tries n e user device active now) (\<lambda>_. anything)"
proof (induction n arbitrary: w0 e)
  case (Suc n)
  show ?case
    unfolding note_tries.simps
  proof (rule assured_awaitI [where R = "\<lambda>_ r. \<forall>entry. r = Inr entry \<longrightarrow> devices_wf (known_devices entry)"])
    show "remote_assured w0 (command id (device_entry user))
        (\<lambda>_ r. \<forall>entry. r = Inr entry \<longrightarrow> devices_wf (known_devices entry))"
      by (rule assured_command) (auto intro: entry_wf)
  next
    fix w entry assume "\<forall>entry'. Inr entry = Inr entry' \<longrightarrow> devices_wf (known_devices entry')"
    then have "devices_wf (note_seen device active now (known_devices entry))" by (simp add: devices_wf_note)
    then show "remote_assured w (bind (command
          (write_devices user (map_option fst entry) (note_seen device active now (known_devices entry)))
          (\<lambda>w. map_option fst (device_entry user w) = map_option fst entry))
        (\<lambda>written. case written of
           Inl e \<Rightarrow> if no_answer e \<or> is_missing e then err e else note_tries n e user device active now
         | Inr done \<Rightarrow> if done then ok () else note_tries n wrong_revision user device active now)) (\<lambda>_. anything)"
      by (intro any_bind any_command any_sum any_if any_ret Suc.IH write_devices_step)
  qed simp
qed simp

lemmas any_intros =
  any_bind any_await any_checked any_ret any_if any_option any_sum any_prod any_unreached plain_any store_any
  record_reply_assured

lemma announce_any: "remote_assured w0 (announce user device active) (\<lambda>_. anything)"
  unfolding announce_def note_device_def by (intro any_intros note_tries_any)

lemma deliverable_assured:
  "remote_assured w0 (deliverable c device)
     (\<lambda>w r. r = Some True \<longrightarrow> (\<exists>t. (t, (rc_user c, rc_id c), device) \<in> seen_claims w))"
proof -
  have "remote_assured w (checked (claim (rc_user c) (rc_id c) device))
      (\<lambda>w r. r = Some True \<longrightarrow> (\<exists>t. (t, (rc_user c, rc_id c), device) \<in> seen_claims w))" for w
    unfolding checked_def
    by (rule assured_bindI [OF claim_assured]) (auto split: sum.splits)
  then show ?thesis
    unfolding deliverable_def
    by (intro assured_bindI [OF any_checked [OF store_any(6)]]) (auto split: option.splits)
qed

lemma hand_any:
  assumes "\<exists>t. (t, (rc_user c, rc_id c), device) \<in> seen_claims w0"
  shows "remote_assured w0 (hand c device) (\<lambda>_. anything)"
  unfolding hand_def
proof (rule assured_inside)
  fix w assume w: "remote_inv w" "remote_guar w0 w"
  then have "\<exists>t. (t, (rc_user c, rc_id c), device) \<in> seen_claims w"
    using assms by (auto simp: remote_guar_def)
  with w show "remote_inv (w\<lparr>rm_handed := (rc_user c, rc_id c, device) # rm_handed w\<rparr>) \<and>
      remote_guar w (w\<lparr>rm_handed := (rc_user c, rc_id c, device) # rm_handed w\<rparr>) \<and> True"
    by (simp add: remote_inv_def remote_guar_def seen_claims_def seen_replies_def)
qed

lemma scan_loop_any: "remote_assured w0 (scan_loop n user device now s) (\<lambda>_. anything)"
proof (induction n arbitrary: w0 s)
  case (Suc n)
  have deliver: "remote_assured w (bind (deliverable c device) (\<lambda>d. case d of
        None \<Rightarrow> Ret s
      | Some yes \<Rightarrow> if yes then bind (hand c device) (\<lambda>_.
            scan_loop n user device now (s\<lparr>sc_ready := sc_ready s @ [c], sc_from := seq\<rparr>))
          else scan_loop n user device now (s\<lparr>sc_from := seq\<rparr>))) (\<lambda>_. anything)" for w c seq
    by (rule assured_bindI [OF deliverable_assured])
       (auto intro!: any_bind hand_any Suc.IH split: option.splits)
  show ?case
    unfolding scan_loop.simps by (intro any_intros deliver Suc.IH)
qed simp

lemma scan_once_any: "remote_assured w0 (scan_once user device s) (\<lambda>_. anything)"
  unfolding scan_once_def by (intro any_intros scan_loop_any)

lemma rescan_any: "remote_assured w0 (rescan n user device s) (\<lambda>_. anything)"
  by (induction n arbitrary: w0 s) (auto intro!: any_bind scan_once_any)

lemma hub_any:
  "remote_assured w0 (active_device user) (\<lambda>_. anything)"
  "remote_assured w0 (reachable_user user) (\<lambda>_. anything)"
  "remote_assured w0 (hub_publish c) (\<lambda>_. anything)"
  "remote_assured w0 (hub_answer user i) (\<lambda>_. anything)"
  "remote_assured w0 (settle_wait n user device s) (\<lambda>_. anything)"
  unfolding active_device_def reachable_user_def hub_publish_def hub_answer_def settle_wait_def
  by (intro any_intros scan_once_any rescan_any)+

section \<open>Any number of requests at once\<close>

inductive remote_op :: "(remote_world, unit) prog \<Rightarrow> bool" where
  "remote_op (discard (dispatch i user kind source txt budget))"
| "remote_op (discard (link_confirm i user provider hint))"
| "remote_op (discard (post c))"
| "remote_op (discard (hub_answer user i))"
| "remote_op (discard (hub_reply v7_ms user reply))"
| "remote_op (discard (hub_wait wakes user device active since))"
| "remote_op (discard (active_device user))"

definition nothing_sent :: "remote_world \<Rightarrow> bool" where
  "nothing_sent w \<longleftrightarrow>
     rm_claims w = empty_bucket \<and> rm_replies w = empty_bucket \<and> rm_devices w = (\<lambda>_. None) \<and>
     rm_told w = [] \<and> rm_handed w = []"

lemma nothing_sent_inv: "nothing_sent w \<Longrightarrow> remote_inv w"
  by (simp add: nothing_sent_def remote_inv_def seen_claims_def seen_replies_def empty_bucket_def [symmetric])
     (simp add: empty_bucket_def)

lemma waiting_any: "remote_assured w0 (waiting wakes user device active since) (\<lambda>_. anything)"
  unfolding waiting_def by (intro any_intros hub_any announce_any)

lemma remote_op_any: "remote_op p \<Longrightarrow> remote_assured w0 p (\<lambda>_. anything)"
  by (induction rule: remote_op.induct)
     (unfold discard_def dispatch_def link_confirm_def post_def hub_reply_def hub_wait_def,
      (intro any_intros hub_any waiting_any)+)

lemma remote_reachable_inv:
  assumes "reachable nothing_sent remote_op remote_env ps w"
  shows "remote_inv w"
  using reachable_assured [OF assms, of remote_inv remote_guar] nothing_sent_inv remote_op_any env_step
    remote_guar_refl remote_guar_trans by blast

lemma handed_claimed:
  "remote_inv w \<Longrightarrow> (u, i, d) \<in> set (rm_handed w) \<Longrightarrow> \<exists>t. (t, (u, i), d) \<in> set (kb_seen (rm_claims w))"
  by (auto simp: remote_inv_def seen_claims_def)

text \<open>
  C5. A voice command reaches one device. Whatever requests run at once, and whatever the broker
  loses, if every claim of a command was answered within the life of a command (two minutes) then
  all devices it was handed to are the same one, however often it is handed out again.
\<close>

theorem one_device_per_command:
  assumes "reachable nothing_sent remote_op remote_env ps w"
    and "(user, i, device) \<in> set (rm_handed w)" "(user, i, device') \<in> set (rm_handed w)"
    and "\<forall>(t, k, d) \<in> set (kb_seen (rm_claims w)). k = (user, i) \<longrightarrow> t0 \<le> t \<and> t \<le> t0 + COMMANDS_AGE"
  shows "device = device'"
proof -
  have inv: "remote_inv w" by (rule remote_reachable_inv [OF assms(1)])
  obtain t t' where c: "(t, (user, i), device) \<in> set (kb_seen (rm_claims w))"
      "(t', (user, i), device') \<in> set (kb_seen (rm_claims w))"
    using handed_claimed [OF inv] assms(2,3) by meson
  have ok: "bucket_ok COMMANDS_AGE (rm_clock w) (rm_claims w)" using inv by (simp add: remote_inv_def)
  show ?thesis
    by (rule first_write_wins [OF ok _ c, of t0]) (use assms(4) in auto)
qed

definition sample_command :: remote_command where
  "sample_command = new_command 7 Utterance [48] [] [] None 5000 1000"

definition sample_rw :: remote_world where
  "sample_rw =
     \<lparr>rm_clock = 1000, rm_wall = 1000, rm_instant = 0, rm_open = True,
      rm_stream = [\<lparr>ms_seq = 1, ms_at = 1000, ms_user = [48], ms_body = Some sample_command\<rparr>],
      rm_last_seq = 1, rm_replies = empty_bucket, rm_claims = empty_bucket, rm_devices = (\<lambda>_. None),
      rm_revision = 0, rm_published = (\<lambda>_. None), rm_waits = no_waits, rm_told = [], rm_handed = []\<rparr>"

definition waited :: remote_world where
  "waited = snd (run (hub_wait 0 [48] [49] 5 (Some 0)) sample_rw)"

lemma sample_waited: "rm_handed waited = [([48], 7, [49])] \<and> kb_seen (rm_claims waited) = [(1000, ([48], 7), [49])]"
  by code_simp

lemma waited_reachable: "\<exists>ps. reachable nothing_sent remote_op remote_env ps waited"
proof -
  let ?p = "discard (hub_wait 0 [48] [49] 5 (Some 0))"
  have "reachable nothing_sent remote_op remote_env [?p] sample_rw"
    by (intro reach_spawn reach_init remote_op.intros) (simp add: nothing_sent_def sample_rw_def)
  then have "reachable nothing_sent remote_op remote_env [Ret (fst (run ?p sample_rw))] (snd (run ?p sample_rw))"
    by (rule reachable_run)
  then show ?thesis by (auto simp: discard_def waited_def split: prod.splits)
qed

theorem one_device_per_command_witness:
  "\<exists>ps. reachable nothing_sent remote_op remote_env ps waited \<and> ([48], 7, [49]) \<in> set (rm_handed waited) \<and>
     (\<forall>device. ([48], 7, device) \<in> set (rm_handed waited) \<longrightarrow> device = [49])"
proof -
  obtain ps where ps: "reachable nothing_sent remote_op remote_env ps waited"
    using waited_reachable by blast
  have "device = [49]" if "([48], 7, device) \<in> set (rm_handed waited)" for device
    using one_device_per_command [OF ps that, of "[49]" 1000] sample_waited by (simp add: COMMANDS_AGE_def)
  then show ?thesis using ps sample_waited by auto
qed

section \<open>Replies\<close>

text \<open>What the others may do meanwhile: anything that keeps the invariant and the guarantee.\<close>

definition remote_peers :: "remote_world \<Rightarrow> remote_world \<Rightarrow> bool" where
  "remote_peers w w' \<longleftrightarrow> (remote_inv w \<longrightarrow> remote_inv w' \<and> remote_guar w w')"

definition recorded :: "str \<Rightarrow> uuid \<Rightarrow> remote_world \<Rightarrow> remote_reply \<Rightarrow> bool" where
  "recorded user i w r \<longleftrightarrow> rr_id r = i \<and> (\<exists>t. (t, (user, i), \<lparr>en_user = user, en_reply = r\<rparr>) \<in> seen_replies w)"

lemma envelope_eta: "e = \<lparr>en_user = en_user e, en_reply = en_reply e\<rparr>"
  by simp

lemma hub_answer_assured:
  "remote_assured w0 (hub_answer user i) (\<lambda>w a. \<forall>r. a = Some r \<longrightarrow> recorded user i w r)"
proof -
  have "remote_assured w (reply_for user i) (\<lambda>w r. \<forall>e. r = Inr (Some e) \<longrightarrow> recorded user i w (en_reply e))" for w
    unfolding reply_for_def
    by (rule assured_awaitI [OF reply_read_assured])
       (auto simp: recorded_def split: option.splits, metis envelope_eta)
  then have "remote_assured w (checked (reply_for user i))
      (\<lambda>w r. \<forall>e. r = Some (Some e) \<longrightarrow> recorded user i w (en_reply e))" for w
    unfolding checked_def by (rule assured_bindI) (auto split: sum.splits)
  then show ?thesis
    unfolding hub_answer_def
    by (intro any_if assured_bindI [OF plain_any(1)])
       (auto intro!: assured_bindI split: option.splits)
qed

lemma heard_assured:
  "remote_assured w0 (inside id (\<lambda>w. find (answers user i) (drop n (rm_told w))))
     (\<lambda>w m. \<forall>j e. m = Some (j, e) \<longrightarrow> recorded user i w (en_reply e))"
proof (rule assured_inside)
  fix w assume inv: "remote_inv w"
  have "recorded user i w (en_reply e)" if "find (answers user i) (drop n (rm_told w)) = Some (j, e)" for j e
  proof -
    have m: "(j, e) \<in> set (rm_told w)" "answers user i (j, e)"
      using find_in [OF that] by (auto dest: in_set_dropD)
    then have "\<exists>t. (t, (en_user e, j), e) \<in> seen_replies w" using inv by (auto simp: remote_inv_def)
    then show ?thesis using m(2) by (auto simp: recorded_def answers_def) (metis envelope_eta)
  qed
  then show "remote_inv (id w) \<and> remote_guar w (id w) \<and> (\<forall>j e.
      find (answers user i) (drop n (rm_told w)) = Some (j, e) \<longrightarrow> recorded user i (id w) (en_reply e))"
    using inv by simp
qed

lemma listening_assured:
  "remote_assured w0
     (bind (inside id (\<lambda>w. find (answers user i) (drop n (rm_told w)))) (\<lambda>heard.
        case heard of
          None \<Rightarrow> bind (hub_answer user i) (\<lambda>a.
            Ret (case a of None \<Rightarrow> Asked_Silent | Some reply \<Rightarrow> Asked_Reply reply))
        | Some (_, e) \<Rightarrow> Ret (Asked_Reply (en_reply e))))
     (\<lambda>w a. \<forall>r. a = Asked_Reply r \<longrightarrow> recorded user i w r)"
  by (rule assured_bindI [OF heard_assured])
     (auto intro!: assured_bindI [OF hub_answer_assured] split: option.splits)

lemma dispatch_assured:
  "remote_assured w0 (dispatch i user kind source txt budget)
     (\<lambda>w a. \<forall>r. a = Asked_Reply r \<longrightarrow> recorded user i w r)"
  unfolding dispatch_def
  by (intro assured_bindI [OF hub_any(2)] assured_bindI [OF plain_any(2)] assured_bindI [OF hub_any(3)]
        assured_bindI [OF any_checked [OF plain_any(3)]] listening_assured any_sum any_unreached any_option any_if)
     simp_all

text \<open>
  C15. The first reply stands. Whatever \<open>dispatch\<close> gives the assistant for a command is a reply to
  that command, recorded for that user; and as long as the replies of the command were stored and
  read within their life (ten minutes), it is the one every other listener was told, whichever
  devices answered and in whatever order.
\<close>

theorem first_reply_stands:
  assumes "exec remote_peers (dispatch i user kind source txt budget) w tr (Asked_Reply r) w'" "remote_inv w"
    and "\<forall>(t, k, e) \<in> set (kb_seen (rm_replies w')). k = (user, i) \<longrightarrow> t0 \<le> t \<and> t \<le> t0 + REPLIES_AGE"
  shows "rr_id r = i \<and> (\<forall>e. (i, e) \<in> set (rm_told w') \<and> en_user e = user \<longrightarrow> en_reply e = r)"
proof -
  have "remote_inv w' \<and> (\<exists>w1. (\<forall>r'. Asked_Reply r = Asked_Reply r' \<longrightarrow> recorded user i w1 r') \<and> remote_guar w1 w')"
    by (rule exec_assured [OF assms(1) dispatch_assured assms(2) remote_guar_refl])
       (auto simp: remote_peers_def intro: remote_guar_trans)
  then obtain w1 where inv: "remote_inv w'" and rec: "recorded user i w1 r" and g: "remote_guar w1 w'" by blast
  then obtain t where t: "(t, (user, i), \<lparr>en_user = user, en_reply = r\<rparr>) \<in> set (kb_seen (rm_replies w'))"
    by (auto simp: recorded_def remote_guar_def seen_replies_def)
  have ok: "bucket_ok REPLIES_AGE (rm_clock w') (rm_replies w')" using inv by (simp add: remote_inv_def)
  have "en_reply e = r" if told: "(i, e) \<in> set (rm_told w')" "en_user e = user" for e
  proof -
    obtain t' where "(t', (user, i), e) \<in> set (kb_seen (rm_replies w'))"
      using inv told by (auto simp: remote_inv_def seen_replies_def)
    then have "e = \<lparr>en_user = user, en_reply = r\<rparr>"
      using assms(3) by (intro first_write_wins [OF ok _ _ t, of t0]) auto
    then show ?thesis by simp
  qed
  then show ?thesis using rec by (auto simp: recorded_def)
qed

definition sample_reply :: remote_reply where
  "sample_reply = \<lparr>rr_id = 7, rr_ok = True, rr_speech = [], rr_display = [], rr_state = None\<rparr>"

text \<open>The device that waited has answered.\<close>

definition answered :: remote_world where
  "answered = snd (run (hub_reply (\<lambda>_. Some 1000) [48] sample_reply) waited)"

lemma sample_dispatched:
  "fst (run (dispatch 7 [48] Utterance [] [] 5000) answered) = Asked_Reply sample_reply \<and>
   kb_seen (rm_replies (snd (run (dispatch 7 [48] Utterance [] [] 5000) answered))) =
     [(1000, ([48], 7), \<lparr>en_user = [48], en_reply = sample_reply\<rparr>),
      (1000, ([48], 7), \<lparr>en_user = [48], en_reply = sample_reply\<rparr>)]"
  by code_simp

theorem first_reply_stands_witness:
  "\<exists>tr w'. exec remote_peers (dispatch 7 [48] Utterance [] [] 5000) answered tr (Asked_Reply sample_reply) w' \<and>
     rr_id sample_reply = 7 \<and> (\<forall>e. (7, e) \<in> set (rm_told w') \<and> en_user e = [48] \<longrightarrow> en_reply e = sample_reply)"
proof -
  let ?w = "snd (run (dispatch 7 [48] Utterance [] [] 5000) answered)"
  obtain tr where tr: "exec remote_peers (dispatch 7 [48] Utterance [] [] 5000) answered tr (Asked_Reply sample_reply) ?w"
    using exec_run [of remote_peers "dispatch 7 [48] Utterance [] [] 5000" answered] sample_dispatched by auto
  obtain ps where ps: "reachable nothing_sent remote_op remote_env ps waited"
    using waited_reachable by blast
  let ?p = "discard (hub_reply (\<lambda>_. Some 1000) [48] sample_reply)"
  have "reachable nothing_sent remote_op remote_env (Ret (fst (run ?p waited)) # ps) (snd (run ?p waited))"
    by (intro reachable_run reach_spawn ps remote_op.intros)
  then have "reachable nothing_sent remote_op remote_env (Ret (fst (run ?p waited)) # ps) answered"
    by (simp add: discard_def answered_def split: prod.splits)
  then have "remote_inv answered" by (rule remote_reachable_inv)
  then show ?thesis
    using first_reply_stands [OF tr, of 1000] tr sample_dispatched by (auto simp: REPLIES_AGE_def)
qed

section \<open>Rechecks\<close>

lemma rechecks_bounded:
  "0 < pause \<Longrightarrow> deadline - now \<le> pause * (2 ^ n - 1) \<Longrightarrow>
   length (rechecks took deadline now pause) \<le> n \<and>
   (\<forall>t \<in> set (rechecks took deadline now pause). now < t \<and> t \<le> deadline)"
proof (induction n arbitrary: now pause)
  case 0
  then show ?case by (simp add: rechecks.simps)
next
  case (Suc n)
  show ?case
  proof (cases "now < deadline")
    case False
    then show ?thesis by (simp add: rechecks.simps)
  next
    case True
    define t where "t = min (now + pause) deadline"
    have "deadline - (t + int (took t)) \<le> pause * 2 * (2 ^ n - 1)"
    proof -
      have "0 \<le> pause * 2 * (2 ^ n - 1)" using Suc.prems(1) by simp
      moreover have "deadline - (now + pause) \<le> pause * 2 * (2 ^ n - 1)"
        using Suc.prems(2) by (simp add: algebra_simps)
      ultimately show ?thesis by (auto simp: t_def min_def)
    qed
    then have IH: "length (rechecks took deadline (t + int (took t)) (pause * 2)) \<le> n \<and>
        (\<forall>u \<in> set (rechecks took deadline (t + int (took t)) (pause * 2)). t + int (took t) < u \<and> u \<le> deadline)"
      using Suc.prems by (intro Suc.IH) auto
    have "now < t" "t \<le> deadline" using True Suc.prems by (auto simp: t_def)
    moreover have "rechecks took deadline now pause = t # rechecks took deadline (t + int (took t)) (pause * 2)"
      using True Suc.prems by (subst rechecks.simps) (simp add: t_def Let_def)
    ultimately show ?thesis using IH by fastforce
  qed
qed



end
