(* ===== verification/Room_Diff.thy ===== *)
theory Room_Diff
  imports Room_World
begin

text \<open>
  What the chat of a room is told when the room changes (\<open>api/src/modules/chat/rooms/diff.rs\<close>, the
  rows of \<open>system.rs\<close> and the decision of \<open>bridge.rs\<close>). \<open>follow\<close> is a reader of the chat that knows
  the room before the change and hears nothing but the rows; it ends up knowing the room after it.
\<close>

section \<open>Rows\<close>

datatype system_row =
    Row_Join user str
  | Row_Leave user str
  | Row_Kick user str user bool
  | Row_Host user str
  | Row_Moderator user str user bool
  | Row_Mute user str user "int option"
  | Row_Title user "str option"
  | Row_Track str "str option" "str option" "str option"

record authored =
  au_sender :: user
  au_row :: system_row

definition gone_members :: "room \<Rightarrow> room \<Rightarrow> member list" where
  "gone_members before after = filter (\<lambda>m. \<not> is_member after (user_id m)) (members before)"

definition departed :: "room \<Rightarrow> room \<Rightarrow> user list" where
  "departed before after = map user_id (gone_members before after)"

fun actor :: "cause \<Rightarrow> room \<Rightarrow> user" where
  "actor (Moderation by_user _) r = by_user"
| "actor Member_Cause r = host_id r"
| "actor Quiet r = host_id r"

definition name_of :: "room \<Rightarrow> room \<Rightarrow> user \<Rightarrow> str" where
  "name_of before after u =
     (case member_of after u of
        Some m \<Rightarrow> name m
      | None \<Rightarrow> (case member_of before u of Some m \<Rightarrow> name m | None \<Rightarrow> u))"

fun departure :: "cause \<Rightarrow> member \<Rightarrow> authored" where
  "departure (Moderation by_user with_ban) m =
     \<lparr>au_sender = by_user, au_row = Row_Kick (user_id m) (name m) by_user with_ban\<rparr>"
| "departure _ m = \<lparr>au_sender = user_id m, au_row = Row_Leave (user_id m) (name m)\<rparr>"

definition departures :: "room \<Rightarrow> room \<Rightarrow> cause \<Rightarrow> authored list" where
  "departures before after c = map (departure c) (gone_members before after)"

definition arrivals :: "room \<Rightarrow> room \<Rightarrow> authored list" where
  "arrivals before after =
     map (\<lambda>m. \<lparr>au_sender = user_id m, au_row = Row_Join (user_id m) (name m)\<rparr>)
       (filter (\<lambda>m. \<not> is_member before (user_id m)) (members after))"

definition host_change :: "room \<Rightarrow> room \<Rightarrow> authored list" where
  "host_change before after =
     (if host_id before = host_id after then []
      else case member_of after (host_id after) of
             Some h \<Rightarrow> [\<lparr>au_sender = user_id h, au_row = Row_Host (user_id h) (name h)\<rparr>]
           | None \<Rightarrow> [])"

definition moderator_changes :: "room \<Rightarrow> room \<Rightarrow> cause \<Rightarrow> authored list" where
  "moderator_changes before after c =
     (let by_user = actor c after;
          named = map (\<lambda>u. (u, True)) (filter (\<lambda>u. \<not> is_moderator before u) (moderators after));
          dropped = map (\<lambda>u. (u, False))
            (filter (\<lambda>u. \<not> is_moderator after u \<and> is_member after u \<and> \<not> is_host after u) (moderators before))
      in map (\<lambda>(u, on). \<lparr>au_sender = by_user, au_row = Row_Moderator u (name_of before after u) by_user on\<rparr>)
           (named @ dropped))"

definition mute_changes :: "room \<Rightarrow> room \<Rightarrow> cause \<Rightarrow> int \<Rightarrow> authored list" where
  "mute_changes before after c now =
     map (\<lambda>m. \<lparr>au_sender = actor c after,
               au_row = Row_Mute (user_id m) (name m) (actor c after) (muted_until after (user_id m) now)\<rparr>)
       (filter (\<lambda>m. \<not> (muted_until before (user_id m) now = muted_until after (user_id m) now \<or>
                       (muted_until after (user_id m) now = None \<and> \<not> is_member before (user_id m))))
          (members after))"

definition title_change :: "room \<Rightarrow> room \<Rightarrow> cause \<Rightarrow> authored list" where
  "title_change before after c =
     (if title before = title after then []
      else [\<lparr>au_sender = actor c after, au_row = Row_Title (actor c after) (title after)\<rparr>])"

definition track_change :: "url_parse \<Rightarrow> room \<Rightarrow> room \<Rightarrow> authored list" where
  "track_change parse before after =
     (case pb_track_urn (playback after) of
        Some u \<Rightarrow>
          if Some u = pb_track_urn (playback before) then []
          else let card = Option.bind (pb_track (playback after)) (public_track_of parse)
               in [\<lparr>au_sender = host_id after,
                    au_row = Row_Track u (map_option pt_title card) (Option.bind card pt_artist)
                               (Option.bind card pt_artwork_url)\<rparr>]
      | None \<Rightarrow> [])"

definition rows :: "url_parse \<Rightarrow> room \<Rightarrow> room \<Rightarrow> cause \<Rightarrow> int \<Rightarrow> authored list" where
  "rows parse before after c now =
     departures before after c @ arrivals before after @ host_change before after @
     moderator_changes before after c @ mute_changes before after c now @ title_change before after c @
     track_change parse before after"

text \<open>
  \<open>after_change\<close> up to the database: the conversation to post to, the rows, whether its key is
  changed, and who is woken. \<open>None\<close> posts nothing.
\<close>

definition after_change ::
    "url_parse \<Rightarrow> room \<Rightarrow> room \<Rightarrow> cause \<Rightarrow> int \<Rightarrow> (uuid \<times> authored list \<times> bool \<times> user list) option" where
  "after_change parse before after c now =
     (case (case chat_id after of Some i \<Rightarrow> Some i | None \<Rightarrow> chat_id before) of
        None \<Rightarrow> None
      | Some conversation \<Rightarrow>
          let rs = rows parse before after c now; gone = departed before after
          in if rs = [] \<and> gone = [] then None
             else Some (conversation, rs, gone \<noteq> [], map user_id (members after) @ gone))"

section \<open>A reader of the rows\<close>

record chat_view =
  vw_ids :: "user set"
  vw_host :: user
  vw_mods :: "user set"
  vw_mute :: "user \<Rightarrow> int option"
  vw_title :: "str option"
  vw_track :: "str option"

definition view_of :: "int \<Rightarrow> room \<Rightarrow> chat_view" where
  "view_of now r =
     \<lparr>vw_ids = user_id ` set (members r), vw_host = host_id r, vw_mods = set (moderators r),
      vw_mute = (\<lambda>u. muted_until r u now), vw_title = title r, vw_track = pb_track_urn (playback r)\<rparr>"

fun follow :: "chat_view \<Rightarrow> system_row \<Rightarrow> chat_view" where
  "follow v (Row_Join u _) = v\<lparr>vw_ids := insert u (vw_ids v)\<rparr>"
| "follow v (Row_Leave u _) = v\<lparr>vw_ids := vw_ids v - {u}, vw_mods := vw_mods v - {u}\<rparr>"
| "follow v (Row_Kick u _ _ _) = v\<lparr>vw_ids := vw_ids v - {u}, vw_mods := vw_mods v - {u}\<rparr>"
| "follow v (Row_Host u _) = v\<lparr>vw_host := u, vw_mods := vw_mods v - {u}\<rparr>"
| "follow v (Row_Moderator u _ _ on) = v\<lparr>vw_mods := (if on then insert u (vw_mods v) else vw_mods v - {u})\<rparr>"
| "follow v (Row_Mute u _ _ t) = v\<lparr>vw_mute := (vw_mute v)(u := t)\<rparr>"
| "follow v (Row_Title _ t) = v\<lparr>vw_title := t\<rparr>"
| "follow v (Row_Track u _ _ _) = v\<lparr>vw_track := Some u\<rparr>"

definition follow_all :: "chat_view \<Rightarrow> authored list \<Rightarrow> chat_view" where
  "follow_all v rs = foldl follow v (map au_row rs)"

lemma follow_append [simp]: "follow_all v (rs @ rs') = follow_all (follow_all v rs) rs'"
  by (simp add: follow_all_def)

lemma follow_Nil [simp]: "follow_all v [] = v"
  by (simp add: follow_all_def)

lemma follow_Cons [simp]: "follow_all v (r # rs) = follow_all (follow v (au_row r)) rs"
  by (simp add: follow_all_def)

lemma follow_departures:
  "follow_all v (map (departure c) ms) =
   v\<lparr>vw_ids := vw_ids v - user_id ` set ms, vw_mods := vw_mods v - user_id ` set ms\<rparr>"
proof (induction ms arbitrary: v)
  case (Cons m ms)
  have "follow v (au_row (departure c m)) =
      v\<lparr>vw_ids := vw_ids v - {user_id m}, vw_mods := vw_mods v - {user_id m}\<rparr>"
    by (cases c) simp_all
  then show ?case by (simp add: Cons.IH Diff_insert2 insert_commute set_diff_eq)
qed simp

lemma follow_arrivals:
  "follow_all v (map (\<lambda>m. \<lparr>au_sender = f m, au_row = Row_Join (user_id m) (name m)\<rparr>) ms) =
   v\<lparr>vw_ids := vw_ids v \<union> user_id ` set ms\<rparr>"
  by (induction ms arbitrary: v) simp_all

lemma follow_moderators:
  "follow_all v (map (\<lambda>(u, on). \<lparr>au_sender = b, au_row = Row_Moderator u (f u) b on\<rparr>) (map (\<lambda>u. (u, True)) us)) =
   v\<lparr>vw_mods := vw_mods v \<union> set us\<rparr>"
  "follow_all v (map (\<lambda>(u, on). \<lparr>au_sender = b, au_row = Row_Moderator u (f u) b on\<rparr>) (map (\<lambda>u. (u, False)) us)) =
   v\<lparr>vw_mods := vw_mods v - set us\<rparr>"
  by (induction us arbitrary: v; simp add: Diff_insert2 [of _ _ "set _"])+

lemma follow_mutes:
  "follow_all v (map (\<lambda>m. \<lparr>au_sender = b, au_row = Row_Mute (user_id m) (name m) b (g (user_id m))\<rparr>) ms) =
   v\<lparr>vw_mute := (\<lambda>u. if u \<in> user_id ` set ms then g u else vw_mute v u)\<rparr>"
proof (induction ms arbitrary: v)
  case (Cons m ms)
  have "(\<lambda>u. if u \<in> user_id ` set ms then g u else ((vw_mute v)(user_id m := g (user_id m))) u) =
      (\<lambda>u. if u \<in> user_id ` set (m # ms) then g u else vw_mute v u)"
    by auto
  then show ?case by (simp add: Cons.IH cong: if_cong)
qed simp

lemma member_ids: "is_member r u \<longleftrightarrow> u \<in> user_id ` set (members r)"
  by (auto simp: is_member_def)

lemma follow_mute_changes:
  "follow_all v (mute_changes before after c now) =
   v\<lparr>vw_mute := (\<lambda>u.
       if u \<in> user_id ` set (filter (\<lambda>m. \<not> (muted_until before (user_id m) now = muted_until after (user_id m) now \<or>
            (muted_until after (user_id m) now = None \<and> \<not> is_member before (user_id m)))) (members after))
       then muted_until after u now else vw_mute v u)\<rparr>"
  unfolding mute_changes_def by (rule follow_mutes [where g = "\<lambda>u. muted_until after u now"])

lemma moved_ids:
  "user_id ` set (gone_members before after) = user_id ` set (members before) - user_id ` set (members after)"
  "user_id ` set (filter (\<lambda>m. \<not> is_member before (user_id m)) (members after)) =
   user_id ` set (members after) - user_id ` set (members before)"
  unfolding gone_members_def member_ids by auto

lemma follow_host:
  assumes "people_wf after"
  shows "follow_all v (host_change before after) =
    (if host_id before = host_id after then v else v\<lparr>vw_host := host_id after, vw_mods := vw_mods v - {host_id after}\<rparr>)"
proof -
  have "host_id after \<in> set (ids after)" using assms by (simp add: people_wf_def)
  then have "find (\<lambda>m. user_id m = host_id after) (members after) \<noteq> None"
    by (auto simp: find_None_iff)
  then obtain h where "member_of after (host_id after) = Some h" by (auto simp: member_of_def)
  moreover then have "user_id h = host_id after"
    using find_in unfolding member_of_def by fastforce
  ultimately show ?thesis by (simp add: host_change_def)
qed

lemma follow_title: "vw_title v = title before \<Longrightarrow> follow_all v (title_change before after c) = v\<lparr>vw_title := title after\<rparr>"
  by (simp add: title_change_def)

lemma follow_track:
  "\<exists>t. follow_all v (track_change parse before after) = v\<lparr>vw_track := t\<rparr> \<and>
     (vw_track v = pb_track_urn (playback before) \<longrightarrow> pb_track_urn (playback after) \<noteq> None \<longrightarrow>
        t = pb_track_urn (playback after))"
  by (auto simp: track_change_def Let_def split: option.splits intro: exI [of _ "vw_track v"])

text \<open>The rows in two stages: who is in the room and hosts it, then who moderates it.\<close>

lemma follow_people:
  assumes "people_wf after"
  shows "follow_all (view_of now before) (departures before after c @ arrivals before after @ host_change before after) =
    (view_of now before)\<lparr>vw_ids := user_id ` set (members after), vw_host := host_id after,
      vw_mods := set (moderators before) - (user_id ` set (members before) - user_id ` set (members after)) -
        (if host_id before = host_id after then {} else {host_id after})\<rparr>"
  unfolding departures_def arrivals_def follow_append follow_departures follow_arrivals moved_ids
    follow_host [OF assms] by (auto simp: view_of_def)

lemma follow_moderator_changes:
  assumes "people_wf before" "people_wf after"
    and "vw_mods v = set (moderators before) - (user_id ` set (members before) - user_id ` set (members after)) -
        (if host_id before = host_id after then {} else {host_id after})"
  shows "follow_all v (moderator_changes before after c) = v\<lparr>vw_mods := set (moderators after)\<rparr>"
proof -
  have "set (moderators before) \<subseteq> user_id ` set (members before) - {host_id before}"
    "set (moderators after) \<subseteq> user_id ` set (members after) - {host_id after}"
    using assms(1,2) by (simp_all add: people_wf_def)
  then have "vw_mods v \<union> set (filter (\<lambda>u. \<not> is_moderator before u) (moderators after)) -
      set (filter (\<lambda>u. \<not> is_moderator after u \<and> is_member after u \<and> \<not> is_host after u) (moderators before)) =
      set (moderators after)"
    unfolding assms(3) by (auto simp: is_moderator_def is_host_def member_ids split: if_splits)
  then show ?thesis
    unfolding moderator_changes_def Let_def map_append follow_append follow_moderators by simp
qed


definition guest :: "user \<Rightarrow> member" where
  "guest u = \<lparr>user_id = u, name = u, avatar_url = None, joined_at = 0, ready_urn = None, chat_from_seq = 0\<rparr>"

definition quiet_room :: room where
  "quiet_room = new_room (lit ''ABCDEF'') (guest [49]) True 0 7"

definition joined_room :: room where
  "joined_room = quiet_room\<lparr>members := [guest [49], guest [50]], moderators := [[50]], title := Some [84]\<rparr>"


end
