(* ===== verification/Log_Scrub.thy ===== *)
theory Log_Scrub
  imports Rust_Str
begin

text \<open>
  \<open>utils/redact/src/lib.rs\<close> and \<open>scrub.rs\<close>: what every service takes out of a line before it is
  logged. A line is cut into words; the value of a secret key, the word after an authorisation
  scheme, credentials and queries of addresses and values that look like tokens are masked.

  A slice of a string at an offset inside a character panics; \<open>None\<close> is that panic. The class
  \<open>char::is_alphanumeric\<close> of all Unicode characters is the argument \<open>alnum\<close>.
\<close>

section \<open>Words that are secret\<close>

definition MASK :: str where "MASK = lit ''[redacted]''"

definition SECRET_WORDS :: "str list" where
  "SECRET_WORDS = map lit [''token'', ''secret'', ''passw'', ''key'', ''auth'', ''session'', ''client_id'',
     ''credential'', ''cookie'', ''signature'']"

definition secret_key :: "str \<Rightarrow> bool" where
  "secret_key key \<longleftrightarrow> (\<exists>w \<in> set SECRET_WORDS. contains_text (map to_ascii_lowercase key) w)"

definition is_wrapper :: "rchar \<Rightarrow> bool" where
  "is_wrapper c \<longleftrightarrow> c \<in> set (lit ''()<>[]{},;.'') \<or> c = 34 \<or> c = 39"

definition is_gap :: "rchar \<Rightarrow> bool" where
  "is_gap c \<longleftrightarrow> is_whitespace c \<or> c = 44"

definition share_token :: "str \<Rightarrow> bool" where
  "share_token segment \<longleftrightarrow>
     3 < str_len segment \<and> starts_with segment (lit ''s-'') \<and> list_all is_ascii_alphanumeric (drop 2 segment)"

definition is_uuid :: "str \<Rightarrow> bool" where
  "is_uuid word \<longleftrightarrow> str_len word = 36 \<and>
     list_all (\<lambda>(i, c). if i \<in> {8, 13, 18, 23} then c = 45 else is_ascii_hexdigit c) (enumerate 0 word)"

definition secret_shaped :: "str \<Rightarrow> bool" where
  "secret_shaped word \<longleftrightarrow>
     starts_with word (lit ''eyJ'') \<and> 46 \<in> set word \<and> 20 < str_len word \<or>
     \<not> (str_len word < 24 \<or> is_uuid word) \<and>
     list_all (\<lambda>c. is_ascii_alphanumeric c \<or> c = 45) word \<and>
     list_ex is_ascii_digit word \<and> list_ex is_ascii_alphabetic word"

section \<open>Addresses\<close>

text \<open>
  \<open>rfind\<close> gives the offset of the character before the scheme and the code adds one byte to it:
  past a character of more bytes this is no boundary.
\<close>

definition is_closer :: "rchar \<Rightarrow> bool" where
  "is_closer c \<longleftrightarrow> c \<in> set (lit '')<>}]'') \<or> c = 34 \<or> c = 39"

definition path_text :: "str \<Rightarrow> str" where
  "path_text path =
     join_with [47] (map (\<lambda>s. if secret_shaped s \<or> share_token s then MASK else s) (split_at 47 path))"

definition url_text :: "str \<Rightarrow> nat \<Rightarrow> str option" where
  "url_text core scheme_end =
     (let front = take scheme_end core;
          prefix = rev (dropWhile is_ascii_alphanumeric (rev front));
          scheme = drop (length prefix) front;
          after = drop (scheme_end + 3) core;
          rest = takeWhile (\<lambda>c. \<not> is_closer c) after;
          suffix = dropWhile (\<lambda>c. \<not> is_closer c) after;
          location = takeWhile (\<lambda>c. c \<noteq> 63 \<and> c \<noteq> 35) rest;
          authority = takeWhile (\<lambda>c. c \<noteq> 47) location;
          path = dropWhile (\<lambda>c. c \<noteq> 47) location;
          host = last (split_at 64 authority)
      in if prefix \<noteq> [] \<and> utf8_len (last prefix) \<noteq> 1 then None
         else Some (prefix @ scheme @ lit ''://'' @ host @ path_text path @ suffix))"

section \<open>Words\<close>

definition scheme_word :: "str \<Rightarrow> bool" where
  "scheme_word core \<longleftrightarrow>
     map to_ascii_lowercase core \<in> {lit ''bearer'', lit ''oauth'', lit ''basic''}"

definition key_name_of :: "(rchar \<Rightarrow> bool) \<Rightarrow> str \<Rightarrow> str" where
  "key_name_of alnum key =
     (let trimmed = dropWhile (\<lambda>c. \<not> alnum c \<and> c \<noteq> 95) key
      in rev (dropWhile (\<lambda>c. \<not> alnum c \<and> c \<noteq> 95) (rev trimmed)))"

definition kept_key :: "str \<Rightarrow> bool" where
  "kept_key key_name \<longleftrightarrow>
     ends_with key_name (lit ''request_id'') \<or> ends_with key_name (lit ''trace_id'') \<or>
     key_name = lit ''oauth_app_id''"

lemma core_shorter: "length (rev (dropWhile is_wrapper (rev (dropWhile is_wrapper word)))) \<le> length word"
  by (metis length_dropWhile_le length_rev order_trans)

lemma value_shorter: "dropWhile P core = separator # value \<Longrightarrow> length value < length core"
  by (metis Suc_le_eq length_Cons length_dropWhile_le)

text \<open>\<open>hide_next\<close> goes in and comes out beside the text.\<close>

function (sequential)
      word_text :: "(rchar \<Rightarrow> bool) \<Rightarrow> str \<Rightarrow> bool \<Rightarrow> (str \<times> bool) option"
  and core_text :: "(rchar \<Rightarrow> bool) \<Rightarrow> str \<Rightarrow> bool \<Rightarrow> (str \<times> bool) option" where
  "word_text alnum word hide_next =
     (let head = takeWhile is_wrapper word;
          core = rev (dropWhile is_wrapper (rev (dropWhile is_wrapper word)));
          tail = drop (length head + length core) word
      in map_option (\<lambda>(out, h). (head @ out @ tail, h)) (core_text alnum core hide_next))"
| "core_text alnum core hide_next =
     (if core = [] then Some ([], hide_next)
      else if scheme_word core then Some (core, True)
      else if hide_next then Some (MASK, False)
      else case split_text (lit ''://'') core of
        Some (front, _) \<Rightarrow> map_option (\<lambda>out. (out, False)) (url_text core (length front))
      | None \<Rightarrow>
          (case dropWhile (\<lambda>c. c \<noteq> 61 \<and> c \<noteq> 58) core of
             separator # value \<Rightarrow>
               let key = takeWhile (\<lambda>c. c \<noteq> 61 \<and> c \<noteq> 58) core; key_name = key_name_of alnum key
               in if kept_key key_name then Some (core, False)
                  else if secret_key key_name then
                    if value = [] then Some (core, True)
                    else Some (key @ separator # takeWhile is_wrapper value @ MASK, False)
                  else if starts_with value [58] then Some (core, False)
                  else map_option (\<lambda>(out, h). (key @ separator # out, h)) (word_text alnum value False)
           | [] \<Rightarrow> Some (if secret_shaped core then MASK else core, False)))"
  by pat_completeness auto
termination
  by (relation "measure (case_sum (\<lambda>(_, w, _). 2 * length w + 1) (\<lambda>(_, c, _). 2 * length c))")
     (auto simp: less_Suc_eq_le core_shorter simp del: length_rev dest!: value_shorter)

declare word_text.simps [simp del] core_text.simps [simp del]

section \<open>Lines\<close>

definition URI_NOTE :: str where "URI_NOTE = lit '' for uri (''"

definition strip_uri_note :: "str \<Rightarrow> str" where
  "strip_uri_note input =
     (case split_text URI_NOTE input of
        None \<Rightarrow> input
      | Some (front, after) \<Rightarrow>
          (case split_once 41 after of Some (_, rest) \<Rightarrow> front @ rest | None \<Rightarrow> front))"

lemma line_shorter:
  "rest \<noteq> [] \<Longrightarrow> length (dropWhile is_gap (dropWhile (\<lambda>c. \<not> is_gap c) rest)) < length rest"
proof (cases rest)
  case (Cons c cs)
  have "length (dropWhile is_gap (dropWhile (\<lambda>c. \<not> is_gap c) xs)) \<le> length xs" for xs
    by (meson length_dropWhile_le order_trans)
  then show ?thesis using Cons by (auto simp: less_Suc_eq_le length_dropWhile_le)
qed simp

function scrub_words :: "(rchar \<Rightarrow> bool) \<Rightarrow> bool \<Rightarrow> str \<Rightarrow> (str \<times> bool) option" where
  "scrub_words alnum hide_next rest =
     (if rest = [] then Some ([], hide_next)
      else
        let word = takeWhile (\<lambda>c. \<not> is_gap c) rest; tail = dropWhile (\<lambda>c. \<not> is_gap c) rest;
            gap = takeWhile is_gap tail
        in case word_text alnum word hide_next of
             None \<Rightarrow> None
           | Some (out, h) \<Rightarrow>
               map_option (\<lambda>(more, h'). (out @ gap @ more, h')) (scrub_words alnum h (dropWhile is_gap tail)))"
  by pat_completeness auto
termination
  by (relation "measure (\<lambda>(_, _, rest). length rest)") (simp_all add: line_shorter)

declare scrub_words.simps [simp del]

definition scrub_text :: "(rchar \<Rightarrow> bool) \<Rightarrow> str \<Rightarrow> str option" where
  "scrub_text alnum input =
     (if str_len input < 16 \<and> \<not> (\<exists>c \<in> {58, 61, 47, 63, 32, 44}. c \<in> set input) then Some input
      else map_option fst (scrub_words alnum False (strip_uri_note input)))"

text \<open>\<open>redact::url\<close>: the connection strings the services print when they start.\<close>

definition redact_url :: "str \<Rightarrow> str" where
  "redact_url connection_string =
     (case split_text (lit ''://'') connection_string of
        None \<Rightarrow> connection_string
      | Some (scheme, rest) \<Rightarrow>
          (case split_once 64 rest of
             None \<Rightarrow> connection_string
           | Some (userinfo, tail) \<Rightarrow>
               scheme @ lit ''://'' @ (case split_once 58 userinfo of Some (user, _) \<Rightarrow> user | None \<Rightarrow> userinfo) @
               lit '':***@'' @ tail))"

end
