(* ===== verification/Scrub_Rules.thy ===== *)
theory Scrub_Rules
  imports Log_Scrub
begin

text \<open>
  What the scrubbing of log lines promises: the line that is written does not depend on a secret, be
  it the value of a secret key, the token after an authorisation scheme, or the credentials and the
  query of an address; and a line of ASCII characters is always written.
\<close>

section \<open>Lines as sequences of words\<close>

lemma word_text_Nil [simp]: "word_text alnum [] h = Some ([], h)"
  by (simp add: word_text.simps core_text.simps Let_def)

lemma scrub_Nil [simp]: "scrub_words alnum h [] = Some ([], h)"
  by (simp add: scrub_words.simps)

lemma scrub_gap:
  "scrub_words alnum h b =
   map_option (\<lambda>(m, h'). (takeWhile is_gap b @ m, h')) (scrub_words alnum h (dropWhile is_gap b))"
proof (cases "b \<noteq> [] \<and> is_gap (hd b)")
  case True
  then obtain c cs where "b = c # cs" "is_gap c" by (cases b) auto
  then show ?thesis by (subst scrub_words.simps) (simp add: Let_def)
next
  case False
  then have "takeWhile is_gap b = []" "dropWhile is_gap b = b" by (cases b; auto)+
  then show ?thesis by (simp add: case_prod_unfold option.map_ident)
qed

lemma scrub_word:
  assumes "\<forall>c \<in> set w. \<not> is_gap c"
  shows "scrub_words alnum h w = word_text alnum w h"
proof -
  have w: "takeWhile (\<lambda>c. \<not> is_gap c) w = w" "dropWhile (\<lambda>c. \<not> is_gap c) w = []"
    using assms by auto
  show ?thesis by (subst scrub_words.simps) (simp add: Let_def w split: option.splits)
qed

lemma scrub_gaps:
  assumes "\<forall>c \<in> set g. is_gap c"
  shows "scrub_words alnum h (g @ b) = map_option (\<lambda>(m, h'). (g @ m, h')) (scrub_words alnum h b)"
proof -
  have "takeWhile is_gap (g @ b) = g @ takeWhile is_gap b" "dropWhile is_gap (g @ b) = dropWhile is_gap b"
    using assms by auto
  then show ?thesis
    using scrub_gap [of alnum h "g @ b"] scrub_gap [of alnum h b]
    by (simp add: option.map_comp comp_def case_prod_unfold)
qed

lemma scrub_append:
  assumes "a = [] \<or> b = [] \<or> is_gap (last a) \<or> is_gap (hd b)"
  shows "scrub_words alnum h (a @ b) =
    (case scrub_words alnum h a of
       None \<Rightarrow> None
     | Some (out, h1) \<Rightarrow> map_option (\<lambda>(more, h2). (out @ more, h2)) (scrub_words alnum h1 b))"
  using assms
proof (induction alnum h a rule: scrub_words.induct)
  case (1 alnum h a)
  define word where "word = takeWhile (\<lambda>c. \<not> is_gap c) a"
  define tail where "tail = dropWhile (\<lambda>c. \<not> is_gap c) a"
  define rest where "rest = dropWhile is_gap tail"
  have a: "a = word @ tail" and tail: "tail = takeWhile is_gap tail @ rest"
    by (simp_all add: word_def tail_def rest_def)
  have word: "\<forall>c \<in> set word. \<not> is_gap c" unfolding word_def by (auto dest: set_takeWhileD)
  have hd_tail: "tail \<noteq> [] \<Longrightarrow> is_gap (hd tail)"
    using hd_dropWhile [of "\<lambda>c. \<not> is_gap c" a] by (simp add: tail_def)
  show ?case
  proof (cases "a = []")
    case True
    then show ?thesis by (simp add: case_prod_unfold option.map_ident)
  next
    case ne: False
    have last_a: "rest \<noteq> [] \<Longrightarrow> last a = last rest"
      by (subst a, subst tail) simp
    have unf_a: "scrub_words alnum h a = (case word_text alnum word h of None \<Rightarrow> None | Some (out, h1) \<Rightarrow>
        map_option (\<lambda>(more, h2). (out @ takeWhile is_gap tail @ more, h2)) (scrub_words alnum h1 rest))"
      unfolding rest_def tail_def word_def using ne by (subst scrub_words.simps) (simp add: Let_def)
    have unf_ab: "scrub_words alnum h (a @ b) = (case word_text alnum word h of None \<Rightarrow> None | Some (out, h1) \<Rightarrow>
        map_option (\<lambda>(more, h2). (out @ more, h2)) (scrub_words alnum h1 (tail @ b)))"
    proof -
      have "tail = [] \<Longrightarrow> b = [] \<or> is_gap (hd b)"
        using "1.prems" ne a word by (auto simp: last_in_set)
      then have "takeWhile (\<lambda>c. \<not> is_gap c) (a @ b) = word" "dropWhile (\<lambda>c. \<not> is_gap c) (a @ b) = tail @ b"
        using word hd_tail by (cases tail; cases b; simp add: a)+
      then show ?thesis
        using ne scrub_gap [of alnum _ "tail @ b"]
        by (subst scrub_words.simps) (auto simp: Let_def option.map_comp comp_def case_prod_unfold split: option.splits)
    qed
    show ?thesis
    proof (cases "word_text alnum word h")
      case None
      then show ?thesis by (simp add: unf_a unf_ab)
    next
      case (Some oh)
      obtain out h1 where oh: "oh = (out, h1)" by (cases oh)
      have "scrub_words alnum h1 (tail @ b) =
          map_option (\<lambda>(m, h'). (takeWhile is_gap tail @ m, h')) (scrub_words alnum h1 (rest @ b))"
        using scrub_gaps [of "takeWhile is_gap tail" alnum h1 "rest @ b"] tail
        by (metis append.assoc set_takeWhileD)
      moreover have "scrub_words alnum h1 (rest @ b) = (case scrub_words alnum h1 rest of None \<Rightarrow> None
         | Some (out, h1) \<Rightarrow> map_option (\<lambda>(more, h2). (out @ more, h2)) (scrub_words alnum h1 b))"
      proof (rule "1.IH" [OF ne word_def tail_def refl, unfolded rest_def [symmetric]])
        show "word_text alnum word h = Some oh" "(out, h1) = oh" using Some oh by simp_all
        show "rest = [] \<or> b = [] \<or> is_gap (last rest) \<or> is_gap (hd b)"
          using "1.prems" ne by (cases "rest = []") (simp_all add: last_a)
      qed
      ultimately show ?thesis
        by (cases "scrub_words alnum h1 rest")
           (simp_all add: unf_a unf_ab Some oh option.map_comp comp_def case_prod_unfold)
    qed
  qed
qed

section \<open>A part of a line that an address note cannot overlap\<close>

lemma note_simps [simp]: "URI_NOTE \<noteq> []" "hd URI_NOTE = 32" "last URI_NOTE = 40"
  by (simp_all add: URI_NOTE_def lit_def)

lemma set_note: "set URI_NOTE = {32, 102, 111, 114, 117, 105, 40}"
  by (auto simp: URI_NOTE_def lit_def)

definition passes_note :: "str \<Rightarrow> bool" where
  "passes_note mid \<longleftrightarrow> 41 \<notin> set mid \<and>
     (\<exists>k c k'. mid = k @ c # k' \<and> c \<notin> set URI_NOTE \<and> 40 \<notin> set k \<and>
        (\<forall>y. split_text URI_NOTE (k' @ y) = map_option (\<lambda>(p, r). (k' @ p, r)) (split_text URI_NOTE y)))"

lemma passes_note_intro:
  assumes "c \<notin> set URI_NOTE" "40 \<notin> set k" "41 \<notin> set (k @ c # k')"
    and "\<And>y. split_text URI_NOTE (k' @ y) = map_option (\<lambda>(p, r). (k' @ p, r)) (split_text URI_NOTE y)"
  shows "passes_note (k @ c # k')"
  unfolding passes_note_def using assms by blast

lemma passes_noteI:
  assumes "c \<notin> set URI_NOTE" "40 \<notin> set k" "41 \<notin> set (k @ c # k')" "32 \<notin> set k'"
  shows "passes_note (k @ c # k')"
  using assms by (intro passes_note_intro split_text_skip) simp_all

lemma note_around:
  assumes "passes_note mid"
  shows "split_text URI_NOTE (a @ mid @ b) =
    (case split_text URI_NOTE a of
       Some (p, r) \<Rightarrow> Some (p, r @ mid @ b)
     | None \<Rightarrow> map_option (\<lambda>(p, r). (a @ mid @ p, r)) (split_text URI_NOTE b))"
proof -
  obtain k c k' where mid: "mid = k @ c # k'" and c: "c \<notin> set URI_NOTE" and k: "40 \<notin> set k"
    and k': "\<And>y. split_text URI_NOTE (k' @ y) = map_option (\<lambda>(p, r). (k' @ p, r)) (split_text URI_NOTE y)"
    using assms unfolding passes_note_def by blast
  have "split_text URI_NOTE ((a @ k) @ c # k' @ b) =
      (case split_text URI_NOTE (a @ k) of Some (p, r) \<Rightarrow> Some (p, r @ c # k' @ b)
       | None \<Rightarrow> map_option (\<lambda>(p, r). ((a @ k) @ c # p, r)) (split_text URI_NOTE (k' @ b)))"
    by (rule split_text_break [OF note_simps(1) c])
  moreover have "split_text URI_NOTE (a @ k) = map_option (\<lambda>(p, r). (p, r @ k)) (split_text URI_NOTE a)"
    by (rule split_text_stop) (use k in simp_all)
  ultimately show ?thesis
    by (cases "split_text URI_NOTE a"; cases "split_text URI_NOTE b") (auto simp: mid k')
qed

lemma split_once_past: "c \<notin> set x \<Longrightarrow> split_once c (x @ y) = map_option (\<lambda>(p, q). (x @ p, q)) (split_once c y)"
  by (cases "split_once c y") (auto simp: split_once_Some, auto simp: split_once_def)

lemma split_once_first: "split_once c x = Some (p, q) \<Longrightarrow> split_once c (x @ y) = Some (p, q @ y)"
  by (auto simp: split_once_Some)

lemma strip_around:
  assumes "passes_note mid"
  shows "strip_uri_note (a @ mid @ b) =
    (case split_text URI_NOTE a of
       Some (p, r) \<Rightarrow>
         (case split_once 41 r of
            Some (_, r') \<Rightarrow> p @ r' @ mid @ b
          | None \<Rightarrow> (case split_once 41 b of Some (_, b') \<Rightarrow> p @ b' | None \<Rightarrow> p))
     | None \<Rightarrow>
         (case split_text URI_NOTE b of
            Some (p, r) \<Rightarrow> a @ mid @ p @ (case split_once 41 r of Some (_, r') \<Rightarrow> r' | None \<Rightarrow> [])
          | None \<Rightarrow> a @ mid @ b))"
proof (cases "split_text URI_NOTE a")
  case None
  then show ?thesis
    by (auto simp: strip_uri_note_def note_around [OF assms] simp del: split_once_None split: option.splits)
next
  case (Some pr)
  obtain p r where pr: "pr = (p, r)" by (cases pr)
  have mid: "41 \<notin> set mid" using assms by (simp add: passes_note_def)
  have "split_once 41 (r @ mid @ b) = (case split_once 41 r of Some (q, r') \<Rightarrow> Some (q, r' @ mid @ b)
      | None \<Rightarrow> map_option (\<lambda>(q, b'). (r @ mid @ q, b')) (split_once 41 b))"
  proof (cases "split_once 41 r")
    case None
    then have "41 \<notin> set (r @ mid)" using mid by simp
    then show ?thesis using None split_once_past [of 41 "r @ mid" b] by (simp del: split_once_None)
  next
    case (Some qr)
    then show ?thesis by (cases qr) (simp add: split_once_first)
  qed
  then show ?thesis
    by (auto simp: strip_uri_note_def note_around [OF assms] Some pr simp del: split_once_None split: option.splits)
qed

section \<open>The line does not depend on a part that scrubs to the same\<close>

definition cut_before :: "str \<Rightarrow> bool" where
  "cut_before a \<longleftrightarrow> a = [] \<or> is_gap (last a)"

definition cut_after :: "str \<Rightarrow> bool" where
  "cut_after b \<longleftrightarrow> b = [] \<or> is_gap (hd b)"

lemma scrub_swap:
  assumes "cut_before a" "cut_after b" "\<And>h. scrub_words alnum h w = scrub_words alnum h w'"
  shows "scrub_words alnum h (a @ w @ b) = scrub_words alnum h (a @ w' @ b)"
proof -
  have "scrub_words alnum h (w @ b) = scrub_words alnum h (w' @ b)" for h
    using assms(2) unfolding cut_after_def
    by (subst (1 2) scrub_append) (auto simp: assms(3))
  then show ?thesis
    using assms(1) unfolding cut_before_def
    by (subst (1 2) scrub_append) (auto split: option.split)
qed

lemma scrub_text_swap:
  assumes "passes_note w" "passes_note w'" "cut_before a" "cut_after b" "\<not> starts_with b URI_NOTE"
    and same: "\<And>h. scrub_words alnum h w = scrub_words alnum h w'"
    and "{58, 61, 47, 63, 32, 44} \<inter> set w \<noteq> {}" "{58, 61, 47, 63, 32, 44} \<inter> set w' \<noteq> {}"
  shows "scrub_text alnum (a @ w @ b) = scrub_text alnum (a @ w' @ b)"
proof -
  have "scrub_words alnum False (strip_uri_note (a @ w @ b)) = scrub_words alnum False (strip_uri_note (a @ w' @ b))"
  proof (cases "split_text URI_NOTE a")
    case None
    have "cut_after (p @ r)" if "split_text URI_NOTE b = Some (p, q)" for p q r
    proof -
      have "p \<noteq> []" using split_text_Some [OF that] assms(5) by (auto simp: starts_with_iff)
      then show ?thesis using split_text_Some [OF that] assms(4) by (cases p) (auto simp: cut_after_def)
    qed
    with None show ?thesis
      by (simp add: strip_around assms(1,2) scrub_swap [OF assms(3,4) same] split: option.split prod.split)
         (metis scrub_swap [OF assms(3) _ same] append_Nil2)
  next
    case (Some pr)
    obtain p r where pr: "pr = (p, r)" by (cases pr)
    have cut: "cut_before (p @ r')" if "split_once 41 r = Some (q, r')" for q r'
    proof -
      have a: "a = p @ URI_NOTE @ q @ 41 # r'"
        using split_text_Some [of URI_NOTE a p r] Some pr that by (auto simp: split_once_Some)
      then have "last a = (if r' = [] then 41 else last r')" by simp
      then show ?thesis using assms(3) a by (auto simp: cut_before_def is_gap_def is_whitespace_def split: if_splits)
    qed
    show ?thesis
    proof (cases "split_once 41 r")
      case None
      then show ?thesis by (simp add: strip_around assms(1,2) Some pr del: split_once_None)
    next
      case (Some qr)
      then show ?thesis
        using scrub_swap [OF cut assms(4) same, of "fst qr" "snd qr"] \<open>split_text URI_NOTE a = Some pr\<close>
        by (simp add: strip_around assms(1,2) pr case_prod_unfold)
    qed
  qed
  moreover have "\<exists>c \<in> {58, 61, 47, 63, 32, 44}. c \<in> set (a @ x @ b)"
    if "{58, 61, 47, 63, 32, 44} \<inter> set x \<noteq> {}" for x
    using that unfolding set_append by blast
  ultimately show ?thesis
    using assms(7,8) unfolding scrub_text_def by presburger
qed

section \<open>Secret values\<close>

text \<open>
  A value that could be a token: no white space, commas, brackets or quotes, full stops only inside,
  none of the characters of \<open>ban\<close>.
\<close>

definition opaque :: "rchar set \<Rightarrow> str \<Rightarrow> bool" where
  "opaque ban v \<longleftrightarrow> v \<noteq> [] \<and> hd v \<noteq> 46 \<and> last v \<noteq> 46 \<and>
     (\<forall>c \<in> set v. \<not> is_gap c \<and> c \<notin> ban \<and> (is_wrapper c \<longrightarrow> c = 46))"

lemma chars_apart:
  "is_gap 32" "is_gap 44" "is_wrapper 40" "is_wrapper 41" "\<not> is_wrapper 58" "\<not> is_wrapper 61" "\<not> is_wrapper 47"
  "\<not> is_wrapper 63" "\<not> is_wrapper 64" "\<not> is_gap 58" "\<not> is_gap 61" "\<not> is_gap 47" "\<not> is_gap 63" "\<not> is_gap 64"
  by (simp_all add: is_gap_def is_whitespace_def is_wrapper_def lit_def)

lemma is_closerD: "is_closer c \<Longrightarrow> is_wrapper c \<and> c \<noteq> 46"
  by (auto simp: is_closer_def is_wrapper_def lit_def)

lemma opaqueD:
  assumes "opaque ban v"
  shows "v \<noteq> []" "\<not> is_wrapper (hd v)" "\<not> is_wrapper (last v)" "\<forall>c \<in> set v. \<not> is_gap c \<and> c \<notin> ban \<and> \<not> is_closer c"
    "32 \<notin> set v" "40 \<notin> set v" "41 \<notin> set v" "takeWhile is_wrapper v = []" "dropWhile is_wrapper v = v"
proof -
  have v: "v \<noteq> []" "hd v \<in> set v" "last v \<in> set v" using assms by (auto simp: opaque_def)
  then show "v \<noteq> []" and hd: "\<not> is_wrapper (hd v)" and "\<not> is_wrapper (last v)"
    and "\<forall>c \<in> set v. \<not> is_gap c \<and> c \<notin> ban \<and> \<not> is_closer c"
    using assms is_closerD unfolding opaque_def by blast+
  show "32 \<notin> set v" "40 \<notin> set v" "41 \<notin> set v"
    using assms chars_apart unfolding opaque_def by force+
  show "takeWhile is_wrapper v = []" "dropWhile is_wrapper v = v"
    using v(1) hd by (cases v; simp)+
qed

lemma word_text_core:
  assumes "w \<noteq> []" "\<not> is_wrapper (last w)"
  shows "word_text alnum w h =
    map_option (\<lambda>(out, h'). (takeWhile is_wrapper w @ out, h')) (core_text alnum (dropWhile is_wrapper w) h)"
proof -
  let ?core = "dropWhile is_wrapper w"
  have "?core \<noteq> []" using assms last_in_set by (auto simp: dropWhile_eq_Nil_conv)
  moreover then have "last ?core = last w" by (metis last_appendR takeWhile_dropWhile_id)
  ultimately have "dropWhile is_wrapper (rev ?core) = rev ?core"
    using assms(2) by (cases ?core rule: rev_cases) auto
  moreover have "length (takeWhile is_wrapper w) + length ?core = length w"
    by (metis length_append takeWhile_dropWhile_id)
  ultimately show ?thesis by (simp add: word_text.simps Let_def)
qed

subsection \<open>The value of a secret key\<close>

definition names_secret :: "(rchar \<Rightarrow> bool) \<Rightarrow> str \<Rightarrow> bool" where
  "names_secret alnum key \<longleftrightarrow>
     (let name = key_name_of alnum (dropWhile is_wrapper key) in secret_key name \<and> \<not> kept_key name) \<and>
     (\<forall>c \<in> set key. \<not> is_gap c \<and> c \<notin> {58, 61, 40, 41})"

lemma lower_fixed: "c < 65 \<Longrightarrow> to_ascii_lowercase c = c"
  by (simp add: to_ascii_lowercase_def is_ascii_uppercase_def)

lemma scheme_letters:
  assumes "scheme_word w" "c \<in> set w"
  shows "97 \<le> to_ascii_lowercase c \<and> to_ascii_lowercase c \<le> 122"
proof -
  have "\<forall>s \<in> {lit ''bearer'', lit ''oauth'', lit ''basic''}. \<forall>d \<in> set s. 97 \<le> d \<and> d \<le> 122"
    by (simp add: lit_def)
  then have "\<forall>d \<in> set (map to_ascii_lowercase w). 97 \<le> d \<and> d \<le> 122"
    using assms(1) unfolding scheme_word_def by (rule bspec)
  then show ?thesis using assms(2) by simp
qed

lemma no_scheme_word: "c \<in> set w \<Longrightarrow> c < 65 \<Longrightarrow> \<not> scheme_word w"
  using scheme_letters [of w c] lower_fixed [of c] by auto

lemma no_address:
  assumes "58 \<notin> set k" "opaque {58} v" "hd v \<noteq> 47" "s = 58 \<or> s = 61"
  shows "split_text (lit ''://'') (k @ s # v) = None"
proof (cases "split_text (lit ''://'') (k @ s # v)")
  case (Some xy)
  obtain x y where "xy = (x, y)" by (cases xy)
  then have eq: "k @ s # v = x @ 58 # 47 # 47 # y" using split_text_Some Some by (fastforce simp: lit_def)
  have v: "58 \<notin> set v" using opaqueD(4) [OF assms(2)] by blast
  from assms(4) show ?thesis
  proof
    assume "s = 61"
    then have "58 \<notin> set (k @ s # v)" using v assms(1) by simp
    then show ?thesis unfolding eq by simp
  next
    assume "s = 58"
    then have "split_once 58 (k @ s # v) = Some (k, v)" using assms(1) by (simp add: split_once_Some)
    moreover have "58 \<notin> set x"
      using eq v assms(1) \<open>s = 58\<close> by (auto simp: append_eq_append_conv2 append_eq_Cons_conv Cons_eq_append_conv)
    then have "split_once 58 (k @ s # v) = Some (x, 47 # 47 # y)" unfolding eq by (simp add: split_once_Some)
    ultimately show ?thesis using assms(3) by auto
  qed
qed simp

lemma secret_value:
  assumes "names_secret alnum key" "opaque {58} v" "hd v \<noteq> 47" "s = 58 \<or> s = 61"
  shows "word_text alnum (key @ s # v) h =
    Some (takeWhile is_wrapper key @ (if h then MASK else dropWhile is_wrapper key @ s # MASK), False)"
proof -
  let ?k = "dropWhile is_wrapper key"
  note v = opaqueD [OF assms(2)]
  have k: "\<forall>c \<in> set ?k. c \<noteq> 61 \<and> c \<noteq> 58" using assms(1) set_dropWhileD by (fastforce simp: names_secret_def)
  have s: "\<not> is_wrapper s" "s < 65" using assms(4) chars_apart by auto
  have "core_text alnum (?k @ s # v) h = Some (if h then MASK else ?k @ s # MASK, False)"
  proof -
    have "takeWhile (\<lambda>c. c \<noteq> 61 \<and> c \<noteq> 58) (?k @ s # v) = ?k" "dropWhile (\<lambda>c. c \<noteq> 61 \<and> c \<noteq> 58) (?k @ s # v) = s # v"
      using k assms(4) by (auto simp: takeWhile_append2 dropWhile_append2)
    moreover have "split_text (lit ''://'') (?k @ s # v) = None" using k assms(2-4) by (intro no_address) auto
    ultimately show ?thesis
      using assms(1) v(1,8) no_scheme_word [of s "?k @ s # v"] s
      by (subst core_text.simps) (simp add: names_secret_def Let_def)
  qed
  moreover have "takeWhile is_wrapper (key @ s # v) = takeWhile is_wrapper key"
    "dropWhile is_wrapper (key @ s # v) = ?k @ s # v"
    using s(1) by (induction key) simp_all
  ultimately show ?thesis using v by (subst word_text_core) simp_all
qed

lemma scrub_secret:
  assumes "names_secret alnum key" "opaque {58} v" "hd v \<noteq> 47" "s = 58 \<or> s = 61"
  shows "scrub_words alnum h (key @ s # v) =
    Some (takeWhile is_wrapper key @ (if h then MASK else dropWhile is_wrapper key @ s # MASK), False)"
proof -
  have "\<forall>c \<in> set (key @ s # v). \<not> is_gap c"
    using assms(1,4) opaqueD(4) [OF assms(2)] chars_apart by (auto simp: names_secret_def)
  then show ?thesis by (simp only: scrub_word secret_value [OF assms])
qed

subsection \<open>The word after an authorisation scheme\<close>

lemma lowered:
  assumes "97 \<le> to_ascii_lowercase c \<and> to_ascii_lowercase c \<le> 122"
  shows "\<not> is_gap c" "\<not> is_wrapper c"
  using assms
  by (auto simp: to_ascii_lowercase_def is_ascii_uppercase_def is_gap_def is_whitespace_def is_wrapper_def lit_def
      split: if_splits)

lemma scheme_kept:
  assumes "scheme_word w"
  shows "word_text alnum w h = Some (w, True)"
proof -
  have ne: "w \<noteq> []" using assms by (auto simp: scheme_word_def lit_def)
  have plain: "\<forall>c \<in> set w. \<not> is_wrapper c" using scheme_letters [OF assms] lowered(2) by blast
  then have "takeWhile is_wrapper w = []" "dropWhile is_wrapper w = w" using ne by (cases w; simp)+
  then show ?thesis
    using ne plain assms by (subst word_text_core) (simp_all add: core_text.simps)
qed

lemma scheme_middle:
  assumes "scheme_word w"
  obtains k c k' where "w = k @ c # k'" "c = 97 \<or> c = 65" 
proof -
  have "\<forall>s \<in> {lit ''bearer'', lit ''oauth'', lit ''basic''}. 97 \<in> set s"
    by (simp add: lit_def)
  then have "97 \<in> set (map to_ascii_lowercase w)" using assms unfolding scheme_word_def by (rule bspec)
  then obtain c where "c \<in> set w" "to_ascii_lowercase c = 97" by auto
  then show thesis
    using that by (auto simp: to_ascii_lowercase_def dest!: split_list split: if_splits)
qed

lemma note_skips_token:
  assumes "32 \<notin> set v" "6 < length v"
  shows "split_text URI_NOTE (32 # v @ y) = map_option (\<lambda>(p, r). (32 # v @ p, r)) (split_text URI_NOTE y)"
proof -
  have "\<not> starts_with (32 # v @ y) URI_NOTE"
  proof
    assume "starts_with (32 # v @ y) URI_NOTE"
    then have "(v @ y) ! 3 = 32" by (auto simp: starts_with_iff URI_NOTE_def lit_def)
    then show False using assms nth_mem [of 3 v] by (simp add: nth_append)
  qed
  then show ?thesis
    using split_text_skip [of URI_NOTE v y] assms(1)
    by (simp add: strip_prefix_def option.map_comp comp_def case_prod_unfold)
qed

lemma passes_note_scheme:
  assumes "scheme_word w" "opaque ban v" "6 < length v"
  shows "passes_note (w @ 32 # v)"
proof -
  obtain k c k' where w: "w = k @ c # k'" and c: "c = 97 \<or> c = 65" using scheme_middle [OF assms(1)] .
  have "\<forall>c \<in> set w. c \<notin> {32, 40, 41}"
    using scheme_letters [OF assms(1)] lower_fixed by fastforce
  then have plain: "40 \<notin> set k" "32 \<notin> set k'" "41 \<notin> set w" unfolding w by auto
  have "split_text URI_NOTE ((k' @ 32 # v) @ y) = map_option (\<lambda>(p, r). ((k' @ 32 # v) @ p, r)) (split_text URI_NOTE y)" for y
    using split_text_skip [of URI_NOTE k' "32 # v @ y"] plain note_skips_token [OF opaqueD(5) [OF assms(2)] assms(3)]
    by (simp add: option.map_comp comp_def case_prod_unfold)
  then have "passes_note (k @ c # (k' @ 32 # v))"
    using plain c opaqueD [OF assms(2)] unfolding w by (intro passes_note_intro) (auto simp: set_note)
  then show ?thesis by (simp add: w)
qed

lemma token_hidden:
  assumes "scheme_word w" "opaque ban v" "\<not> scheme_word v"
  shows "scrub_words alnum h (w @ 32 # v) = Some (w @ 32 # MASK, False)"
proof -
  note v = opaqueD [OF assms(2)]
  have "word_text alnum v True = Some (MASK, False)"
    using v assms(3) by (subst word_text_core) (simp_all add: core_text.simps)
  then have "scrub_words alnum True (32 # v) = Some (32 # MASK, False)"
    using scrub_gaps [of "[32]" alnum True v] scrub_word [of v alnum True] v(4) chars_apart by simp
  moreover have "scrub_words alnum h w = Some (w, True)"
    using scrub_word [of w] scheme_kept [OF assms(1)] scheme_letters [OF assms(1)] lowered(1) by metis
  ultimately show ?thesis using scrub_append [of w "32 # v" alnum h] chars_apart by simp
qed


lemmas scrub_eval = names_secret_def key_name_of_def kept_key_def secret_key_def SECRET_WORDS_def contains_text_def
  opaque_def is_wrapper_def is_gap_def is_whitespace_def cut_before_def cut_after_def starts_with_def ends_with_def
  URI_NOTE_def is_ascii_alphanumeric_def is_ascii_alphabetic_def is_ascii_lowercase_def is_ascii_uppercase_def
  is_ascii_digit_def to_ascii_lowercase_def scheme_word_def lit_def


section \<open>Addresses\<close>

text \<open>The word of an address whose scheme starts it.\<close>

lemma first_address: "58 \<notin> set scheme \<Longrightarrow> split_text (lit ''://'') (scheme @ lit ''://'' @ y) = Some (scheme, y)"
  using split_text_skip [of "lit ''://''" scheme "lit ''://'' @ y"]
  by (simp add: lit_def strip_prefix_def starts_with_def)

lemma address_word:
  assumes "scheme \<noteq> []" "\<forall>c \<in> set scheme. is_ascii_alphanumeric c" "y \<noteq> []" "\<not> is_wrapper (last y)"
  shows "word_text alnum (scheme @ lit ''://'' @ y) h =
    (if h then Some (MASK, False)
     else map_option (\<lambda>out. (out, False)) (url_text (scheme @ lit ''://'' @ y) (length scheme)))"
proof -
  let ?w = "scheme @ lit ''://'' @ y"
  have plain: "\<not> is_wrapper c" "c \<noteq> 58" if "is_ascii_alphanumeric c" for c
    using that by (auto simp: scrub_eval)
  have "takeWhile is_wrapper ?w = []" "dropWhile is_wrapper ?w = ?w"
    using assms(1,2) plain by (cases scheme; simp)+
  moreover have "core_text alnum ?w h = (if h then Some (MASK, False)
      else map_option (\<lambda>out. (out, False)) (url_text ?w (length scheme)))"
  proof -
    have "58 \<notin> set scheme" using assms(2) plain by blast
    moreover have "\<not> scheme_word ?w" by (rule no_scheme_word [of 58]) (simp_all add: lit_def)
    ultimately show ?thesis using assms(1) by (subst core_text.simps) (simp add: first_address)
  qed
  ultimately show ?thesis
    using assms by (subst word_text_core) (auto simp: option.map_ident case_prod_unfold split: if_splits)
qed

definition address_start :: "str \<Rightarrow> bool" where
  "address_start scheme \<longleftrightarrow> scheme \<noteq> [] \<and> (\<forall>c \<in> set scheme. is_ascii_alphanumeric c)"

lemma url_text_at:
  assumes "\<forall>c \<in> set scheme. is_ascii_alphanumeric c" "p = [] \<or> \<not> is_ascii_alphanumeric (last p)"
  shows "url_text ((p @ scheme) @ lit ''://'' @ y) (length (p @ scheme)) =
    (if p \<noteq> [] \<and> utf8_len (last p) \<noteq> 1 then None
     else let rest = takeWhile (\<lambda>c. \<not> is_closer c) y; location = takeWhile (\<lambda>c. c \<noteq> 63 \<and> c \<noteq> 35) rest
          in Some (p @ scheme @ lit ''://'' @ last (split_at 64 (takeWhile (\<lambda>c. c \<noteq> 47) location)) @
                   path_text (dropWhile (\<lambda>c. c \<noteq> 47) location) @ dropWhile (\<lambda>c. \<not> is_closer c) y))"
proof -
  have "dropWhile is_ascii_alphanumeric (rev scheme @ rev p) = dropWhile is_ascii_alphanumeric (rev p)"
    using assms(1) by (intro dropWhile_append2) simp
  also have "\<dots> = rev p" using assms(2) by (cases p rule: rev_cases) auto
  finally have "dropWhile is_ascii_alphanumeric (rev scheme @ rev p) = rev p" .
  moreover have "drop (length (p @ scheme) + 3) ((p @ scheme) @ lit ''://'' @ y) = y"
    by (simp add: lit_def)
  moreover have "take (length (p @ scheme)) ((p @ scheme) @ lit ''://'' @ y) = p @ scheme" by simp
  ultimately show ?thesis unfolding url_text_def Let_def by (simp only: rev_append rev_rev_ident) simp
qed

lemmas url_at_start = url_text_at [where p = "[]", simplified]

lemma scrub_address:
  assumes "address_start scheme" "\<forall>c \<in> set y. \<not> is_gap c \<and> c \<noteq> 41" "y \<noteq> []" "\<not> is_wrapper (last y)"
  shows "scrub_words alnum h (scheme @ lit ''://'' @ y) =
    (if h then Some (MASK, False)
     else map_option (\<lambda>out. (out, False)) (url_text (scheme @ lit ''://'' @ y) (length scheme)))"
proof -
  have "\<forall>c \<in> set scheme. \<not> is_gap c" using assms(1) by (auto simp: address_start_def scrub_eval)
  then have plain: "\<forall>c \<in> set (scheme @ lit ''://'' @ y). \<not> is_gap c"
    using assms(2) chars_apart by (auto simp: lit_def)
  show ?thesis
    unfolding scrub_word [OF plain] using assms by (intro address_word) (simp_all add: address_start_def)
qed

lemma query_cut:
  assumes "opaque ban v" "\<forall>c \<in> set loc. \<not> is_closer c \<and> c \<noteq> 63 \<and> c \<noteq> 35"
  shows "takeWhile (\<lambda>c. \<not> is_closer c) (loc @ 63 # v) = loc @ 63 # v"
    "dropWhile (\<lambda>c. \<not> is_closer c) (loc @ 63 # v) = []"
    "takeWhile (\<lambda>c. c \<noteq> 63 \<and> c \<noteq> 35) (loc @ 63 # v) = loc"
  using assms(2) opaqueD(4) [OF assms(1)] is_closerD [of 63] chars_apart(8) by auto

lemma userinfo_cut:
  assumes "opaque {47, 63, 35} v"
  shows "takeWhile (\<lambda>c. \<not> is_closer c) (v @ 64 # loc) = v @ 64 # takeWhile (\<lambda>c. \<not> is_closer c) loc"
    "dropWhile (\<lambda>c. \<not> is_closer c) (v @ 64 # loc) = dropWhile (\<lambda>c. \<not> is_closer c) loc"
    "takeWhile (\<lambda>c. c \<noteq> 63 \<and> c \<noteq> 35) (v @ 64 # x) = v @ 64 # takeWhile (\<lambda>c. c \<noteq> 63 \<and> c \<noteq> 35) x"
    "takeWhile (\<lambda>c. c \<noteq> 47) (v @ 64 # x) = v @ 64 # takeWhile (\<lambda>c. c \<noteq> 47) x"
    "dropWhile (\<lambda>c. c \<noteq> 47) (v @ 64 # x) = dropWhile (\<lambda>c. c \<noteq> 47) x"
    "last (split_at 64 (v @ 64 # x)) = last (split_at 64 x)"
  using opaqueD(4) [OF assms] is_closerD [of 64] chars_apart(9) by (auto simp: split_at_append split_at_nonempty)



section \<open>Lines that are written\<close>

lemma url_text_ascii:
  assumes "\<forall>c \<in> set core. c < 128"
  shows "url_text core n \<noteq> None"
proof -
  define prefix where "prefix = rev (dropWhile is_ascii_alphanumeric (rev (take n core)))"
  have "last prefix < 128" if "prefix \<noteq> []"
    using last_in_set [OF that] assms unfolding prefix_def by (auto dest!: set_dropWhileD in_set_takeD)
  then have "\<not> (prefix \<noteq> [] \<and> utf8_len (last prefix) \<noteq> 1)" unfolding utf8_len_def by fastforce
  then show ?thesis unfolding url_text_def Let_def prefix_def [symmetric] by simp
qed

lemma ascii_words:
  "\<forall>c \<in> set w. c < 128 \<Longrightarrow> word_text alnum w h \<noteq> None"
  "\<forall>c \<in> set k. c < 128 \<Longrightarrow> core_text alnum k h \<noteq> None"
proof (induction alnum w h and alnum k h rule: word_text_core_text.induct)
  case (1 alnum w h)
  have "\<forall>c \<in> set (rev (dropWhile is_wrapper (rev (dropWhile is_wrapper w)))). c < 128"
    using "1.prems" by (auto dest!: set_dropWhileD)
  then show ?case using "1.IH" [OF refl refl refl] by (simp add: word_text.simps Let_def)
next
  case (2 alnum k h)
  show ?case
  proof (cases "k = [] \<or> scheme_word k \<or> h \<or> split_text (lit ''://'') k \<noteq> None")
    case True
    then show ?thesis
      using url_text_ascii [OF "2.prems"] by (auto simp: core_text.simps [of alnum k h] split: option.splits)
  next
    case False
    then have k: "k \<noteq> []" "\<not> scheme_word k" "\<not> h" "split_text (lit ''://'') k = None" by blast+
    show ?thesis
    proof (cases "dropWhile (\<lambda>c. c \<noteq> 61 \<and> c \<noteq> 58) k")
      case Nil
      then show ?thesis by (subst core_text.simps) (simp add: k del: dropWhile_eq_Nil_conv)
    next
      case (Cons s v)
      have "\<forall>c \<in> set v. c < 128" using "2.prems" Cons set_dropWhileD by (metis list.set_intros(2))
      then have "word_text alnum v False \<noteq> None" if "\<not> kept_key (key_name_of alnum (takeWhile (\<lambda>c. c \<noteq> 61 \<and> c \<noteq> 58) k))"
          "\<not> secret_key (key_name_of alnum (takeWhile (\<lambda>c. c \<noteq> 61 \<and> c \<noteq> 58) k))" "\<not> starts_with v [58]"
        by (intro "2.IH" [OF k Cons refl refl that(1,2)]) (use that in simp_all)
      then show ?thesis by (subst core_text.simps) (auto simp: k Cons Let_def)
    qed
  qed
qed

lemma ascii_scrubbed: "\<forall>c \<in> set w. c < 128 \<Longrightarrow> scrub_words alnum h w \<noteq> None"
proof (induction alnum h w rule: scrub_words.induct)
  case (1 alnum h w)
  have "\<forall>c \<in> set (takeWhile (\<lambda>c. \<not> is_gap c) w). c < 128" using "1.prems" by (auto dest!: set_takeWhileD)
  then obtain out h1 where first: "word_text alnum (takeWhile (\<lambda>c. \<not> is_gap c) w) h = Some (out, h1)"
    using ascii_words(1) by fastforce
  have "\<forall>c \<in> set (dropWhile is_gap (dropWhile (\<lambda>c. \<not> is_gap c) w)). c < 128"
    using "1.prems" by (auto dest!: set_dropWhileD)
  then show ?case
    using "1.IH" [OF _ refl refl refl first refl] first by (cases "w = []") (auto simp: scrub_words.simps [of alnum h w] Let_def)
qed

text \<open>
  A line of ASCII characters is always written: scrubbing it ends and returns a line.
\<close>

theorem ascii_lines_are_written:
  assumes "\<forall>c \<in> set input. c < 128"
  shows "\<exists>out. scrub_text alnum input = Some out"
proof -
  have "set (strip_uri_note input) \<subseteq> set input"
    using split_text_Some [of URI_NOTE input]
    by (fastforce simp: strip_uri_note_def split_once_Some simp del: split_once_None split: option.splits)
  then have "scrub_words alnum False (strip_uri_note input) \<noteq> None"
    using assms by (intro ascii_scrubbed) auto
  then show ?thesis by (auto simp: scrub_text_def)
qed

theorem ascii_lines_are_written_witness:
  "\<exists>out. scrub_text is_ascii_alphanumeric (lit ''send failed for uri (https://h/p?client_id=x): reset'') = Some out"
  by (rule ascii_lines_are_written) (simp add: lit_def)

lemma no_note: "40 \<notin> set s \<Longrightarrow> strip_uri_note s = s"
  using split_text_stop [of URI_NOTE s "[]"] by (simp add: strip_uri_note_def)

lemma scrub_text_whole:
  "40 \<notin> set s \<Longrightarrow> 58 \<in> set s \<Longrightarrow> scrub_text alnum s = map_option fst (scrub_words alnum False s)"
  by (simp add: scrub_text_def no_note)

lemma plain_word:
  assumes "w \<noteq> []" "\<not> is_wrapper (hd w)" "\<not> is_wrapper (last w)"
  shows "word_text alnum w h = core_text alnum w h"
proof -
  have "takeWhile is_wrapper w = []" "dropWhile is_wrapper w = w" using assms(1,2) by (cases w; simp)+
  then show ?thesis using assms by (subst word_text_core) (simp_all add: case_prod_unfold option.map_ident)
qed

lemma address_core:
  assumes "58 \<notin> set k" "x \<noteq> []"
  shows "core_text alnum (k @ lit ''://'' @ x) False =
    map_option (\<lambda>out. (out, False)) (url_text (k @ lit ''://'' @ x) (length k))"
proof -
  have "\<not> scheme_word (k @ lit ''://'' @ x)" by (rule no_scheme_word [of 58]) (simp_all add: lit_def)
  then show ?thesis using assms by (subst core_text.simps) (simp add: first_address)
qed

text \<open>
  Beyond ASCII it is not: an address directly after a wider character, such as an opening guillemet,
  makes the slice of the address panic.
\<close>

theorem wide_character_before_address_panics:
  assumes "128 \<le> c" "\<not> is_whitespace c"
  shows "scrub_text alnum (lit ''see '' @ (c # lit ''https'') @ lit ''://'' @ lit ''x'') = None"
proof -
  let ?w = "(c # lit ''https'') @ lit ''://'' @ lit ''x''"
  have "\<not> is_ascii_alphanumeric c" "\<not> is_wrapper c" "\<not> is_gap c"
    using assms by (auto simp: scrub_eval)
  then have "url_text ?w (length (c # lit ''https'')) = None"
    using assms(1) url_text_at [of "lit ''https''" "[c]" "lit ''x''"]
    by (simp add: lit_def utf8_len_def is_ascii_alphanumeric_def is_ascii_alphabetic_def is_ascii_lowercase_def)
  then have "word_text alnum ?w False = None"
    using \<open>\<not> is_wrapper c\<close> assms(1) address_core [of "c # lit ''https''" "lit ''x''" alnum]
    by (subst plain_word) (simp_all add: scrub_eval)
  moreover have "\<forall>d \<in> set ?w. \<not> is_gap d" using \<open>\<not> is_gap c\<close> by (simp add: scrub_eval)
  ultimately have w: "scrub_words alnum False ?w = None" by (simp only: scrub_word)
  have "word_text alnum (lit ''see'') False = Some (lit ''see'', False)"
    by (subst plain_word) (simp_all add: core_text.simps scrub_eval strip_prefix_def secret_shaped_def str_len_def utf8_len_def)
  then have see: "scrub_words alnum False (lit ''see '') = Some (lit ''see '', False)"
    using scrub_append [of "lit ''see''" "[32]" alnum False] scrub_word [of "lit ''see''" alnum False]
      scrub_gaps [of "[32]" alnum False "[]"] by (simp add: scrub_eval)
  have "scrub_words alnum False (lit ''see '' @ ?w) = None"
    using scrub_append [of "lit ''see ''" ?w alnum False] w see chars_apart by (simp add: lit_def)
  then show ?thesis using assms(1) by (subst scrub_text_whole) (simp_all add: lit_def)
qed

text \<open>A secret in front of an address in the same word is not looked at: the word is logged as it is.\<close>

theorem secret_before_address_logged:
  assumes "\<forall>c \<in> set v. is_ascii_alphanumeric c"
  shows "scrub_text alnum ((lit ''access_token='' @ v @ lit ''&redirect_uri=https'') @ lit ''://'' @ lit ''x/y'') =
    Some ((lit ''access_token='' @ v @ lit ''&redirect_uri=https'') @ lit ''://'' @ lit ''x/y'')"
proof -
  let ?k = "lit ''access_token='' @ v @ lit ''&redirect_uri=https''" and ?x = "lit ''x/y''"
  have v: "\<forall>c \<in> set v. \<not> is_gap c \<and> c \<noteq> 58 \<and> c \<noteq> 40"
    using assms by (auto simp: scrub_eval)
  have "url_text (?k @ lit ''://'' @ ?x) (length ?k) = Some (?k @ lit ''://'' @ ?x)"
    using url_text_at [of "lit ''https''" "lit ''access_token='' @ v @ lit ''&redirect_uri=''" ?x]
    by (simp add: scrub_eval utf8_len_def is_closer_def path_text_def secret_shaped_def
        share_token_def str_len_def)
  then have "word_text alnum (?k @ lit ''://'' @ ?x) False = Some (?k @ lit ''://'' @ ?x, False)"
    using v address_core [of ?k ?x alnum] by (subst plain_word) (auto simp: scrub_eval)
  moreover have "\<forall>d \<in> set (?k @ lit ''://'' @ ?x). \<not> is_gap d" using v by (auto simp: scrub_eval)
  ultimately have "scrub_words alnum False (?k @ lit ''://'' @ ?x) = Some (?k @ lit ''://'' @ ?x, False)"
    by (simp only: scrub_word)
  then show ?thesis using v by (subst scrub_text_whole) (auto simp: lit_def)
qed

end
