(* ===== verification/Single_Flight.thy ===== *)
theory Single_Flight
  imports Rust_Str
begin

text \<open>
  \<open>api/src/cache/single_flight.rs\<close>: loads of one key that overlap are made once. A task calls
  \<open>KeyedCoalesce::run\<close>; it joins the flight of its key or opens one, waits for the gate of the
  flight, takes the value that was completed since it arrived or loads one itself.

  The model is a transition system. A task is in one of the stages of its call; each step is one
  action between two points where other tasks may run. A load may succeed, fail or be cut off with
  its task at any time. A flight is a number, given out when it is allocated; \<open>Weak::upgrade\<close> succeeds
  while a task holds the flight, and \<open>Arc::strong_count\<close> is the number of tasks that hold it.

  \<open>fl_log\<close> is the history of the completed loads and \<open>fl_since\<close> how long it was when a task arrived;
  the program does not see them.
\<close>

section \<open>State\<close>

datatype 'v stage =
    Outside
  | Entered str nat
  | Waiting str nat nat
  | Holding str nat nat
  | Loading str nat nat
  | Finished str nat "'v option"
  | Dropping str nat "'v option"
  | Returned str "'v option"

record 'v flights =
  fl_stage :: "nat \<Rightarrow> 'v stage"
  fl_map :: "str \<Rightarrow> nat option"
  fl_next :: nat
  fl_gate :: "nat \<Rightarrow> nat option"
  completed :: "nat \<Rightarrow> (nat \<times> 'v) option"
  completions :: "nat \<Rightarrow> nat"
  fl_log :: "(str \<times> 'v) list"
  fl_since :: "nat \<Rightarrow> nat"

definition no_flights :: "'v flights" where
  "no_flights = \<lparr>fl_stage = (\<lambda>_. Outside), fl_map = (\<lambda>_. None), fl_next = 0, fl_gate = (\<lambda>_. None),
     completed = (\<lambda>_. None), completions = (\<lambda>_. 0), fl_log = [], fl_since = (\<lambda>_. 0)\<rparr>"

text \<open>The key and flight of a call up to the end of its work, and up to the release of the flight.\<close>

fun works_on :: "'v stage \<Rightarrow> (str \<times> nat) option" where
  "works_on (Entered k f) = Some (k, f)"
| "works_on (Waiting k f a) = Some (k, f)"
| "works_on (Holding k f a) = Some (k, f)"
| "works_on (Loading k f a) = Some (k, f)"
| "works_on (Finished k f r) = Some (k, f)"
| "works_on _ = None"

fun holds :: "'v stage \<Rightarrow> nat option" where
  "holds (Dropping k f r) = Some f"
| "holds st = map_option snd (works_on st)"

definition upgradable :: "'v flights \<Rightarrow> nat \<Rightarrow> bool" where
  "upgradable s f \<longleftrightarrow> (\<exists>t. holds (fl_stage s t) = Some f)"

definition last_holder :: "'v flights \<Rightarrow> nat \<Rightarrow> nat \<Rightarrow> bool" where
  "last_holder s t f \<longleftrightarrow> (\<forall>t'. holds (fl_stage s t') = Some f \<longrightarrow> t' = t)"

definition to_stage :: "nat \<Rightarrow> 'v stage \<Rightarrow> 'v flights \<Rightarrow> 'v flights" where
  "to_stage t st s = s\<lparr>fl_stage := (fl_stage s)(t := st)\<rparr>"

definition set_gate :: "nat \<Rightarrow> nat option \<Rightarrow> 'v flights \<Rightarrow> 'v flights" where
  "set_gate f g s = s\<lparr>fl_gate := (fl_gate s)(f := g)\<rparr>"

section \<open>Operations\<close>

definition flight :: "str \<Rightarrow> 'v flights \<Rightarrow> nat \<times> 'v flights" where
  "flight key s =
     (case fl_map s key of
        Some f \<Rightarrow>
          if upgradable s f then (f, s)
          else (fl_next s, s\<lparr>fl_map := (fl_map s)(key \<mapsto> fl_next s), fl_next := Suc (fl_next s)\<rparr>)
      | None \<Rightarrow> (fl_next s, s\<lparr>fl_map := (fl_map s)(key \<mapsto> fl_next s), fl_next := Suc (fl_next s)\<rparr>))"

definition completed_after :: "nat \<Rightarrow> nat \<Rightarrow> 'v flights \<Rightarrow> 'v option" where
  "completed_after f arrived s =
     (case completed s f of Some (generation, v) \<Rightarrow> if arrived < generation then Some v else None | None \<Rightarrow> None)"

definition publish :: "str \<Rightarrow> nat \<Rightarrow> 'v \<Rightarrow> 'v flights \<Rightarrow> 'v flights" where
  "publish key f v s =
     s\<lparr>completions := (completions s)(f := Suc (completions s f)),
       completed := (completed s)(f \<mapsto> (Suc (completions s f), v)),
       fl_log := fl_log s @ [(key, v)]\<rparr>"

definition drop_flight :: "nat \<Rightarrow> str \<Rightarrow> nat \<Rightarrow> 'v flights \<Rightarrow> 'v flights" where
  "drop_flight t key f s =
     (if fl_map s key = Some f \<and> last_holder s t f then s\<lparr>fl_map := (fl_map s)(key := None)\<rparr> else s)"

text \<open>The steps of \<open>run\<close>, in the order of its code, and the ways it is cut off.\<close>

inductive flight_step :: "'v flights \<Rightarrow> 'v flights \<Rightarrow> bool" where
  enter: "fl_stage s t = Outside \<Longrightarrow> flight key s = (f, s') \<Longrightarrow> flight_step s (to_stage t (Entered key f) s')"
| arrive: "fl_stage s t = Entered key f \<Longrightarrow>
    flight_step s (to_stage t (Waiting key f (completions s f)) (s\<lparr>fl_since := (fl_since s)(t := length (fl_log s))\<rparr>))"
| lock: "fl_stage s t = Waiting key f a \<Longrightarrow> fl_gate s f = None \<Longrightarrow>
    flight_step s (to_stage t (Holding key f a) (set_gate f (Some t) s))"
| hit: "fl_stage s t = Holding key f a \<Longrightarrow> completed_after f a s = Some v \<Longrightarrow>
    flight_step s (to_stage t (Finished key f (Some v)) (set_gate f None s))"
| miss: "fl_stage s t = Holding key f a \<Longrightarrow> completed_after f a s = None \<Longrightarrow>
    flight_step s (to_stage t (Loading key f a) s)"
| loaded: "fl_stage s t = Loading key f a \<Longrightarrow>
    flight_step s (to_stage t (Finished key f (Some v)) (set_gate f None (publish key f v s)))"
| failed: "fl_stage s t = Loading key f a \<Longrightarrow>
    flight_step s (to_stage t (Finished key f None) (set_gate f None s))"
| cancelled: "fl_stage s t = Waiting key f a \<Longrightarrow> flight_step s (to_stage t (Finished key f None) s)"
| drops: "fl_stage s t = Finished key f r \<Longrightarrow>
    flight_step s (to_stage t (Dropping key f r) (drop_flight t key f s))"
| released: "fl_stage s t = Dropping key f r \<Longrightarrow> flight_step s (to_stage t (Returned key r) s)"

inductive flights_reach :: "'v flights \<Rightarrow> bool" where
  start: "flights_reach no_flights"
| more: "flights_reach s \<Longrightarrow> flight_step s s' \<Longrightarrow> flights_reach s'"

section \<open>The invariant\<close>

fun result_of :: "'v stage \<Rightarrow> (str \<times> 'v) option" where
  "result_of (Finished k f (Some v)) = Some (k, v)"
| "result_of (Dropping k f (Some v)) = Some (k, v)"
| "result_of (Returned k (Some v)) = Some (k, v)"
| "result_of _ = None"

fun arrived_at :: "'v stage \<Rightarrow> (str \<times> nat \<times> nat) option" where
  "arrived_at (Waiting k f a) = Some (k, f, a)"
| "arrived_at (Holding k f a) = Some (k, f, a)"
| "arrived_at (Loading k f a) = Some (k, f, a)"
| "arrived_at _ = None"

fun has_gate :: "'v stage \<Rightarrow> nat option" where
  "has_gate (Holding k f a) = Some f"
| "has_gate (Loading k f a) = Some f"
| "has_gate _ = None"

text \<open>\<open>v\<close> was loaded for \<open>key\<close> and completed after the task \<open>t\<close> arrived.\<close>

definition fresh_for :: "'v flights \<Rightarrow> nat \<Rightarrow> str \<Rightarrow> 'v \<Rightarrow> bool" where
  "fresh_for s t key v \<longleftrightarrow> (\<exists>i. fl_since s t \<le> i \<and> i < length (fl_log s) \<and> fl_log s ! i = (key, v))"

definition mapped_right :: "'v flights \<Rightarrow> bool" where
  "mapped_right s \<longleftrightarrow>
     (\<forall>t k f. works_on (fl_stage s t) = Some (k, f) \<longrightarrow> fl_map s k = Some f) \<and>
     (\<forall>k f. fl_map s k = Some f \<longrightarrow> f < fl_next s) \<and>
     (\<forall>t f. holds (fl_stage s t) = Some f \<longrightarrow> f < fl_next s) \<and>
     (\<forall>k k' f. fl_map s k = Some f \<longrightarrow> fl_map s k' = Some f \<longrightarrow> k = k')"

definition gates_right :: "'v flights \<Rightarrow> bool" where
  "gates_right s \<longleftrightarrow> (\<forall>t f. has_gate (fl_stage s t) = Some f \<longleftrightarrow> fl_gate s f = Some t)"

definition values_right :: "'v flights \<Rightarrow> bool" where
  "values_right s \<longleftrightarrow>
     (\<forall>f g v. completed s f = Some (g, v) \<longrightarrow> g = completions s f \<and> f < fl_next s) \<and>
     (\<forall>t k f a. arrived_at (fl_stage s t) = Some (k, f, a) \<longrightarrow>
        fl_since s t \<le> length (fl_log s) \<and>
        (\<forall>g v. completed s f = Some (g, v) \<longrightarrow> a < g \<longrightarrow> fresh_for s t k v)) \<and>
     (\<forall>t k v. result_of (fl_stage s t) = Some (k, v) \<longrightarrow> fresh_for s t k v)"

lemma to_stage_simps [simp]:
  "fl_stage (to_stage t st s) = (fl_stage s)(t := st)" "fl_map (to_stage t st s) = fl_map s"
  "fl_next (to_stage t st s) = fl_next s" "fl_gate (to_stage t st s) = fl_gate s"
  "completed (to_stage t st s) = completed s" "completions (to_stage t st s) = completions s"
  "fl_log (to_stage t st s) = fl_log s" "fl_since (to_stage t st s) = fl_since s"
  by (simp_all add: to_stage_def)

lemma set_gate_simps [simp]:
  "fl_stage (set_gate f g s) = fl_stage s" "fl_map (set_gate f g s) = fl_map s"
  "fl_next (set_gate f g s) = fl_next s" "fl_gate (set_gate f g s) = (fl_gate s)(f := g)"
  "completed (set_gate f g s) = completed s" "completions (set_gate f g s) = completions s"
  "fl_log (set_gate f g s) = fl_log s" "fl_since (set_gate f g s) = fl_since s"
  by (simp_all add: set_gate_def)

lemma drop_flight_simps [simp]:
  "fl_stage (drop_flight t k f s) = fl_stage s" "fl_next (drop_flight t k f s) = fl_next s"
  "fl_gate (drop_flight t k f s) = fl_gate s" "completed (drop_flight t k f s) = completed s"
  "completions (drop_flight t k f s) = completions s" "fl_log (drop_flight t k f s) = fl_log s"
  "fl_since (drop_flight t k f s) = fl_since s"
  by (simp_all add: drop_flight_def)

lemma flight_fields:
  assumes "flight k s = (f, s')"
  shows "fl_stage s' = fl_stage s" "fl_gate s' = fl_gate s" "completed s' = completed s"
    "completions s' = completions s" "fl_log s' = fl_log s" "fl_since s' = fl_since s" "fl_next s \<le> fl_next s'"
    "fl_map s' = (fl_map s)(k \<mapsto> f)"
    "fl_map s k = Some f \<and> upgradable s f \<and> fl_next s' = fl_next s \<or>
     f = fl_next s \<and> fl_next s' = Suc (fl_next s) \<and> (\<forall>f. fl_map s k = Some f \<longrightarrow> \<not> upgradable s f)"
  using assms by (auto simp: flight_def fun_upd_idem split: option.splits if_splits)

lemma works_holds: "works_on st = Some (k, f) \<Longrightarrow> holds st = Some f"
  by (cases st) auto

lemma fresh_cong:
  "fl_since s' t = fl_since s t \<Longrightarrow> fl_log s' = fl_log s \<Longrightarrow> fresh_for s' t k v = fresh_for s t k v"
  by (simp add: fresh_for_def)

lemma mappedD:
  assumes "mapped_right s"
  shows "works_on (fl_stage s t) = Some (k, f) \<Longrightarrow> fl_map s k = Some f"
    and "fl_map s k = Some f \<Longrightarrow> f < fl_next s"
    and "holds (fl_stage s t) = Some f \<Longrightarrow> f < fl_next s"
    and "fl_map s k = Some f \<Longrightarrow> fl_map s k' = Some f \<Longrightarrow> k = k'"
  using assms unfolding mapped_right_def by blast+

lemma enter_mapped:
  assumes "flight k s = (f, s')" "mapped_right s"
  shows "mapped_right (to_stage t (Entered k f) s')"
proof -
  note ff = flight_fields [OF assms(1)] and m = mappedD [OF assms(2)]
  have new: "f < fl_next s'" using ff(9) m(2) by auto
  have only: "k' = k" if "fl_map s k' = Some f" for k'
    using that ff(9) m(2) [of k'] m(4) [of k' f k] by auto
  have keep: "(if k' = k then Some f else fl_map s k') = Some f'" if "works_on (fl_stage s t') = Some (k', f')" for t' k' f'
    using m(1) [OF that] works_holds [OF that] ff(9) by (auto simp: upgradable_def)
  show ?thesis
    unfolding mapped_right_def to_stage_simps ff(1,8) fun_upd_apply
  proof (intro conjI allI impI)
    fix t' k' f'
    assume "works_on (if t' = t then Entered k f else fl_stage s t') = Some (k', f')"
    then show "(if k' = k then Some f else fl_map s k') = Some f'"
      using keep by (cases "t' = t") auto
  next
    fix k' f'
    assume "(if k' = k then Some f else fl_map s k') = Some f'"
    then show "f' < fl_next s'" using new m(2) [of k'] ff(7) by (cases "k' = k") auto
  next
    fix t' f'
    assume "holds (if t' = t then Entered k f else fl_stage s t') = Some f'"
    then show "f' < fl_next s'" using new m(3) [of t'] ff(7) by (cases "t' = t") auto
  next
    fix k1 k2 f'
    assume "(if k1 = k then Some f else fl_map s k1) = Some f'" "(if k2 = k then Some f else fl_map s k2) = Some f'"
    then show "k1 = k2" using only [of k1] only [of k2] m(4) [of k1 f' k2] by (auto split: if_splits)
  qed
qed

lemma drop_mapped:
  assumes "fl_stage s t = Finished k f r" "mapped_right s"
  shows "mapped_right (to_stage t (Dropping k f r) (drop_flight t k f s))"
proof -
  note m = mappedD [OF assms(2)]
  let ?s = "drop_flight t k f s"
  have sub: "fl_map ?s k' = Some f' \<Longrightarrow> fl_map s k' = Some f'" for k' f'
    by (auto simp: drop_flight_def split: if_splits)
  have keep: "fl_map ?s k' = Some f'" if w: "works_on (fl_stage s t') = Some (k', f')" "t' \<noteq> t" for t' k' f'
    using m(1) [OF w(1)] works_holds [OF w(1)] w(2) by (auto simp: drop_flight_def last_holder_def)
  show ?thesis
    unfolding mapped_right_def to_stage_simps drop_flight_simps fun_upd_apply
  proof (intro conjI allI impI)
    fix t' k' f'
    assume "works_on (if t' = t then Dropping k f r else fl_stage s t') = Some (k', f')"
    then show "fl_map ?s k' = Some f'" using keep by (cases "t' = t") auto
  next
    fix t' f'
    assume "holds (if t' = t then Dropping k f r else fl_stage s t') = Some f'"
    then show "f' < fl_next s" using m(3) [of t] m(3) [of t'] assms(1) by (cases "t' = t") auto
  qed (use sub m(2,4) in blast)+
qed

lemma stay_mapped:
  assumes "mapped_right s" "fl_map s2 = fl_map s" "fl_next s2 = fl_next s" "fl_stage s2 = fl_stage s"
    and "\<And>kf. works_on st = Some kf \<Longrightarrow> works_on (fl_stage s t) = Some kf"
    and "\<And>f. holds st = Some f \<Longrightarrow> holds (fl_stage s t) = Some f"
  shows "mapped_right (to_stage t st s2)"
  using mappedD [OF assms(1)] assms(5,6) unfolding mapped_right_def by (auto simp: assms(2-4))

lemma step_mapped: "flight_step s s' \<Longrightarrow> mapped_right s \<Longrightarrow> mapped_right s'"
proof (induction rule: flight_step.induct)
  case (enter s t k f s')
  then show ?case using enter_mapped by blast
next
  case (drops s t k f r)
  then show ?case using drop_mapped by blast
qed (rule stay_mapped, assumption, (simp add: publish_def)+)+

lemma stay_gates:
  assumes "gates_right s" "fl_gate s2 = fl_gate s" "fl_stage s2 = fl_stage s" "has_gate st = has_gate (fl_stage s t)"
  shows "gates_right (to_stage t st s2)"
  using assms by (simp add: gates_right_def)

lemma leave_gates:
  assumes "gates_right s" "fl_gate s2 = (fl_gate s)(f := None)" "fl_stage s2 = fl_stage s"
    and "has_gate (fl_stage s t) = Some f" "has_gate st = None"
  shows "gates_right (to_stage t st s2)"
  using assms unfolding gates_right_def by (simp add: fun_upd_apply) (metis option.inject)

lemma take_gates:
  assumes "gates_right s" "fl_gate s f = None" "has_gate (fl_stage s t) = None" "has_gate st = Some f"
  shows "gates_right (to_stage t st (set_gate f (Some t) s))"
  using assms unfolding gates_right_def by (simp add: fun_upd_apply) (metis option.distinct(1))

lemma step_gates: "flight_step s s' \<Longrightarrow> gates_right s \<Longrightarrow> gates_right s'"
proof (induction rule: flight_step.induct)
  case (enter s t k f s')
  then show ?case by (intro stay_gates [of s]) (simp_all add: flight_fields)
next
  case (lock s t k f a)
  then show ?case by (intro take_gates) simp_all
next
  case (hit s t k f a v)
  then show ?case by (intro leave_gates [of s]) simp_all
next
  case (loaded s t k f a v)
  then show ?case by (intro leave_gates [of s]) (simp_all add: publish_def)
next
  case (failed s t k f a)
  then show ?case by (intro leave_gates [of s]) simp_all
qed (rule stay_gates, assumption, simp+)+

text \<open>A step that leaves the history and the values alone.\<close>

lemma stay_values:
  assumes "values_right s" "completed s2 = completed s" "completions s2 = completions s" "fl_log s2 = fl_log s"
    and "fl_stage s2 = fl_stage s" "fl_since s2 = fl_since s" "fl_next s \<le> fl_next s2"
    and "\<And>x. arrived_at st = Some x \<Longrightarrow> arrived_at (fl_stage s t) = Some x"
    and "\<And>k v. result_of st = Some (k, v) \<Longrightarrow> fresh_for s t k v"
  shows "values_right (to_stage t st s2)"
proof -
  have fresh: "fresh_for (to_stage t st s2) t' k v = fresh_for s t' k v" for t' k v
    by (simp add: fresh_for_def assms(4,6))
  show ?thesis
    using assms(1,7,8,9) unfolding values_right_def fresh to_stage_simps assms(2-6) fun_upd_apply
    by (smt (verit) order_less_le_trans)
qed

lemma valuesD:
  assumes "values_right s"
  shows "completed s f = Some (g, v) \<Longrightarrow> g = completions s f \<and> f < fl_next s"
    and "arrived_at (fl_stage s t) = Some (k, f, a) \<Longrightarrow> fl_since s t \<le> length (fl_log s)"
    and "arrived_at (fl_stage s t) = Some (k, f, a) \<Longrightarrow> completed s f = Some (g, v) \<Longrightarrow> a < g \<Longrightarrow> fresh_for s t k v"
    and "result_of (fl_stage s t) = Some (k, v) \<Longrightarrow> fresh_for s t k v"
  using assms unfolding values_right_def by blast+

lemma arrived_works: "arrived_at st = Some (k, f, a) \<Longrightarrow> works_on st = Some (k, f)"
  by (cases st) auto

lemma fresh_published:
  "fresh_for s t k' v' \<Longrightarrow> fresh_for (to_stage t0 st (set_gate f g (publish k f v s))) t k' v'"
  "fl_since s t \<le> length (fl_log s) \<Longrightarrow> fresh_for (to_stage t0 st (set_gate f g (publish k f v s))) t k v"
proof -
  let ?s = "to_stage t0 st (set_gate f g (publish k f v s))"
  have s: "fl_log ?s = fl_log s @ [(k, v)]" "fl_since ?s t = fl_since s t" by (simp_all add: publish_def)
  show "fresh_for ?s t k' v'" if fresh: "fresh_for s t k' v'"
  proof -
    obtain i where "fl_since s t \<le> i" "i < length (fl_log s)" "fl_log s ! i = (k', v')"
      using fresh by (auto simp: fresh_for_def)
    then show ?thesis unfolding fresh_for_def s by (intro exI [of _ i]) (simp add: nth_append)
  qed
  show "fresh_for ?s t k v" if "fl_since s t \<le> length (fl_log s)"
    unfolding fresh_for_def s using that by (intro exI [of _ "length (fl_log s)"]) simp
qed

lemma publish_values:
  assumes "values_right s" "mapped_right s" "fl_stage s t = Loading k f a"
  shows "values_right (to_stage t (Finished k f (Some v)) (set_gate f None (publish k f v s)))"
proof -
  note d = valuesD [OF assms(1)] and m = mappedD [OF assms(2)]
  have f: "fl_map s k = Some f" "f < fl_next s" using m(1) [of t] m(2) assms(3) by auto
  have same: "k' = k" if "arrived_at (fl_stage s t') = Some (k', f, a')" for t' k' a'
    using m(1) [OF arrived_works [OF that]] m(4) f(1) by blast
  let ?s = "to_stage t (Finished k f (Some v)) (set_gate f None (publish k f v s))"
  show ?thesis
    unfolding values_right_def
  proof (intro conjI allI impI)
    fix f' g v'
    assume "completed ?s f' = Some (g, v')"
    then show "g = completions ?s f'" "f' < fl_next ?s"
      using d(1) [of f'] f(2) by (auto simp: publish_def split: if_splits)
  next
    fix t' k' f' a'
    assume ar: "arrived_at (fl_stage ?s t') = Some (k', f', a')"
    then have old: "arrived_at (fl_stage s t') = Some (k', f', a')" by (simp add: publish_def split: if_splits)
    then show "fl_since ?s t' \<le> length (fl_log ?s)" using d(2) by (fastforce simp: publish_def)
    fix g v'
    assume "completed ?s f' = Some (g, v')" "a' < g"
    then show "fresh_for ?s t' k' v'"
      using same [of t' k' a'] fresh_published d(2,3) [OF old] old by (cases "f' = f") (auto simp: publish_def)
  next
    fix t' k' v'
    assume "result_of (fl_stage ?s t') = Some (k', v')"
    then show "fresh_for ?s t' k' v'"
      using fresh_published d(2) [of t] d(4) [of t'] assms(3) by (cases "t' = t") (auto simp: publish_def)
  qed
qed

lemma arrive_values:
  assumes "values_right s" "fl_stage s t = Entered k f"
  shows "values_right (to_stage t (Waiting k f (completions s f)) (s\<lparr>fl_since := (fl_since s)(t := length (fl_log s))\<rparr>))"
proof -
  let ?s = "to_stage t (Waiting k f (completions s f)) (s\<lparr>fl_since := (fl_since s)(t := length (fl_log s))\<rparr>)"
  have "fresh_for ?s t' k' v' = fresh_for s t' k' v'" if "t' \<noteq> t" for t' k' v'
    using that by (simp add: fresh_for_def)
  then show ?thesis
    using valuesD [OF assms(1)] unfolding values_right_def by (auto split: if_splits)
qed

lemma result_steps: "result_of (Finished k f r) = result_of (Returned k r)" "result_of (Dropping k f r) = result_of (Returned k r)"
  by (cases r; simp)+

lemma step_values: "flight_step s s' \<Longrightarrow> mapped_right s \<Longrightarrow> values_right s \<Longrightarrow> values_right s'"
proof (induction rule: flight_step.induct)
  case (enter s t k f s')
  then show ?case by (intro stay_values [of s]) (simp_all add: flight_fields)
next
  case (arrive s t k f)
  then show ?case by (intro arrive_values)
next
  case (hit s t k f a v)
  then obtain g where "completed s f = Some (g, v)" "a < g"
    by (auto simp: completed_after_def split: option.splits if_splits)
  then have "fresh_for s t k v" using valuesD(3) [OF hit(4), of t] hit(1) by auto
  then show ?case using hit by (intro stay_values [of s]) simp_all
next
  case (loaded s t k f a v)
  then show ?case by (intro publish_values)
next
  case (drops s t k f r)
  then show ?case using valuesD(4) [OF drops(3), of t] by (intro stay_values [of s]) (simp_all add: result_steps)
next
  case (released s t k f r)
  then show ?case using valuesD(4) [OF released(3), of t] by (intro stay_values [of s]) (simp_all add: result_steps)
qed (rule stay_values, assumption, simp+)+

lemma reach_right: "flights_reach s \<Longrightarrow> mapped_right s \<and> gates_right s \<and> values_right s"
proof (induction rule: flights_reach.induct)
  case start
  then show ?case by (simp add: no_flights_def mapped_right_def gates_right_def values_right_def)
next
  case (more s s')
  then show ?case using step_mapped step_gates step_values by blast
qed

section \<open>What the calls get\<close>

text \<open>Two calls for one key: the first loads, the second arrives meanwhile and takes the value.\<close>

definition both_in :: "nat flights" where
  "both_in = no_flights\<lparr>fl_stage := (\<lambda>_. Outside)(0 := Loading [] 0 0, 1 := Waiting [] 0 0),
     fl_map := (\<lambda>_. None)([] \<mapsto> 0), fl_next := 1, fl_gate := (\<lambda>_. None)(0 := Some 0)\<rparr>"

definition first_out :: "nat flights" where
  "first_out = both_in\<lparr>fl_stage := (\<lambda>_. Outside)(0 := Returned [] (Some 7), 1 := Waiting [] 0 0),
     fl_gate := (\<lambda>_. None), completed := (\<lambda>_. None)(0 \<mapsto> (1, 7)), completions := (\<lambda>_. 0)(0 := 1), fl_log := [([], 7)]\<rparr>"

definition both_out :: "nat flights" where
  "both_out = first_out\<lparr>fl_stage := (\<lambda>_. Outside)(0 := Returned [] (Some 7), 1 := Returned [] (Some 7)),
     fl_map := (\<lambda>_. None)\<rparr>"

lemmas flight_eval = to_stage_def set_gate_def publish_def drop_flight_def last_holder_def flight_def upgradable_def
  completed_after_def no_flights_def both_in_def first_out_def both_out_def

lemma reach_step:
  assumes "flights_reach s" "flight_step s s1" "s1 = s'"
  shows "flights_reach s'"
  using assms flights_reach.more by blast

lemma both_in_reached: "flights_reach both_in"
proof -
  have "flights_reach (no_flights\<lparr>fl_stage := (\<lambda>_. Outside)(0 := Entered [] 0), fl_map := (\<lambda>_. None)([] \<mapsto> 0), fl_next := 1\<rparr> :: nat flights)"
    by (rule reach_step [OF start enter [where t = 0]]) (auto simp: flight_eval)
  then have "flights_reach (no_flights\<lparr>fl_stage := (\<lambda>_. Outside)(0 := Waiting [] 0 0), fl_map := (\<lambda>_. None)([] \<mapsto> 0), fl_next := 1\<rparr> :: nat flights)"
    by (rule reach_step [OF _ arrive [where t = 0]]) (auto simp: flight_eval)
  then have "flights_reach (no_flights\<lparr>fl_stage := (\<lambda>_. Outside)(0 := Holding [] 0 0), fl_map := (\<lambda>_. None)([] \<mapsto> 0), fl_next := 1,
      fl_gate := (\<lambda>_. None)(0 := Some 0)\<rparr> :: nat flights)"
    by (rule reach_step [OF _ lock [where t = 0]]) (auto simp: flight_eval)
  then have "flights_reach (no_flights\<lparr>fl_stage := (\<lambda>_. Outside)(0 := Loading [] 0 0), fl_map := (\<lambda>_. None)([] \<mapsto> 0), fl_next := 1,
      fl_gate := (\<lambda>_. None)(0 := Some 0)\<rparr> :: nat flights)"
    by (rule reach_step [OF _ miss [where t = 0]]) (auto simp: flight_eval)
  then have "flights_reach (no_flights\<lparr>fl_stage := (\<lambda>_. Outside)(0 := Loading [] 0 0, 1 := Entered [] 0), fl_map := (\<lambda>_. None)([] \<mapsto> 0),
      fl_next := 1, fl_gate := (\<lambda>_. None)(0 := Some 0)\<rparr> :: nat flights)"
    by (rule reach_step [OF _ enter [where t = 1]]) (auto simp: flight_eval intro: exI [of _ 0])
  then show ?thesis
    by (rule reach_step [OF _ arrive [where t = 1]]) (auto simp: flight_eval)
qed

lemma first_out_reached: "flights_reach first_out"
proof -
  let ?s = "\<lambda>st. both_in\<lparr>fl_stage := (\<lambda>_. Outside)(0 := st, 1 := Waiting [] 0 0),
     fl_gate := (\<lambda>_. None), completed := (\<lambda>_. None)(0 \<mapsto> (1, 7)), completions := (\<lambda>_. 0)(0 := 1), fl_log := [([], 7)]\<rparr>"
  have "flights_reach (?s (Finished [] 0 (Some 7)))"
    by (rule reach_step [OF both_in_reached loaded [where t = 0 and v = 7]]) (auto simp: flight_eval)
  then have "flights_reach (?s (Dropping [] 0 (Some 7)))"
    by (rule reach_step [OF _ drops [where t = 0]]) (auto simp: flight_eval intro: exI [of _ 1])
  then show ?thesis
    by (rule reach_step [OF _ released [where t = 0]]) (auto simp: flight_eval)
qed

lemma both_out_reached: "flights_reach both_out"
proof -
  let ?s = "\<lambda>st. first_out\<lparr>fl_stage := (\<lambda>_. Outside)(0 := Returned [] (Some 7), 1 := st)\<rparr>"
  have "flights_reach (?s (Holding [] 0 0)\<lparr>fl_gate := (\<lambda>_. None)(0 := Some 1)\<rparr>)"
    by (rule reach_step [OF first_out_reached lock [where t = 1]]) (auto simp: flight_eval)
  then have "flights_reach (?s (Finished [] 0 (Some 7)))"
    by (rule reach_step [OF _ hit [where t = 1]]) (auto simp: flight_eval)
  then have "flights_reach (?s (Dropping [] 0 (Some 7))\<lparr>fl_map := (\<lambda>_. None)\<rparr>)"
    by (rule reach_step [OF _ drops [where t = 1]]) (auto simp: flight_eval)
  then show ?thesis
    by (rule reach_step [OF _ released [where t = 1]]) (auto simp: flight_eval)
qed

text \<open>
  C10. Overlapping calls for one key make one load at a time, however they arrive, fail, are cut off or
  leave the flight.
\<close>

theorem one_load_per_key:
  assumes "flights_reach s" "fl_stage s t = Loading k f a" "fl_stage s t' = Loading k f' a'"
  shows "t = t'"
proof -
  have right: "mapped_right s" "gates_right s" using reach_right [OF assms(1)] by simp_all
  have "f = f'" using mappedD(1) [OF right(1), of t k f] mappedD(1) [OF right(1), of t' k f'] assms(2,3) by simp
  then have "fl_gate s f = Some t" "fl_gate s f = Some t'"
    using right(2) assms(2,3) unfolding gates_right_def by (metis has_gate.simps(2))+
  then show ?thesis by simp
qed

theorem one_load_per_key_witness:
  "flights_reach both_in \<and> {t. \<exists>f a. fl_stage both_in t = Loading [] f a} = {0}"
proof -
  have "fl_stage both_in 0 = Loading [] 0 0" by (simp add: both_in_def)
  then show ?thesis using one_load_per_key [OF both_in_reached] both_in_reached by blast
qed

text \<open>
  C19. The value a call returns was loaded for its key, and the load completed after the call had
  arrived: no caller is given an answer from before its question.
\<close>

theorem coalesced_value_is_fresh:
  assumes "flights_reach s" "fl_stage s t = Returned k (Some v)"
  shows "\<exists>i. fl_since s t \<le> i \<and> i < length (fl_log s) \<and> fl_log s ! i = (k, v)"
  using valuesD(4) [of s t k v] reach_right [OF assms(1)] assms(2) by (simp add: fresh_for_def)

theorem coalesced_value_is_fresh_witness:
  "fl_stage both_out 1 = Returned [] (Some 7) \<and> fl_since both_out 1 = 0 \<and>
   (\<exists>i \<ge> fl_since both_out 1. i < length (fl_log both_out) \<and> fl_log both_out ! i = ([], 7))"
proof -
  have "fl_stage both_out 1 = Returned [] (Some 7)" "fl_since both_out 1 = 0"
    by (simp_all add: flight_eval)
  then show ?thesis using coalesced_value_is_fresh [OF both_out_reached] by blast
qed

end
