(* ===== verification/Media_Target.thy ===== *)
theory Media_Target
  imports Ip_Addr "HOL-Library.Word"
begin

text \<open>
  Which addresses the streaming service fetches (\<open>streaming/src/stream/target.rs\<close>) and what it takes
  from an HLS playlist (\<open>parse_m3u8\<close> of \<open>hls.rs\<close>). The crate \<open>url\<close> is given by two arguments, \<open>parse\<close>
  and \<open>join\<close>; a parsed address is a record of the parts the code asks for. The predicates on
  addresses are those of the standard library.
\<close>

unbundle bit_operations_syntax

section \<open>Addresses that leave the own network\<close>

datatype host = Domain str | Host_V4 "byte list" | Host_V6 "byte list"

record parsed_url =
  pu_scheme :: str
  pu_username :: str
  pu_password :: "str option"
  pu_host :: "host option"
  pu_text :: str

type_synonym parser = "str \<Rightarrow> parsed_url option"

definition MAX_URL_LEN :: nat where "MAX_URL_LEN = 4096"

definition SOUNDCLOUD_PAGE_HOSTS :: "str list" where
  "SOUNDCLOUD_PAGE_HOSTS = map lit [''soundcloud.com'', ''www.soundcloud.com'', ''m.soundcloud.com'', ''on.soundcloud.com'']"

definition SOUNDCLOUD_API_HOSTS :: "str list" where
  "SOUNDCLOUD_API_HOSTS = map lit [''api-v2.soundcloud.com'', ''api.soundcloud.com'']"

definition LOCAL_SUFFIXES :: "str list" where
  "LOCAL_SUFFIXES = map lit [''.localhost'', ''.local'', ''.internal'', ''.home.arpa'', ''.localdomain'']"

definition names_our_own_network :: "str \<Rightarrow> bool" where
  "names_our_own_network raw =
     (let name = map to_ascii_lowercase (rev (dropWhile (\<lambda>c. c = 46) (rev raw)))
      in name = lit ''localhost'' \<or> 46 \<notin> set name \<or> (\<exists>suffix \<in> set LOCAL_SUFFIXES. ends_with name suffix))"

definition is_private :: "byte list \<Rightarrow> bool" where
  "is_private o4 \<longleftrightarrow> o4 ! 0 = 10 \<or> (o4 ! 0 = 172 \<and> 16 \<le> o4 ! 1 \<and> o4 ! 1 \<le> 31) \<or> (o4 ! 0 = 192 \<and> o4 ! 1 = 168)"

definition is_documentation :: "byte list \<Rightarrow> bool" where
  "is_documentation o4 \<longleftrightarrow> take 3 o4 \<in> {[192, 0, 2], [198, 51, 100], [203, 0, 113]}"

definition routes_off_this_machine_v4 :: "byte list \<Rightarrow> bool" where
  "routes_off_this_machine_v4 o4 \<longleftrightarrow>
     \<not> (o4 ! 0 = 127 \<or> is_private o4 \<or> (o4 ! 0 = 169 \<and> o4 ! 1 = 254) \<or> o4 = [0, 0, 0, 0] \<or>
        o4 = [255, 255, 255, 255] \<or> is_documentation o4 \<or> (224 \<le> o4 ! 0 \<and> o4 ! 0 \<le> 239) \<or>
        o4 ! 0 = 0 \<or> (o4 ! 0 = 100 \<and> 64 \<le> o4 ! 1 \<and> o4 ! 1 < 128) \<or> 240 \<le> o4 ! 0)"

definition v6_segment :: "nat \<Rightarrow> byte list \<Rightarrow> 16 word" where
  "v6_segment i octets = of_nat (256 * octets ! (2 * i) + octets ! (2 * i + 1))"

definition routes_off_this_machine_v6 :: "byte list \<Rightarrow> bool" where
  "routes_off_this_machine_v6 octets =
     (case ipv4_mapped octets of
        Some mapped \<Rightarrow> routes_off_this_machine_v4 mapped
      | None \<Rightarrow>
          \<not> (octets = replicate 15 0 @ [1] \<or> octets = replicate 16 0 \<or> octets ! 0 = 255 \<or>
             v6_segment 0 octets AND 0xfe00 = 0xfc00 \<or> v6_segment 0 octets AND 0xffc0 = 0xfe80))"

definition outside :: "host \<Rightarrow> bool" where
  "outside h =
     (case h of
        Domain name \<Rightarrow> \<not> names_our_own_network name
      | Host_V4 address \<Rightarrow> routes_off_this_machine_v4 address
      | Host_V6 address \<Rightarrow> routes_off_this_machine_v6 address)"

definition reachable_url :: "parser \<Rightarrow> str \<Rightarrow> parsed_url option" where
  "reachable_url parse link =
     (if MAX_URL_LEN < str_len link then None
      else case parse link of
        None \<Rightarrow> None
      | Some u \<Rightarrow>
          if pu_username u \<noteq> [] \<or> pu_password u \<noteq> None then None
          else case pu_host u of None \<Rightarrow> None | Some h \<Rightarrow> if outside h then Some u else None)"

text \<open>
  \<open>Url::host_str\<close>, as far as it is compared with names: the text of an address is digits or bracketed,
  so it is none of the listed names and is left out.
\<close>

definition host_str :: "parsed_url \<Rightarrow> str option" where
  "host_str u = (case pu_host u of Some (Domain name) \<Rightarrow> Some name | _ \<Rightarrow> None)"

definition soundcloud_page :: "parser \<Rightarrow> str \<Rightarrow> parsed_url option" where
  "soundcloud_page parse link =
     Option.bind (reachable_url parse link) (\<lambda>u. Option.bind (host_str u) (\<lambda>named.
       if pu_scheme u = lit ''https'' \<and> named \<in> set SOUNDCLOUD_PAGE_HOSTS then Some u else None))"

definition soundcloud_api :: "parser \<Rightarrow> str \<Rightarrow> parsed_url option" where
  "soundcloud_api parse link =
     Option.bind (reachable_url parse link) (\<lambda>u. Option.bind (host_str u) (\<lambda>named.
       if pu_scheme u = lit ''https'' \<and> named \<in> set SOUNDCLOUD_API_HOSTS then Some u else None))"

definition public_media :: "parser \<Rightarrow> str \<Rightarrow> parsed_url option" where
  "public_media parse link =
     Option.bind (reachable_url parse link) (\<lambda>u.
       if pu_scheme u \<in> {lit ''http'', lit ''https''} then Some u else None)"

section \<open>Playlists\<close>

text \<open>\<open>str::lines\<close>: the pieces between line feeds, without a carriage return at their end; no last empty line.\<close>

definition rust_lines :: "str \<Rightarrow> str list" where
  "rust_lines s =
     (let pieces = split_at 10 s; kept = if last pieces = [] then butlast pieces else pieces
      in map (\<lambda>l. case strip_suffix l [13] of Some l' \<Rightarrow> l' | None \<Rightarrow> l) kept)"

type_synonym segment_source = "str option \<times> str list"

definition resolve_url :: "parser \<Rightarrow> (parsed_url \<Rightarrow> str \<Rightarrow> parsed_url option) \<Rightarrow> str \<Rightarrow> parsed_url \<Rightarrow> str option" where
  "resolve_url parse join link base =
     (case join base link of
        None \<Rightarrow> None
      | Some absolute \<Rightarrow> map_option pu_text (public_media parse (pu_text absolute)))"

definition MAP_TAG :: str where "MAP_TAG = lit ''#EXT-X-MAP:URI='' @ [34]"

fun playlist_lines ::
    "parser \<Rightarrow> (parsed_url \<Rightarrow> str \<Rightarrow> parsed_url option) \<Rightarrow> parsed_url \<Rightarrow> str list \<Rightarrow> segment_source \<Rightarrow> segment_source" where
  "playlist_lines parse join base [] acc = acc"
| "playlist_lines parse join base (raw # following) (init_url, segment_urls) =
     (let line = trim raw
      in case split_text MAP_TAG line of
           Some (_, rest) \<Rightarrow>
             playlist_lines parse join base following
               (case split_once 34 rest of
                  Some (link, _) \<Rightarrow> (resolve_url parse join link base, segment_urls)
                | None \<Rightarrow> (init_url, segment_urls))
         | None \<Rightarrow>
             if starts_with line [35] \<or> line = [] then playlist_lines parse join base following (init_url, segment_urls)
             else case resolve_url parse join line base of
                    None \<Rightarrow> (None, [])
                  | Some found \<Rightarrow> playlist_lines parse join base following (init_url, segment_urls @ [found]))"

definition parse_m3u8 :: "parser \<Rightarrow> (parsed_url \<Rightarrow> str \<Rightarrow> parsed_url option) \<Rightarrow> str \<Rightarrow> str \<Rightarrow> segment_source" where
  "parse_m3u8 parse join content base_url =
     (case public_media parse base_url of
        None \<Rightarrow> (None, [])
      | Some base \<Rightarrow> playlist_lines parse join base (rust_lines content) (None, []))"

section \<open>The guard and the reserved networks\<close>

text \<open>A network is its first address and the length of its prefix; an address lies in it when the prefixes agree.\<close>

definition in_block :: "byte list \<Rightarrow> byte list \<times> nat \<Rightarrow> bool" where
  "in_block a block =
     (case block of (net, len) \<Rightarrow>
        from_be a div 2 ^ (8 * length net - len) = from_be net div 2 ^ (8 * length net - len))"

definition RESERVED_V4 :: "(byte list \<times> nat) list" where
  "RESERVED_V4 =
     [([0, 0, 0, 0], 8), ([10, 0, 0, 0], 8), ([100, 64, 0, 0], 10), ([127, 0, 0, 0], 8), ([169, 254, 0, 0], 16),
      ([172, 16, 0, 0], 12), ([192, 0, 2, 0], 24), ([192, 168, 0, 0], 16), ([198, 51, 100, 0], 24),
      ([203, 0, 113, 0], 24), ([224, 0, 0, 0], 4), ([240, 0, 0, 0], 4)]"

lemma octets4:
  assumes "length a = 4" "\<forall>x \<in> set a. x < 256"
  obtains b c d e where "a = [b, c, d, e]" "b < 256" "c < 256" "d < 256" "e < 256"
  using assms by (auto simp: length_Suc_conv eval_nat_numeral)

lemma quotient: "x = q * m + r \<Longrightarrow> r < m \<Longrightarrow> x div m = q" for x q m r :: nat
  by simp

lemma block_prefix:
  assumes "c < 256" "d < 256" "e < 256"
  shows "from_be [b, c, d, e] div 16777216 = b" "from_be [b, c, d, e] div 65536 = 256 * b + c"
    "from_be [b, c, d, e] div 256 = 65536 * b + 256 * c + d"
    "from_be [b, c, d, e] div 4194304 = 4 * b + c div 64" "from_be [b, c, d, e] div 1048576 = 16 * b + c div 16"
    "from_be [b, c, d, e] div 268435456 = b div 16"
proof -
  have x: "from_be [b, c, d, e] = 16777216 * b + 65536 * c + 256 * d + e" by simp
  have m: "64 * (c div 64) + c mod 64 = c" "c mod 64 < 64" "16 * (c div 16) + c mod 16 = c" "c mod 16 < 16"
    "16 * (b div 16) + b mod 16 = b" "b mod 16 < 16"
    by simp_all
  show "from_be [b, c, d, e] div 16777216 = b"
    unfolding x by (rule quotient [of _ _ _ "65536 * c + 256 * d + e"]) (use assms in \<open>simp add: distrib_right; linarith\<close>)+
  show "from_be [b, c, d, e] div 65536 = 256 * b + c"
    unfolding x by (rule quotient [of _ _ _ "256 * d + e"]) (use assms in \<open>simp add: distrib_right; linarith\<close>)+
  show "from_be [b, c, d, e] div 256 = 65536 * b + 256 * c + d"
    unfolding x by (rule quotient [of _ _ _ e]) (use assms in \<open>simp add: distrib_right; linarith\<close>)+
  show "from_be [b, c, d, e] div 4194304 = 4 * b + c div 64"
    unfolding x by (rule quotient [of _ _ _ "65536 * (c mod 64) + 256 * d + e"]) (use assms m in \<open>simp add: distrib_right; linarith\<close>)+
  show "from_be [b, c, d, e] div 1048576 = 16 * b + c div 16"
    unfolding x by (rule quotient [of _ _ _ "65536 * (c mod 16) + 256 * d + e"]) (use assms m in \<open>simp add: distrib_right; linarith\<close>)+
  show "from_be [b, c, d, e] div 268435456 = b div 16"
    unfolding x by (rule quotient [of _ _ _ "16777216 * (b mod 16) + 65536 * c + 256 * d + e"]) (use assms m in \<open>simp add: distrib_right; linarith\<close>)+
qed

lemma v4_blocks:
  assumes "c < 256" "d < 256" "e < 256"
  shows "(\<exists>block \<in> set RESERVED_V4. in_block [b, c, d, e] block) \<longleftrightarrow>
    b = 0 \<or> b = 10 \<or> 4 * b + c div 64 = 401 \<or> b = 127 \<or> 256 * b + c = 43518 \<or> 16 * b + c div 16 = 2753 \<or>
    65536 * b + 256 * c + d = 12582914 \<or> 256 * b + c = 49320 \<or> 65536 * b + 256 * c + d = 12989284 \<or>
    65536 * b + 256 * c + d = 13303921 \<or> b div 16 = 14 \<or> b div 16 = 15"
  using assms by (simp add: RESERVED_V4_def in_block_def block_prefix del: from_be.simps)

lemma digits_eq:
  fixes q q' r r' m :: nat
  assumes "r < m" "r' < m"
  shows "m * q + r = m * q' + r' \<longleftrightarrow> q = q' \<and> r = r'"
proof
  assume eq: "m * q + r = m * q' + r'"
  have "(m * q + r) div m = q" "(m * q + r) mod m = r" "(m * q' + r') div m = q'" "(m * q' + r') mod m = r'"
    using assms by simp_all
  with eq show "q = q' \<and> r = r'" by metis
qed simp

lemma v4_ranges:
  fixes b c d e :: nat
  assumes "b < 256" "c < 256" "d < 256" "e < 256"
  shows "4 * b + c div 64 = 401 \<longleftrightarrow> b = 100 \<and> 64 \<le> c \<and> c < 128"
    "256 * b + c = 43518 \<longleftrightarrow> b = 169 \<and> c = 254" "256 * b + c = 49320 \<longleftrightarrow> b = 192 \<and> c = 168"
    "16 * b + c div 16 = 2753 \<longleftrightarrow> b = 172 \<and> 16 \<le> c \<and> c \<le> 31"
    "65536 * b + 256 * c + d = 12582914 \<longleftrightarrow> b = 192 \<and> c = 0 \<and> d = 2"
    "65536 * b + 256 * c + d = 12989284 \<longleftrightarrow> b = 198 \<and> c = 51 \<and> d = 100"
    "65536 * b + 256 * c + d = 13303921 \<longleftrightarrow> b = 203 \<and> c = 0 \<and> d = 113"
    "b div 16 = 14 \<longleftrightarrow> 224 \<le> b \<and> b \<le> 239" "b div 16 = 15 \<longleftrightarrow> 240 \<le> b"
proof -
  have c: "c div 64 < 4" "c div 16 < 16" "256 * c + d < 65536" using assms by linarith+
  have "c div 64 = 1 \<longleftrightarrow> 64 \<le> c \<and> c < 128" "c div 16 = 1 \<longleftrightarrow> 16 \<le> c \<and> c \<le> 31" by linarith+
  then show "4 * b + c div 64 = 401 \<longleftrightarrow> b = 100 \<and> 64 \<le> c \<and> c < 128"
    "16 * b + c div 16 = 2753 \<longleftrightarrow> b = 172 \<and> 16 \<le> c \<and> c \<le> 31"
    using digits_eq [of "c div 64" 4 1 b 100] digits_eq [of "c div 16" 16 1 b 172] c by simp_all
  show "256 * b + c = 43518 \<longleftrightarrow> b = 169 \<and> c = 254" "256 * b + c = 49320 \<longleftrightarrow> b = 192 \<and> c = 168"
    using digits_eq [of c 256 254 b 169] digits_eq [of c 256 168 b 192] assms by simp_all
  show "65536 * b + 256 * c + d = 12582914 \<longleftrightarrow> b = 192 \<and> c = 0 \<and> d = 2"
    "65536 * b + 256 * c + d = 12989284 \<longleftrightarrow> b = 198 \<and> c = 51 \<and> d = 100"
    "65536 * b + 256 * c + d = 13303921 \<longleftrightarrow> b = 203 \<and> c = 0 \<and> d = 113"
    using digits_eq [of "256 * c + d" 65536 2 b 192] digits_eq [of d 256 2 c 0]
      digits_eq [of "256 * c + d" 65536 13156 b 198] digits_eq [of d 256 100 c 51]
      digits_eq [of "256 * c + d" 65536 113 b 203] digits_eq [of d 256 113 c 0] c assms
    by (simp_all add: add.assoc numeral_2_eq_2)
  show "b div 16 = 14 \<longleftrightarrow> 224 \<le> b \<and> b \<le> 239" "b div 16 = 15 \<longleftrightarrow> 240 \<le> b" using assms by linarith+
qed

lemma v4_reserved:
  assumes "length a = 4" "\<forall>x \<in> set a. x < 256"
  shows "routes_off_this_machine_v4 a \<longleftrightarrow> \<not> (\<exists>block \<in> set RESERVED_V4. in_block a block)"
proof -
  obtain b c d e where a: "a = [b, c, d, e]" and lt: "b < 256" "c < 256" "d < 256" "e < 256"
    using octets4 [OF assms] .
  have flip: "\<not> p \<longleftrightarrow> \<not> q" if "p \<Longrightarrow> q" "q \<Longrightarrow> p" for p q using that by blast
  show ?thesis
    unfolding a routes_off_this_machine_v4_def v4_blocks [OF lt(2-4)] v4_ranges [OF lt]
    by (rule flip; elim disjE conjE; simp add: is_private_def is_documentation_def)
       (auto simp: is_private_def is_documentation_def)
qed

definition RESERVED_V6 :: "(byte list \<times> nat) list" where
  "RESERVED_V6 =
     [(replicate 16 0, 128), (replicate 15 0 @ [1], 128), (252 # replicate 15 0, 7), (254 # 128 # replicate 14 0, 10),
      (255 # replicate 15 0, 8)]"

lemma high_bits_eq:
  fixes w k :: "16 word"
  assumes "take_bit n k = 0" "n \<le> 16"
  shows "w AND NOT (mask n) = k \<longleftrightarrow> unat w div 2 ^ n = unat k div 2 ^ n"
proof -
  have "w AND NOT (mask n) = push_bit n (drop_bit n w)"
    by (rule bit_word_eqI) (auto simp: bit_simps)
  moreover have "k = push_bit n (drop_bit n k)"
    using assms(1) by (metis add_0 bits_ident add.commute add_0_right)
  moreover have "push_bit n (drop_bit n w) = push_bit n (drop_bit n k) \<longleftrightarrow> drop_bit n w = drop_bit n k"
  proof -
    have "drop_bit n (push_bit n (drop_bit n x)) = drop_bit n x" for x :: "16 word"
      by (rule bit_word_eqI) (auto simp: bit_simps dest: bit_imp_le_length)
    then show ?thesis by metis
  qed
  ultimately show ?thesis
    by (metis drop_bit_eq_div unat_drop_bit_eq word_unat_eq_iff)
qed

lemma segment_prefix:
  assumes "b < 256" "c < 256"
  shows "v6_segment 0 (b # c # rest) AND 0xfe00 = 0xfc00 \<longleftrightarrow> b div 2 = 126"
    "v6_segment 0 (b # c # rest) AND 0xffc0 = 0xfe80 \<longleftrightarrow> 4 * b + c div 64 = 1018"
proof -
  have u: "unat (v6_segment 0 (b # c # rest)) = 256 * b + c"
  proof -
    have "256 * b + c < 2 ^ 16" using assms by simp
    then have "unat (word_of_nat (256 * b + c) :: 16 word) = 256 * b + c"
      by (simp add: unsigned_of_nat take_bit_nat_eq_self del: of_nat_add of_nat_mult)
    then show ?thesis by (simp add: v6_segment_def)
  qed
  have k: "(0xfe00 :: 16 word) = NOT (mask 9)" "(0xffc0 :: 16 word) = NOT (mask 6)"
    by (simp_all add: mask_eq_exp_minus_1)
  have q: "(256 * b + c) div 512 = b div 2" "(256 * b + c) div 64 = 4 * b + c div 64" using assms by linarith+
  show "v6_segment 0 (b # c # rest) AND 0xfe00 = 0xfc00 \<longleftrightarrow> b div 2 = 126"
    unfolding k using high_bits_eq [of 9 "0xfc00" "v6_segment 0 (b # c # rest)"] q by (simp add: u take_bit_eq_mod)
  show "v6_segment 0 (b # c # rest) AND 0xffc0 = 0xfe80 \<longleftrightarrow> 4 * b + c div 64 = 1018"
    unfolding k using high_bits_eq [of 6 "0xfe80" "v6_segment 0 (b # c # rest)"] q by (simp add: u take_bit_eq_mod)
qed

lemma from_be_less: "\<forall>x \<in> set a. x < 256 \<Longrightarrow> from_be a < 256 ^ length a"
proof (induction a)
  case (Cons x a)
  then have "x * 256 ^ length a + from_be a < (x + 1) * 256 ^ length a" by simp
  also have "\<dots> \<le> 256 * 256 ^ length a" using Cons.prems by (intro mult_right_mono) auto
  finally show ?case by simp
qed simp

lemma from_be_inject:
  assumes "length a = length b" "\<forall>x \<in> set a. x < 256" "\<forall>x \<in> set b. x < 256"
  shows "from_be a = from_be b \<longleftrightarrow> a = b"
  using assms
proof (induction rule: list_induct2)
  case (Cons x a y b)
  then show ?case
    using digits_eq [of "from_be a" "256 ^ length a" "from_be b" x y] from_be_less [of a] from_be_less [of b]
    by (simp add: mult.commute)
qed simp

lemma from_be_zeros [simp]: "from_be (replicate n 0) = 0"
  by (induction n) simp_all

lemma v6_blocks:
  assumes "length rest = 14" "\<forall>x \<in> set rest. x < 256" "b < 256" "c < 256"
  shows "(\<exists>block \<in> set RESERVED_V6. in_block (b # c # rest) block) \<longleftrightarrow>
    b # c # rest = replicate 16 0 \<or> b # c # rest = replicate 15 0 @ [1] \<or> b div 2 = 126 \<or> 4 * b + c div 64 = 1018 \<or> b = 255"
proof -
  let ?M = "256 ^ 14 :: nat"
  have r: "from_be rest < ?M" using from_be_less [OF assms(2)] assms(1) by simp
  have top: "from_be (b # c # rest) div ?M = 256 * b + c"
    by (rule quotient [OF _ r]) (simp add: assms(1))
  have cut: "from_be (b # c # rest) div (?M * k) = (256 * b + c) div k" for k
    using top by (simp add: div_mult2_eq)
  have p: "(2::nat) ^ 121 = ?M * 512" "(2::nat) ^ 118 = ?M * 64" "(2::nat) ^ 120 = ?M * 256" by simp_all
  have q: "(256 * b + c) div 512 = b div 2" "(256 * b + c) div 64 = 4 * b + c div 64" "(256 * b + c) div 256 = b"
    using assms(3,4) by linarith+
  have "in_block (b # c # rest) (replicate 16 0, 128) \<longleftrightarrow> b # c # rest = replicate 16 0"
    "in_block (b # c # rest) (replicate 15 0 @ [1], 128) \<longleftrightarrow> b # c # rest = replicate 15 0 @ [1]"
    using from_be_inject [of "b # c # rest" "replicate 16 0"] from_be_inject [of "b # c # rest" "replicate 15 0 @ [1]"] assms
    by (simp_all add: in_block_def del: from_be.simps)
  moreover have "in_block (b # c # rest) (252 # replicate 15 0, 7) \<longleftrightarrow> b div 2 = 126"
    "in_block (b # c # rest) (254 # 128 # replicate 14 0, 10) \<longleftrightarrow> 4 * b + c div 64 = 1018"
    "in_block (b # c # rest) (255 # replicate 15 0, 8) \<longleftrightarrow> b = 255"
    using cut [of 512] cut [of 64] cut [of 256] unfolding q
    by (simp_all add: in_block_def p [symmetric] del: from_be.simps) (simp_all)
  ultimately show ?thesis by (simp only: RESERVED_V6_def list.set insert_iff empty_iff bex_simps) blast
qed

lemma octets16:
  assumes "length a = 16" "\<forall>x \<in> set a. x < 256"
  obtains b c rest where "a = b # c # rest" "b < 256" "c < 256" "length rest = 14" "\<forall>x \<in> set rest. x < 256"
proof -
  obtain b c rest where "a = b # c # rest" using assms(1) by (cases a; cases "tl a") auto
  with assms that show thesis by simp
qed

lemma v6_reserved:
  assumes "length a = 16" "\<forall>x \<in> set a. x < 256" "ipv4_mapped a = None"
  shows "routes_off_this_machine_v6 a \<longleftrightarrow> \<not> (\<exists>block \<in> set RESERVED_V6. in_block a block)"
proof -
  obtain b c rest where a: "a = b # c # rest" and r: "b < 256" "c < 256" "length rest = 14" "\<forall>x \<in> set rest. x < 256"
    using octets16 [OF assms(1,2)] .
  show ?thesis
    using assms(3) unfolding a routes_off_this_machine_v6_def v6_blocks [OF r(3,4,1,2)] segment_prefix [OF r(1,2)]
    by (simp del: replicate.simps) blast
qed

text \<open>
  C14. The guard before every fetch is exactly a list of reserved networks: an IPv4 host is let through
  when it lies in none of the twelve blocks, an IPv6 host when it lies in none of the five, and an
  IPv4-mapped IPv6 host when the address it carries does. The octet comparisons, the masks on the first
  segment and the standard library's predicates together leave no gap between the blocks and no block out.
\<close>

theorem guard_is_the_reserved_networks:
  assumes "\<forall>x \<in> set a. x < 256"
  shows "(length a = 4 \<longrightarrow> (outside (Host_V4 a) \<longleftrightarrow> \<not> (\<exists>block \<in> set RESERVED_V4. in_block a block))) \<and>
    (length a = 16 \<longrightarrow>
      (outside (Host_V6 a) \<longleftrightarrow>
        (case ipv4_mapped a of
           Some mapped \<Rightarrow> \<not> (\<exists>block \<in> set RESERVED_V4. in_block mapped block)
         | None \<Rightarrow> \<not> (\<exists>block \<in> set RESERVED_V6. in_block a block))))"
proof -
  have "length m = 4 \<and> (\<forall>x \<in> set m. x < 256)" if "ipv4_mapped a = Some m" "length a = 16" for m
    using that assms by (auto simp: ipv4_mapped_def split: if_splits dest: in_set_dropD)
  then have v6: "outside (Host_V6 a) \<longleftrightarrow>
      (case ipv4_mapped a of
         Some mapped \<Rightarrow> \<not> (\<exists>block \<in> set RESERVED_V4. in_block mapped block)
       | None \<Rightarrow> \<not> (\<exists>block \<in> set RESERVED_V6. in_block a block))" if "length a = 16"
    using that v4_reserved v6_reserved [OF _ assms]
    by (cases "ipv4_mapped a") (simp_all add: outside_def routes_off_this_machine_v6_def)
  have "outside (Host_V4 a) \<longleftrightarrow> \<not> (\<exists>block \<in> set RESERVED_V4. in_block a block)" if "length a = 4"
    using v4_reserved [OF that assms] by (simp add: outside_def)
  with v6 show ?thesis by blast
qed

theorem guard_is_the_reserved_networks_witness:
  "\<not> outside (Host_V4 [100, 64, 0, 1]) \<and> outside (Host_V4 [100, 128, 0, 1]) \<and>
   \<not> outside (Host_V6 (253 # replicate 15 0)) \<and> \<not> outside (Host_V6 (replicate 10 0 @ [255, 255, 10, 0, 0, 1]))"
proof -
  have "\<exists>block \<in> set RESERVED_V4. in_block [100, 64, 0, 1] block" "\<not> (\<exists>block \<in> set RESERVED_V4. in_block [100, 128, 0, 1] block)"
    "\<exists>block \<in> set RESERVED_V4. in_block [10, 0, 0, 1] block" "\<exists>block \<in> set RESERVED_V6. in_block (253 # replicate 15 0) block"
    by (simp_all add: RESERVED_V4_def RESERVED_V6_def in_block_def)
  moreover have "ipv4_mapped (253 # replicate 15 0) = None"
    "ipv4_mapped (replicate 10 0 @ [255, 255, 10, 0, 0, 1]) = Some [10, 0, 0, 1]"
    by (simp_all add: ipv4_mapped_def numeral_eq_Suc)
  ultimately show ?thesis
    using guard_is_the_reserved_networks [of "[100, 64, 0, 1]"] guard_is_the_reserved_networks [of "[100, 128, 0, 1]"]
      guard_is_the_reserved_networks [of "253 # replicate 15 0"]
      guard_is_the_reserved_networks [of "replicate 10 0 @ [255, 255, 10, 0, 0, 1]"]
    by simp
qed

section \<open>What a playlist may name\<close>

text \<open>The lines of a playlist that name a segment: neither empty, nor a comment, nor the initialisation tag.\<close>

definition segment_links :: "str list \<Rightarrow> str list" where
  "segment_links ls = filter (\<lambda>l. split_text MAP_TAG l = None \<and> \<not> starts_with l [35] \<and> l \<noteq> []) (map trim ls)"

text \<open>An address the service may fetch: plain web, no credentials, a host outside the own network.\<close>

definition fetchable :: "parsed_url \<Rightarrow> bool" where
  "fetchable u \<longleftrightarrow>
     pu_scheme u \<in> {lit ''http'', lit ''https''} \<and> pu_username u = [] \<and> pu_password u = None \<and>
     (\<exists>h. pu_host u = Some h \<and> outside h)"

lemma public_media_fetchable: "public_media parse link = Some u \<Longrightarrow> fetchable u \<and> parse link = Some u \<and> str_len link \<le> MAX_URL_LEN"
  by (auto simp: public_media_def reachable_url_def fetchable_def bind_eq_Some_conv split: if_splits option.splits)

lemma resolve_url_fetchable:
  "resolve_url parse join link base = Some t \<Longrightarrow>
   \<exists>absolute u. join base link = Some absolute \<and> parse (pu_text absolute) = Some u \<and> fetchable u \<and> t = pu_text u"
  by (auto simp: resolve_url_def split: option.splits dest: public_media_fetchable)

lemma playlist_lines_segments:
  "snd (playlist_lines parse join base ls (i, done_urls)) =
     (case those (map (\<lambda>l. resolve_url parse join l base) (segment_links ls)) of
        Some found \<Rightarrow> done_urls @ found | None \<Rightarrow> [])"
proof (induction ls arbitrary: i done_urls)
  case (Cons raw ls)
  then show ?case
    by (auto simp: segment_links_def Let_def split: option.splits prod.splits)
qed (simp add: segment_links_def)

lemma playlist_lines_init:
  "fst (playlist_lines parse join base ls (i, done_urls)) = Some t \<Longrightarrow>
   i = Some t \<or> (\<exists>link. resolve_url parse join link base = Some t)"
proof (induction ls arbitrary: i done_urls)
  case (Cons raw ls)
  from Cons.prems show ?case
    by (auto simp: Let_def split: option.splits prod.splits if_splits dest!: Cons.IH)
qed simp

lemma those_in: "those xs = Some ys \<Longrightarrow> y \<in> set ys \<Longrightarrow> Some y \<in> set xs"
  by (induction xs arbitrary: ys) (auto split: option.splits)

text \<open>
  C13. A playlist from outside cannot send the service anywhere else: whatever its text, the
  initialisation segment and every segment it yields is the text of an address that was parsed, is
  plain \<open>http\<close> or \<open>https\<close>, carries no credentials and has a host outside the own network. The segments are the
  links of the playlist in its order, and a single link that is refused leaves none.
\<close>

theorem playlist_stays_outside:
  assumes "parse_m3u8 parse join content base_url = (init_url, segment_urls)"
  shows "(\<forall>t \<in> set_option init_url \<union> set segment_urls. \<exists>link u. parse link = Some u \<and> fetchable u \<and> t = pu_text u) \<and>
    segment_urls =
      (case public_media parse base_url of
         None \<Rightarrow> []
       | Some base \<Rightarrow>
           (case those (map (\<lambda>l. resolve_url parse join l base) (segment_links (rust_lines content))) of
              Some found \<Rightarrow> found | None \<Rightarrow> []))"
proof (cases "public_media parse base_url")
  case (Some base)
  let ?found = "those (map (\<lambda>l. resolve_url parse join l base) (segment_links (rust_lines content)))"
  have run: "playlist_lines parse join base (rust_lines content) (None, []) = (init_url, segment_urls)"
    using assms Some by (simp add: parse_m3u8_def)
  then have segs: "segment_urls = (case ?found of Some found \<Rightarrow> found | None \<Rightarrow> [])"
    using playlist_lines_segments [of parse join base "rust_lines content" None "[]"] by (simp split: option.splits)
  have "\<exists>link. resolve_url parse join link base = Some t" if "t \<in> set_option init_url \<union> set segment_urls" for t
  proof (cases "t \<in> set segment_urls")
    case True
    with segs show ?thesis by (auto split: option.splits dest!: those_in) blast
  next
    case False
    with that have "fst (playlist_lines parse join base (rust_lines content) (None, [])) = Some t"
      unfolding run by simp
    from playlist_lines_init [OF this] show ?thesis by simp
  qed
  then have "\<forall>t \<in> set_option init_url \<union> set segment_urls. \<exists>link u. parse link = Some u \<and> fetchable u \<and> t = pu_text u"
    by (meson resolve_url_fetchable)
  with segs show ?thesis unfolding Some option.case by blast
qed (use assms in \<open>simp add: parse_m3u8_def\<close>)

theorem playlist_stays_outside_witness:
  "let site = \<lambda>t. \<lparr>pu_scheme = lit ''https'', pu_username = [], pu_password = None, pu_host = Some (Domain (lit ''a.io'')), pu_text = t\<rparr>;
       parse = \<lambda>t. Some (site t); join = \<lambda>base t. Some (site (lit ''https://a.io/'' @ t))
   in parse_m3u8 parse join (lit ''#X'' @ 10 # lit ''b'' @ 10 # lit ''c'') (lit ''https://a.io/m'') =
        (None, [lit ''https://a.io/b'', lit ''https://a.io/c'']) \<and>
      (\<exists>link u. parse link = Some u \<and> fetchable u \<and> lit ''https://a.io/c'' = pu_text u)"
proof -
  define site where "site t = \<lparr>pu_scheme = lit ''https'', pu_username = [], pu_password = None,
    pu_host = Some (Domain (lit ''a.io'')), pu_text = t\<rparr>" for t
  define parse where "parse t = Some (site t)" for t
  define join where "join (base :: parsed_url) t = Some (site (lit ''https://a.io/'' @ t))" for base t
  have "outside (Domain (lit ''a.io''))"
    by (simp add: outside_def names_our_own_network_def LOCAL_SUFFIXES_def ends_with_def starts_with_def lit_def to_ascii_lowercase_def is_ascii_uppercase_def)
  then have pub: "public_media parse t = Some (site t)" if "str_len t \<le> 4096" for t
    using that by (simp add: public_media_def reachable_url_def parse_def site_def MAX_URL_LEN_def)
  have run: "parse_m3u8 parse join (lit ''#X'' @ 10 # lit ''b'' @ 10 # lit ''c'') (lit ''https://a.io/m'') =
      (None, [lit ''https://a.io/b'', lit ''https://a.io/c''])"
    by (simp add: parse_m3u8_def pub join_def resolve_url_def rust_lines_def MAP_TAG_def site_def lit_def
        trim_def trim_start_def trim_end_def is_whitespace_def strip_suffix_def strip_prefix_def starts_with_def ends_with_def
        str_len_def utf8_len_def)
  show ?thesis
    using playlist_stays_outside [OF run] run unfolding Let_def site_def parse_def join_def by simp
qed

end
