(* ===== verification/Egress_Fetch.thy ===== *)
theory Egress_Fetch
  imports Media_Target "HOL-Library.AList"
begin

text \<open>
  How the streaming service asks for something outside (\<open>streaming/src/stream/proxy.rs\<close>, \<open>egress.rs\<close>):
  directly, through its own proxy, or through the relay, which runs on the machines of users. A call
  returns the events it caused (requests sent, pauses made) together with its result. What the network
  answers is an argument, one answer per request and attempt; so is the outcome of the race between
  relay and proxy. The crates \<open>url\<close> and \<open>base64\<close> are the arguments \<open>parse\<close> and \<open>b64\<close>.
\<close>

type_synonym headers = "(str \<times> str) list"

section \<open>The region tag\<close>

definition TAG_HEADER :: str where "TAG_HEADER = lit ''x-egress-tag''"
definition API_V2_HOST :: str where "API_V2_HOST = lit ''api-v2.soundcloud.com''"

definition parse_regions :: "str \<Rightarrow> str list" where
  "parse_regions raw =
     foldl (\<lambda>regions piece.
       let tag = map to_ascii_lowercase (trim piece);
           readable = tag \<noteq> [] \<and> (\<forall>c \<in> set tag. is_ascii_alphanumeric c \<or> c = 45 \<or> c = 95)
       in if readable \<and> tag \<notin> set regions then regions @ [tag] else regions) [] (split_at 44 raw)"

definition steered :: "str option \<Rightarrow> headers" where
  "steered region = (case region of Some r \<Rightarrow> [(TAG_HEADER, r)] | None \<Rightarrow> [])"

definition keeps_tag :: "parser \<Rightarrow> headers \<Rightarrow> str \<Rightarrow> bool \<Rightarrow> headers \<times> bool" where
  "keeps_tag parse hs target_url proxy_set =
     (if map_of hs TAG_HEADER = None then (hs, False)
      else let api_v2 = (case parse target_url of Some u \<Rightarrow> host_str u = Some API_V2_HOST | None \<Rightarrow> False)
           in if proxy_set \<and> api_v2 then (hs, True) else (filter (\<lambda>(k, v). k \<noteq> TAG_HEADER) hs, False))"

section \<open>Requests and what comes back\<close>

record request =
  rq_method :: str
  rq_url :: str
  rq_headers :: headers
  rq_body :: "byte list"

datatype event = Over_Http request | Over_Relay request | Slept nat

datatype http_answer = Http_Answer nat headers "str + byte list" | Send_Failed str
datatype relay_answer = Relay_Answer nat headers "byte list" | Relay_Failed str

record net =
  nt_http :: "request \<Rightarrow> nat \<Rightarrow> http_answer"
  nt_relay :: "(request \<Rightarrow> nat \<Rightarrow> relay_answer) option"
  nt_relay_first :: bool
  nt_in_time :: bool
  nt_loser_events :: nat

type_synonym validator = "byte list \<Rightarrow> headers \<Rightarrow> bool"
type_synonym fetch_result = "str + byte list \<times> headers"

definition MAX_RETRIES :: nat where "MAX_RETRIES = 3"
definition RETRY_DELAYS :: "nat list" where "RETRY_DELAYS = [300, 800, 2000]"
definition RELAY_MAX_RETRIES :: nat where "RELAY_MAX_RETRIES = 1"

definition accept_non_empty :: validator where
  "accept_non_empty b hs \<longleftrightarrow> b \<noteq> []"

definition proxy_target :: "(str \<Rightarrow> str) \<Rightarrow> str \<Rightarrow> str \<Rightarrow> headers \<Rightarrow> str \<times> headers" where
  "proxy_target b64 proxy_url target_url extra =
     (if proxy_url = [] then (target_url, extra)
      else (proxy_url, AList.update (lit ''X-Target'') (b64 target_url) extra))"

definition is_track_license :: "str \<Rightarrow> bool" where
  "is_track_license authorization =
     (case split_bytes 7 authorization of
        Some (scheme, _) \<Rightarrow> eq_ignore_ascii_case scheme (lit ''bearer '')
      | None \<Rightarrow> False)"

definition carries_credentials :: "headers \<Rightarrow> bool" where
  "carries_credentials hs \<longleftrightarrow>
     (\<exists>(name, value) \<in> set hs.
        eq_ignore_ascii_case name (lit ''cookie'') \<or>
        (eq_ignore_ascii_case name (lit ''authorization'') \<and> \<not> is_track_license value))"

definition is_retryable_status :: "nat \<Rightarrow> bool" where
  "is_retryable_status status \<longleftrightarrow> status = 421 \<or> status = 429 \<or> (500 \<le> status \<and> status \<le> 599)"

definition status_text :: "nat \<Rightarrow> str" where
  "status_text status = lit ''status '' @ dec status"

section \<open>One way out\<close>

definition retry_pause :: "nat \<Rightarrow> nat \<Rightarrow> event list" where
  "retry_pause attempt retries =
     (if attempt < retries
      then [Slept (if attempt < length RETRY_DELAYS then RETRY_DELAYS ! attempt else 2000)] else [])"

fun http_loop :: "(nat \<Rightarrow> http_answer) \<Rightarrow> request \<Rightarrow> validator \<Rightarrow> nat \<Rightarrow> str \<Rightarrow> nat list \<Rightarrow> event list \<times> fetch_result" where
  "http_loop answers req validate retries last_err [] = ([], Inl last_err)"
| "http_loop answers req validate retries last_err (attempt # later) =
     (let again = (\<lambda>e. let (events, res) = http_loop answers req validate retries e later
                       in (Over_Http req # retry_pause attempt retries @ events, res))
      in case answers attempt of
           Http_Answer status resp_headers body \<Rightarrow>
             if 200 \<le> status \<and> status < 400 then
               (case body of
                  Inr b \<Rightarrow> if validate b resp_headers then ([Over_Http req], Inr (b, resp_headers))
                          else again (lit ''invalid response body'')
                | Inl e \<Rightarrow> again e)
             else if is_retryable_status status then again (status_text status)
             else ([Over_Http req], Inl (status_text status))
         | Send_Failed e \<Rightarrow> again e)"

definition http_get_bytes :: "net \<Rightarrow> str \<Rightarrow> headers \<Rightarrow> validator \<Rightarrow> nat \<Rightarrow> event list \<times> fetch_result" where
  "http_get_bytes net url hs validate retries =
     (let req = \<lparr>rq_method = lit ''GET'', rq_url = url, rq_headers = hs, rq_body = []\<rparr>
      in http_loop (nt_http net req) req validate retries (lit ''fetch failed'') [0..<Suc retries])"

definition via_proxy :: "(str \<Rightarrow> str) \<Rightarrow> net \<Rightarrow> str \<Rightarrow> str \<Rightarrow> headers \<Rightarrow> validator \<Rightarrow> event list \<times> fetch_result" where
  "via_proxy b64 net proxy_url target_url extra validate =
     (let (url, hs) = proxy_target b64 proxy_url target_url extra in http_get_bytes net url hs validate MAX_RETRIES)"

definition via_one_region :: "(str \<Rightarrow> str) \<Rightarrow> net \<Rightarrow> str \<Rightarrow> str \<Rightarrow> headers \<Rightarrow> validator \<Rightarrow> event list \<times> fetch_result" where
  "via_one_region b64 net proxy_url target_url extra validate =
     (let (url, hs) = proxy_target b64 proxy_url target_url extra in http_get_bytes net url hs validate 0)"

definition via_direct :: "net \<Rightarrow> str \<Rightarrow> headers \<Rightarrow> validator \<Rightarrow> event list \<times> fetch_result" where
  "via_direct net target_url extra validate = http_get_bytes net target_url extra validate MAX_RETRIES"

fun relay_loop :: "(nat \<Rightarrow> relay_answer) \<Rightarrow> request \<Rightarrow> validator \<Rightarrow> str \<Rightarrow> nat list \<Rightarrow> event list \<times> fetch_result" where
  "relay_loop answers req validate last_err [] = ([], Inl last_err)"
| "relay_loop answers req validate last_err (attempt # later) =
     (let again = (\<lambda>e. let (events, res) = relay_loop answers req validate e later
                       in (Over_Relay req # (if attempt < RELAY_MAX_RETRIES then [Slept 500] else []) @ events, res))
      in case answers attempt of
           Relay_Answer status resp_headers body \<Rightarrow>
             if 200 \<le> status \<and> status < 400 then
               if validate body resp_headers then ([Over_Relay req], Inr (body, resp_headers))
               else again (lit ''relay invalid response body'')
             else again (lit ''relay status '' @ dec status)
         | Relay_Failed e \<Rightarrow> again e)"

definition via_relay :: "(request \<Rightarrow> nat \<Rightarrow> relay_answer) \<Rightarrow> str \<Rightarrow> headers \<Rightarrow> validator \<Rightarrow> event list \<times> fetch_result" where
  "via_relay relay target_url extra validate =
     (let req = \<lparr>rq_method = lit ''GET'', rq_url = target_url, rq_headers = extra, rq_body = []\<rparr>
      in relay_loop (relay req) req validate (lit ''relay failed'') [0..<Suc RELAY_MAX_RETRIES])"

section \<open>The race between relay and proxy\<close>

text \<open>
  The events of both sides are listed one side after the other. The side that is not waited for to its
  end has sent some of its requests by then: \<open>nt_loser_events\<close> says how many of its events happened.
\<close>

definition or_else :: "str \<Rightarrow> fetch_result \<Rightarrow> fetch_result" where
  "or_else original other = (case other of Inr v \<Rightarrow> Inr v | Inl _ \<Rightarrow> Inl original)"

definition await_other_with_grace ::
    "net \<Rightarrow> event list \<times> fetch_result \<Rightarrow> str \<Rightarrow> event list \<times> fetch_result" where
  "await_other_with_grace net other original_err =
     (if nt_in_time net then (fst other, or_else original_err (snd other))
      else (take (nt_loser_events net) (fst other), Inl original_err))"

definition race_relay_proxy ::
    "(str \<Rightarrow> str) \<Rightarrow> net \<Rightarrow> (request \<Rightarrow> nat \<Rightarrow> relay_answer) \<Rightarrow> str \<Rightarrow> str \<Rightarrow> headers \<Rightarrow> validator
       \<Rightarrow> event list \<times> fetch_result" where
  "race_relay_proxy b64 net relay proxy_url target_url extra validate =
     (let (relay_events, relay_res) = via_relay relay target_url extra validate;
          (proxy_events, proxy_res) = via_proxy b64 net proxy_url target_url extra validate
      in if nt_relay_first net then
           (case relay_res of
              Inr v \<Rightarrow> (relay_events @ take (nt_loser_events net) proxy_events, Inr v)
            | Inl relay_err \<Rightarrow>
                let (events, res) = await_other_with_grace net (proxy_events, proxy_res) relay_err
                in (relay_events @ events, res))
         else
           (case proxy_res of
              Inr v \<Rightarrow> (proxy_events @ take (nt_loser_events net) relay_events, Inr v)
            | Inl proxy_err \<Rightarrow>
                if proxy_err = lit ''status 502'' then (proxy_events @ relay_events, or_else proxy_err relay_res)
                else let (events, res) = await_other_with_grace net (relay_events, relay_res) proxy_err
                     in (proxy_events @ events, res)))"

section \<open>Fetching\<close>

definition fetch_get_validated ::
    "parser \<Rightarrow> (str \<Rightarrow> str) \<Rightarrow> net \<Rightarrow> str \<Rightarrow> str \<Rightarrow> headers \<Rightarrow> bool \<Rightarrow> validator \<Rightarrow> event list \<times> fetch_result" where
  "fetch_get_validated parse b64 net proxy_url target_url extra0 allow_direct validate =
     (let proxy_set = (proxy_url \<noteq> []);
          (extra, is_steered) = keeps_tag parse extra0 target_url proxy_set;
          relay = (if carries_credentials extra \<or> is_steered then None else nt_relay net)
      in if is_steered then via_one_region b64 net proxy_url target_url extra validate
         else if proxy_set then
           (case relay of
              Some r \<Rightarrow> race_relay_proxy b64 net r proxy_url target_url extra validate
            | None \<Rightarrow> via_proxy b64 net proxy_url target_url extra validate)
         else if allow_direct then
           (let (events, res) = via_direct net target_url extra validate
            in case res of
                 Inr v \<Rightarrow> (events, Inr v)
               | Inl e \<Rightarrow>
                   (case relay of
                      Some r \<Rightarrow> let (later, res') = via_relay r target_url extra validate in (events @ later, res')
                    | None \<Rightarrow> (events, Inl e)))
         else
           (case relay of
              Some r \<Rightarrow> via_relay r target_url extra validate
            | None \<Rightarrow> ([], Inl (lit ''no proxy/relay available and direct disallowed''))))"

definition via_relay_post ::
    "(request \<Rightarrow> nat \<Rightarrow> relay_answer) \<Rightarrow> str \<Rightarrow> headers \<Rightarrow> byte list \<Rightarrow> validator \<Rightarrow> event list \<times> fetch_result" where
  "via_relay_post relay target_url extra body validate =
     (let req = \<lparr>rq_method = lit ''POST'', rq_url = target_url, rq_headers = extra, rq_body = body\<rparr>
      in relay_loop (relay req) req validate (lit ''relay failed'') [0..<Suc RELAY_MAX_RETRIES])"

definition http_post_bytes :: "net \<Rightarrow> str \<Rightarrow> headers \<Rightarrow> byte list \<Rightarrow> validator \<Rightarrow> event list \<times> fetch_result" where
  "http_post_bytes net url hs body validate =
     (let req = \<lparr>rq_method = lit ''POST'', rq_url = url, rq_headers = hs, rq_body = body\<rparr>
      in http_loop (nt_http net req) req validate MAX_RETRIES (lit ''post failed'') [0..<Suc MAX_RETRIES])"

definition fetch_post_bytes ::
    "parser \<Rightarrow> (str \<Rightarrow> str) \<Rightarrow> net \<Rightarrow> str \<Rightarrow> str \<Rightarrow> headers \<Rightarrow> byte list \<Rightarrow> event list \<times> fetch_result" where
  "fetch_post_bytes parse b64 net proxy_url target_url extra0 body =
     (let (extra, _) = keeps_tag parse extra0 target_url False;
          relay = (if carries_credentials extra then None else nt_relay net);
          (events, relayed) =
            (case relay of
               Some r \<Rightarrow> (let (events, res) = via_relay_post r target_url extra body accept_non_empty in (events, Some res))
             | None \<Rightarrow> ([], None));
          (url, hs) = proxy_target b64 proxy_url target_url extra;
          (later, res) = http_post_bytes net url hs body accept_non_empty
      in case relayed of
           Some (Inr v) \<Rightarrow> (events, Inr v)
         | Some (Inl e) \<Rightarrow> if proxy_url = [] then (events, Inl e) else (events @ later, res)
         | None \<Rightarrow>
             if proxy_url = [] then ([], Inl (lit ''no proxy/relay available for POST'')) else (later, res))"

definition fetch_get_bytes ::
    "parser \<Rightarrow> (str \<Rightarrow> str) \<Rightarrow> net \<Rightarrow> str \<Rightarrow> str \<Rightarrow> headers \<Rightarrow> bool \<Rightarrow> event list \<times> fetch_result" where
  "fetch_get_bytes parse b64 net proxy_url target_url extra allow_direct =
     fetch_get_validated parse b64 net proxy_url target_url extra allow_direct accept_non_empty"

definition fetch_direct_validated :: "net \<Rightarrow> str \<Rightarrow> headers \<Rightarrow> validator \<Rightarrow> event list \<times> fetch_result" where
  "fetch_direct_validated net target_url extra validate = via_direct net target_url extra validate"

section \<open>What leaves over which way\<close>

lemma http_loop_cases:
  obtains (answered) status hs b where "answers attempt = Http_Answer status hs (Inr b)" "200 \<le> status" "status < 400" "validate b hs"
      "http_loop answers req validate retries e (attempt # later) = ([Over_Http req], Inr (b, hs))"
    | (refused) status where
      "http_loop answers req validate retries e (attempt # later) = ([Over_Http req], Inl (status_text status))"
    | (again) e' where
      "http_loop answers req validate retries e (attempt # later) =
         (Over_Http req # retry_pause attempt retries @ fst (http_loop answers req validate retries e' later),
          snd (http_loop answers req validate retries e' later))"
proof (cases "answers attempt")
  case (Http_Answer status hs body)
  consider (ok) b where "200 \<le> status" "status < 400" "body = Inr b" "validate b hs"
    | (bad) b where "200 \<le> status" "status < 400" "body = Inr b" "\<not> validate b hs"
    | (cut) e' where "200 \<le> status" "status < 400" "body = Inl e'"
    | (retry) "\<not> (200 \<le> status \<and> status < 400)" "is_retryable_status status"
    | (stop) "\<not> (200 \<le> status \<and> status < 400)" "\<not> is_retryable_status status"
    by (cases body) blast+
  then show thesis
  proof cases
    case ok
    with Http_Answer show thesis by (intro answered) simp_all
  next
    case bad
    with Http_Answer show thesis by (intro again [of "lit ''invalid response body''"]) (simp add: split_beta)
  next
    case (cut e')
    with Http_Answer show thesis by (intro again [of e']) (simp add: split_beta)
  next
    case retry
    with Http_Answer show thesis by (intro again [of "status_text status"]) (auto simp: split_beta)
  next
    case stop
    with Http_Answer show thesis by (intro refused [of status]) auto
  qed
next
  case (Send_Failed e')
  then show thesis using again [of e'] by (simp add: Let_def split_beta)
qed

lemma relay_loop_cases:
  obtains (answered) status hs b where "answers attempt = Relay_Answer status hs b" "200 \<le> status" "status < 400" "validate b hs"
      "relay_loop answers req validate e (attempt # later) = ([Over_Relay req], Inr (b, hs))"
    | (again) e' where
      "relay_loop answers req validate e (attempt # later) =
         (Over_Relay req # (if attempt < RELAY_MAX_RETRIES then [Slept 500] else [])
            @ fst (relay_loop answers req validate e' later),
          snd (relay_loop answers req validate e' later))"
proof (cases "answers attempt")
  case (Relay_Answer status hs body)
  consider (ok) "200 \<le> status" "status < 400" "validate body hs"
    | (bad) "200 \<le> status" "status < 400" "\<not> validate body hs" | (refused) "\<not> (200 \<le> status \<and> status < 400)"
    by blast
  then show thesis
  proof cases
    case ok
    with Relay_Answer show thesis by (intro answered) simp_all
  next
    case bad
    with Relay_Answer show thesis by (intro again [of "lit ''relay invalid response body''"]) (simp add: split_beta)
  next
    case refused
    with Relay_Answer show thesis by (intro again [of "lit ''relay status '' @ dec status"]) (auto simp: split_beta)
  qed
next
  case (Relay_Failed e')
  then show thesis using again [of e'] by (simp add: Let_def split_beta)
qed

lemma http_loop_events:
  "ev \<in> set (fst (http_loop answers req validate retries e attempts)) \<Longrightarrow> ev = Over_Http req \<or> (\<exists>ms. ev = Slept ms)"
proof (induction attempts arbitrary: e)
  case (Cons attempt later)
  show ?case
    by (rule http_loop_cases [of answers attempt validate req retries e later])
       (use Cons in \<open>auto simp: retry_pause_def simp del: http_loop.simps split: if_splits\<close>)
qed simp

lemma relay_loop_events:
  "ev \<in> set (fst (relay_loop answers req validate e attempts)) \<Longrightarrow> ev = Over_Relay req \<or> (\<exists>ms. ev = Slept ms)"
proof (induction attempts arbitrary: e)
  case (Cons attempt later)
  show ?case
    by (rule relay_loop_cases [of answers attempt validate req e later])
       (use Cons in \<open>auto simp del: relay_loop.simps split: if_splits\<close>)
qed simp

lemma via_relay_events:
  "ev \<in> set (fst (via_relay relay target_url extra validate)) \<Longrightarrow>
   (\<exists>r. ev = Over_Relay r \<and> rq_headers r = extra) \<or> (\<exists>ms. ev = Slept ms)"
  by (auto simp: via_relay_def Let_def dest: relay_loop_events)

lemma via_relay_post_events:
  "ev \<in> set (fst (via_relay_post relay target_url extra body validate)) \<Longrightarrow>
   (\<exists>r. ev = Over_Relay r \<and> rq_headers r = extra) \<or> (\<exists>ms. ev = Slept ms)"
  by (auto simp: via_relay_post_def Let_def dest: relay_loop_events)

lemma http_get_bytes_events:
  "ev \<in> set (fst (http_get_bytes net url hs validate retries)) \<Longrightarrow>
   (\<exists>r. ev = Over_Http r \<and> rq_url r = url \<and> rq_headers r = hs) \<or> (\<exists>ms. ev = Slept ms)"
  by (auto simp: http_get_bytes_def Let_def dest: http_loop_events)

lemma http_post_bytes_events:
  "ev \<in> set (fst (http_post_bytes net url hs body validate)) \<Longrightarrow>
   (\<exists>r. ev = Over_Http r \<and> rq_url r = url \<and> rq_headers r = hs) \<or> (\<exists>ms. ev = Slept ms)"
  by (auto simp: http_post_bytes_def Let_def dest: http_loop_events)

lemma race_events:
  "ev \<in> set (fst (race_relay_proxy b64 net relay proxy_url target_url extra validate)) \<Longrightarrow>
   ev \<in> set (fst (via_relay relay target_url extra validate)) \<or>
   ev \<in> set (fst (via_proxy b64 net proxy_url target_url extra validate))"
  by (auto simp: race_relay_proxy_def await_other_with_grace_def dest: in_set_takeD split: prod.splits sum.splits if_splits)

lemma proxy_target_tag: "map_of (snd (proxy_target b64 proxy_url target_url extra)) TAG_HEADER = map_of extra TAG_HEADER"
  by (simp add: proxy_target_def update_conv' TAG_HEADER_def lit_def)

lemma via_proxy_events:
  assumes "ev \<in> set (fst (via_proxy b64 net proxy_url target_url extra validate)) \<or>
    ev \<in> set (fst (via_one_region b64 net proxy_url target_url extra validate))"
  shows "(\<exists>r. ev = Over_Http r \<and> (proxy_url \<noteq> [] \<longrightarrow> rq_url r = proxy_url) \<and>
    map_of (rq_headers r) TAG_HEADER = map_of extra TAG_HEADER) \<or> (\<exists>ms. ev = Slept ms)"
  using assms proxy_target_tag [of b64 proxy_url target_url extra]
  by (cases "proxy_target b64 proxy_url target_url extra")
     (auto simp: via_proxy_def via_one_region_def proxy_target_def split: if_splits dest!: http_get_bytes_events)

lemma keeps_tag_cases:
  assumes "keeps_tag parse hs target_url proxy_set = (hs', kept)"
  shows "carries_credentials hs' = carries_credentials hs"
    "kept \<Longrightarrow> proxy_set \<and> (\<exists>u. parse target_url = Some u \<and> host_str u = Some API_V2_HOST)"
    "\<not> kept \<Longrightarrow> map_of hs' TAG_HEADER = None"
proof -
  have "\<not> eq_ignore_ascii_case TAG_HEADER (lit ''cookie'')" "\<not> eq_ignore_ascii_case TAG_HEADER (lit ''authorization'')"
    by (simp_all add: eq_ignore_ascii_case_def TAG_HEADER_def lit_def)
  then have "carries_credentials (filter (\<lambda>(k, v). k \<noteq> TAG_HEADER) hs) = carries_credentials hs"
    by (fastforce simp: carries_credentials_def)
  then show "carries_credentials hs' = carries_credentials hs"
    using assms by (auto simp: keeps_tag_def Let_def split: if_splits)
  show "kept \<Longrightarrow> proxy_set \<and> (\<exists>u. parse target_url = Some u \<and> host_str u = Some API_V2_HOST)"
    using assms by (auto simp: keeps_tag_def Let_def split: if_splits option.splits)
  show "\<not> kept \<Longrightarrow> map_of hs' TAG_HEADER = None"
    using assms by (auto simp: keeps_tag_def Let_def map_of_eq_None_iff split: if_splits)
qed

text \<open>What an event may carry: nothing that identifies an account over the relay, no region tag but to the own proxy.\<close>

definition discreet :: "parser \<Rightarrow> str \<Rightarrow> str \<Rightarrow> event \<Rightarrow> bool" where
  "discreet parse proxy_url target_url ev =
     (case ev of
        Over_Relay r \<Rightarrow> \<not> carries_credentials (rq_headers r) \<and> map_of (rq_headers r) TAG_HEADER = None
      | Over_Http r \<Rightarrow>
          map_of (rq_headers r) TAG_HEADER = None \<or>
          (proxy_url \<noteq> [] \<and> rq_url r = proxy_url \<and>
           (case parse target_url of Some u \<Rightarrow> host_str u = Some API_V2_HOST | None \<Rightarrow> False))
      | Slept _ \<Rightarrow> True)"

lemma discreet_intros:
  "\<not> carries_credentials extra \<Longrightarrow> map_of extra TAG_HEADER = None \<Longrightarrow>
   ev \<in> set (fst (via_relay relay t extra validate)) \<Longrightarrow> discreet parse proxy_url target_url ev"
  "\<not> carries_credentials extra \<Longrightarrow> map_of extra TAG_HEADER = None \<Longrightarrow>
   ev \<in> set (fst (via_relay_post relay t extra body validate)) \<Longrightarrow> discreet parse proxy_url target_url ev"
  "map_of extra TAG_HEADER = None \<Longrightarrow>
   ev \<in> set (fst (via_proxy b64 net p t extra validate)) \<Longrightarrow> discreet parse proxy_url target_url ev"
  "map_of extra TAG_HEADER = None \<Longrightarrow>
   ev \<in> set (fst (via_direct net t extra validate)) \<Longrightarrow> discreet parse proxy_url target_url ev"
  "map_of extra TAG_HEADER = None \<Longrightarrow>
   ev \<in> set (fst (http_post_bytes net url (snd (proxy_target b64 p t extra)) body validate)) \<Longrightarrow> discreet parse proxy_url target_url ev"
      apply (drule via_relay_events, auto simp: discreet_def)[1]
     apply (drule via_relay_post_events, auto simp: discreet_def)[1]
    apply (auto simp: discreet_def dest!: via_proxy_events [OF disjI1])[1]
   apply (auto simp: discreet_def via_direct_def dest!: http_get_bytes_events)[1]
  apply (drule http_post_bytes_events, auto simp: discreet_def proxy_target_tag)
  done

lemma get_routes:
  assumes "keeps_tag parse extra0 target_url (proxy_url \<noteq> []) = (extra, kept)"
    "ev \<in> set (fst (fetch_get_validated parse b64 net proxy_url target_url extra0 allow_direct validate))"
  obtains (region) "kept" "ev \<in> set (fst (via_one_region b64 net proxy_url target_url extra validate))"
    | (proxy) "\<not> kept" "ev \<in> set (fst (via_proxy b64 net proxy_url target_url extra validate))"
    | (direct) "\<not> kept" "ev \<in> set (fst (via_direct net target_url extra validate))"
    | (relay) relay where "\<not> kept" "\<not> carries_credentials extra" "ev \<in> set (fst (via_relay relay target_url extra validate))"
proof -
  have "kept \<and> ev \<in> set (fst (via_one_region b64 net proxy_url target_url extra validate)) \<or>
    \<not> kept \<and> (ev \<in> set (fst (via_proxy b64 net proxy_url target_url extra validate)) \<or>
      ev \<in> set (fst (via_direct net target_url extra validate)) \<or>
      (\<exists>relay. \<not> carries_credentials extra \<and> ev \<in> set (fst (via_relay relay target_url extra validate))))"
    using assms(2) unfolding fetch_get_validated_def Let_def assms(1)
    by (auto split: if_splits option.splits prod.splits sum.splits dest!: race_events)
       (metis fst_conv)+
  then show thesis using that by blast
qed

lemma post_routes:
  assumes "keeps_tag parse extra0 target_url False = (extra, kept)"
    "ev \<in> set (fst (fetch_post_bytes parse b64 net proxy_url target_url extra0 body))"
  obtains (relay) relay where "\<not> carries_credentials extra"
      "ev \<in> set (fst (via_relay_post relay target_url extra body accept_non_empty))"
    | (proxy) url where "ev \<in> set (fst (http_post_bytes net url (snd (proxy_target b64 proxy_url target_url extra)) body accept_non_empty))"
proof -
  have "(\<exists>relay. \<not> carries_credentials extra \<and> ev \<in> set (fst (via_relay_post relay target_url extra body accept_non_empty))) \<or>
    (\<exists>url. ev \<in> set (fst (http_post_bytes net url (snd (proxy_target b64 proxy_url target_url extra)) body accept_non_empty)))"
    using assms(2) unfolding fetch_post_bytes_def Let_def assms(1)
    by (auto split: if_splits option.splits prod.splits sum.splits) (metis fst_conv)+
  then show thesis using that by blast
qed

lemma get_discreet:
  assumes "ev \<in> set (fst (fetch_get_validated parse b64 net proxy_url target_url extra0 allow_direct validate))"
  shows "discreet parse proxy_url target_url ev \<and> (carries_credentials extra0 \<longrightarrow> (\<forall>r. ev \<noteq> Over_Relay r))"
proof -
  obtain extra kept where k: "keeps_tag parse extra0 target_url (proxy_url \<noteq> []) = (extra, kept)" by force
  note tag = keeps_tag_cases [OF k]
  from k assms show ?thesis
  proof (cases rule: get_routes)
    case region
    with tag(2) show ?thesis by (auto simp: discreet_def dest!: via_proxy_events [OF disjI2])
  next
    case proxy
    with tag(3) show ?thesis using discreet_intros(3) via_proxy_events [OF disjI1] by blast
  next
    case direct
    with tag(3) show ?thesis using discreet_intros(4) http_get_bytes_events unfolding via_direct_def by blast
  next
    case (relay relay)
    with tag(3) show ?thesis using discreet_intros(1) tag(1) by blast
  qed
qed

lemma post_discreet:
  assumes "ev \<in> set (fst (fetch_post_bytes parse b64 net proxy_url target_url extra0 body))"
  shows "discreet parse proxy_url target_url ev \<and> (carries_credentials extra0 \<longrightarrow> (\<forall>r. ev \<noteq> Over_Relay r))"
proof -
  obtain extra kept where k: "keeps_tag parse extra0 target_url False = (extra, kept)" by force
  note tag = keeps_tag_cases [OF k]
  from k assms show ?thesis
  proof (cases rule: post_routes)
    case (relay relay)
    with tag show ?thesis using discreet_intros(2) by blast
  next
    case (proxy url)
    with tag show ?thesis using discreet_intros(5) http_post_bytes_events by blast
  qed
qed

text \<open>
  C7. An account never leaves over the machines of users: whatever the network answers and whoever wins
  the race, a request that carries a cookie or an authorization other than a track's bearer licence
  causes no request over the relay, for GET and for POST; every request that does go over the relay
  carries neither of them and no region tag. The tag itself leaves only in requests to the own
  proxy, and only for the API host that understands it.
\<close>

theorem accounts_stay_off_the_relay:
  assumes "ev \<in> set (fst (fetch_get_validated parse b64 net proxy_url target_url extra allow_direct validate)) \<union>
    set (fst (fetch_post_bytes parse b64 net proxy_url target_url extra body))"
  shows "discreet parse proxy_url target_url ev \<and> (carries_credentials extra \<longrightarrow> (\<forall>r. ev \<noteq> Over_Relay r))"
  using assms get_discreet post_discreet by blast

definition witness_net :: net where
  "witness_net = \<lparr>nt_http = (\<lambda>req attempt. if attempt = 0 then Http_Answer 503 [] (Inr []) else Http_Answer 200 [] (Inr [1])),
     nt_relay = Some (\<lambda>req attempt. Relay_Answer 200 [] [1]), nt_relay_first = True, nt_in_time = True, nt_loser_events = 3\<rparr>"

theorem accounts_stay_off_the_relay_witness:
  "let hs = [(lit ''Cookie'', lit ''k'')];
       sent = fst (fetch_get_validated (\<lambda>_. None) id witness_net (lit ''p'') (lit ''t'') hs False accept_non_empty);
       req = \<lparr>rq_method = lit ''GET'', rq_url = lit ''p'', rq_headers = hs @ [(lit ''X-Target'', lit ''t'')], rq_body = []\<rparr>
   in sent = [Over_Http req, Slept 300, Over_Http req] \<and> (\<forall>r. Over_Http req \<noteq> Over_Relay r) \<and>
      discreet (\<lambda>_. None) (lit ''p'') (lit ''t'') (Over_Http req)"
proof -
  let ?hs = "[(lit ''Cookie'', lit ''k'')]"
  let ?req = "\<lparr>rq_method = lit ''GET'', rq_url = lit ''p'', rq_headers = ?hs @ [(lit ''X-Target'', lit ''t'')], rq_body = []\<rparr>"
  have "carries_credentials ?hs"
    by (simp add: carries_credentials_def eq_ignore_ascii_case_def lit_def to_ascii_lowercase_def is_ascii_uppercase_def)
  moreover have "map_of ?hs TAG_HEADER = None" by (simp add: TAG_HEADER_def lit_def)
  ultimately have sent: "fst (fetch_get_validated (\<lambda>_. None) id witness_net (lit ''p'') (lit ''t'') ?hs False accept_non_empty)
      = [Over_Http ?req, Slept 300, Over_Http ?req]"
    by (simp add: fetch_get_validated_def keeps_tag_def via_proxy_def proxy_target_def http_get_bytes_def witness_net_def
        upt_conv_Cons MAX_RETRIES_def is_retryable_status_def retry_pause_def RETRY_DELAYS_def accept_non_empty_def lit_def Let_def)
  then show ?thesis
    using accounts_stay_off_the_relay [of "Over_Http ?req" "\<lambda>_. None" id witness_net "lit ''p''" "lit ''t''" ?hs False accept_non_empty]
    by simp
qed

section \<open>What comes back\<close>

fun is_request :: "event \<Rightarrow> bool" where
  "is_request (Slept _) = False"
| "is_request _ = True"

definition delivered :: "net \<Rightarrow> event list \<Rightarrow> byte list \<Rightarrow> headers \<Rightarrow> bool" where
  "delivered net events b hs \<longleftrightarrow>
     (\<exists>r attempt status. 200 \<le> status \<and> status < 400 \<and>
        (Over_Http r \<in> set events \<and> nt_http net r attempt = Http_Answer status hs (Inr b) \<or>
         Over_Relay r \<in> set events \<and> (\<exists>relay. nt_relay net = Some relay \<and> relay r attempt = Relay_Answer status hs b)))"

definition sound :: "net \<Rightarrow> validator \<Rightarrow> nat \<Rightarrow> event list \<times> fetch_result \<Rightarrow> bool" where
  "sound net validate budget out \<longleftrightarrow>
     length (filter is_request (fst out)) \<le> budget \<and>
     (\<forall>b hs. snd out = Inr (b, hs) \<longrightarrow> validate b hs \<and> delivered net (fst out) b hs)"

lemma http_loop_sound: "sound net validate (length attempts) (http_loop (nt_http net req) req validate retries e attempts)"
proof (induction attempts arbitrary: e)
  case (Cons attempt later)
  show ?case
  proof (rule http_loop_cases [of "nt_http net req" attempt validate req retries e later])
    fix e' assume "http_loop (nt_http net req) req validate retries e (attempt # later) =
      (Over_Http req # retry_pause attempt retries @ fst (http_loop (nt_http net req) req validate retries e' later),
       snd (http_loop (nt_http net req) req validate retries e' later))"
    with Cons.IH [of e'] show ?thesis
      by (fastforce simp: sound_def delivered_def retry_pause_def simp del: http_loop.simps)
  qed (auto simp: sound_def delivered_def simp del: http_loop.simps)
qed (simp add: sound_def)

lemma relay_loop_sound:
  "nt_relay net = Some relay \<Longrightarrow> sound net validate (length attempts) (relay_loop (relay req) req validate e attempts)"
proof (induction attempts arbitrary: e)
  case (Cons attempt later)
  show ?case
  proof (rule relay_loop_cases [of "relay req" attempt validate req e later])
    fix e' assume "relay_loop (relay req) req validate e (attempt # later) =
      (Over_Relay req # (if attempt < RELAY_MAX_RETRIES then [Slept 500] else []) @ fst (relay_loop (relay req) req validate e' later),
       snd (relay_loop (relay req) req validate e' later))"
    with Cons.IH [OF Cons.prems, of e'] show ?thesis
      by (fastforce simp: sound_def delivered_def simp del: relay_loop.simps)
  qed (use Cons.prems in \<open>auto simp: sound_def delivered_def simp del: relay_loop.simps\<close>)
qed (simp add: sound_def)

lemma sound_more: "sound net validate n out \<Longrightarrow> n \<le> m \<Longrightarrow> sound net validate m out"
  by (simp add: sound_def)

lemma delivered_append: "delivered net (xs @ ys) b hs \<longleftrightarrow> delivered net xs b hs \<or> delivered net ys b hs"
  unfolding delivered_def set_append Un_iff by blast

lemma sound_then:
  "sound net validate n (xs, res) \<Longrightarrow> sound net validate m (ys, res') \<Longrightarrow> sound net validate (n + m) (xs @ ys, res')"
  by (auto simp: sound_def delivered_append)

lemma via_sound:
  "sound net validate 4 (via_proxy b64 net proxy_url target_url extra validate)"
  "sound net validate 1 (via_one_region b64 net proxy_url target_url extra validate)"
  "sound net validate 4 (via_direct net target_url extra validate)"
  "nt_relay net = Some relay \<Longrightarrow> sound net validate 2 (via_relay relay target_url extra validate)"
  "sound net validate 4 (http_post_bytes net url hs body validate)"
  "nt_relay net = Some relay \<Longrightarrow> sound net validate 2 (via_relay_post relay target_url extra body validate)"
  unfolding via_proxy_def via_one_region_def via_direct_def via_relay_def http_get_bytes_def http_post_bytes_def
    via_relay_post_def Let_def split_beta
       apply (rule sound_more [OF http_loop_sound]; simp add: MAX_RETRIES_def)
      apply (rule sound_more [OF http_loop_sound]; simp)
     apply (rule sound_more [OF http_loop_sound]; simp add: MAX_RETRIES_def)
    apply (rule sound_more [OF relay_loop_sound]; simp add: RELAY_MAX_RETRIES_def)
   apply (rule sound_more [OF http_loop_sound]; simp add: MAX_RETRIES_def)
  apply (rule sound_more [OF relay_loop_sound]; simp add: RELAY_MAX_RETRIES_def)
  done

lemma requests_take: "length (filter is_request (take n events)) \<le> length (filter is_request events)"
  by (metis append_take_drop_id filter_append le_add1 length_append)

lemma race_sound:
  assumes "sound net validate 2 relayed" "sound net validate 4 proxied"
    "via_relay relay target_url extra validate = relayed" "via_proxy b64 net proxy_url target_url extra validate = proxied"
  shows "sound net validate 6 (race_relay_proxy b64 net relay proxy_url target_url extra validate)"
proof -
  obtain re rr pe pr where out: "relayed = (re, rr)" "proxied = (pe, pr)" by force
  have count: "length (filter is_request (take n re)) \<le> 2" "length (filter is_request (take n pe)) \<le> 4"
for n
    using assms(1,2) requests_take [of n re] requests_take [of n pe] by (auto simp: out sound_def)
  have full: "length (filter is_request re) \<le> 2" "length (filter is_request pe) \<le> 4"
    using assms(1,2) by (auto simp: out sound_def)
  have res: "rr = Inr (b, hs) \<Longrightarrow> validate b hs \<and> delivered net re b hs" "pr = Inr (b, hs) \<Longrightarrow> validate b hs \<and> delivered net pe b hs" for b hs
    using assms(1,2) by (auto simp: out sound_def)
  show ?thesis
    using count [of "nt_loser_events net"] full unfolding race_relay_proxy_def assms(3,4) out
    by (auto simp: sound_def await_other_with_grace_def or_else_def split: sum.splits prod.splits if_splits
        simp: delivered_append dest: res)
qed

lemma get_sound: "sound net validate 6 (fetch_get_validated parse b64 net proxy_url target_url extra allow_direct validate)"
proof -
  obtain hs kept where k: "keeps_tag parse extra target_url (proxy_url \<noteq> []) = (hs, kept)" by force
  have direct: "sound net validate 6 (events @ later, res')"
    if "via_direct net target_url hs validate = (events, res)" "nt_relay net = Some relay"
      "via_relay relay target_url hs validate = (later, res')" for events later res res' relay
    using sound_then [of net validate 4 events res 2 later res'] via_sound(3) [of net validate target_url hs]
      via_sound(4) [OF that(2), of validate target_url hs] that(1,3) by simp
  have alone: "sound net validate 6 out" if "out = via_direct net target_url hs validate" for out
    unfolding that by (rule sound_more [OF via_sound(3)]) simp
  have relay_only: "sound net validate 6 (later, res)"
    if "nt_relay net = Some relay" "via_relay relay target_url hs validate = (later, res)" for later res relay
    using sound_more [OF via_sound(4) [OF that(1), of validate target_url hs], of 6] that(2) by simp
  show ?thesis
    unfolding fetch_get_validated_def Let_def k
    by (auto split: option.splits prod.splits sum.splits intro!: race_sound [OF via_sound(4) via_sound(1) refl refl]
        intro: sound_more [OF via_sound(1)] sound_more [OF via_sound(2)] relay_only direct alone)
       (simp_all add: sound_def)
qed

lemma post_sound: "sound net accept_non_empty 6 (fetch_post_bytes parse b64 net proxy_url target_url extra body)"
proof -
  obtain hs kept where k: "keeps_tag parse extra target_url False = (hs, kept)" by force
  have relayed: "sound net accept_non_empty 2 (events, res)"
    if "nt_relay net = Some relay" "via_relay_post relay target_url hs body accept_non_empty = (events, res)" for relay events res
    using via_sound(6) [OF that(1), of accept_non_empty target_url hs body] that(2) by simp
  have proxied: "sound net accept_non_empty 4 (events, res)" if "http_post_bytes net url h body accept_non_empty = (events, res)" for events res url h
    using via_sound(5) [of net accept_non_empty url h body] that by simp
  have alone: "sound net accept_non_empty 6 (events, res)"
    if "nt_relay net = Some relay \<and> via_relay_post relay target_url hs body accept_non_empty = (events, res) \<or>
      http_post_bytes net url h body accept_non_empty = (events, res)" for relay events res url h
    using that by (auto intro: sound_more [OF relayed] sound_more [OF proxied])
  have both: "sound net accept_non_empty 6 (events @ later, res)"
    if "nt_relay net = Some relay" "via_relay_post relay target_url hs body accept_non_empty = (events, Inl e)"
      "http_post_bytes net url h body accept_non_empty = (later, res)" for relay events later res url h e
    using sound_then [OF relayed [OF that(1,2)] proxied [OF that(3)]] by simp
  show ?thesis
    unfolding fetch_post_bytes_def Let_def k
    by (auto split: option.splits prod.splits sum.splits intro: alone both sound_more [OF via_sound(5)]) (simp_all add: sound_def)
qed

text \<open>The contract a client of this theory relies on, and the two ways of fetching that keep it.\<close>

locale validated_fetch =
  fixes net :: net and budget :: nat and fetch :: "validator \<Rightarrow> event list \<times> fetch_result"
  assumes keeps_contract: "sound net validate budget (fetch validate)"
begin

lemma returned_valid: "snd (fetch validate) = Inr (b, hs) \<Longrightarrow> validate b hs"
  using keeps_contract [of validate] by (simp add: sound_def)

lemma returned_delivered: "snd (fetch validate) = Inr (b, hs) \<Longrightarrow> delivered net (fst (fetch validate)) b hs"
  using keeps_contract [of validate] by (simp add: sound_def)

end

interpretation get_fetch: validated_fetch net 6
    "\<lambda>validate. fetch_get_validated parse b64 net proxy_url target_url extra allow_direct validate"
  for net parse b64 proxy_url target_url extra allow_direct
  by unfold_locales (rule get_sound)

interpretation direct_fetch: validated_fetch net 4 "\<lambda>validate. fetch_direct_validated net target_url extra validate"
  for net target_url extra
  by unfold_locales (simp add: fetch_direct_validated_def via_sound)

text \<open>
  C20. Only what was asked for and checked is handed on: a fetch sends at most six requests, and the
  body it returns was the body of an answer with a success status to one of the requests it sent, and the validator
  accepted it with the headers it came with. The same holds of a POST and its check that the body is not empty.
\<close>

theorem fetched_bodies_are_validated:
  "sound net validate 6 (fetch_get_validated parse b64 net proxy_url target_url extra allow_direct validate) \<and>
   sound net accept_non_empty 6 (fetch_post_bytes parse b64 net proxy_url target_url extra body)"
  by (rule conjI [OF get_sound post_sound])

end
