(* ===== verification/Hls_Download.thy ===== *)
theory Hls_Download
  imports Egress_Fetch "HOL-Library.Multiset"
begin

text \<open>
  Downloading a track (\<open>streaming/src/stream/hls.rs\<close>, \<open>validate.rs\<close>): what counts as audio, as a
  playlist and as an encrypted container, and the download of an HLS playlist, whose segments are
  fetched three at a time and whose failed segments are tried again from a playlist resolved afresh.
  The world of a download is a record of arguments: what the network answers each call, in which order
  the segments of a round finish, what the relay's own download returned and what a refresh yields.
\<close>

section \<open>Text from bytes\<close>

text \<open>
  \<open>String::from_utf8_lossy\<close>: what does not begin a character is replaced, together with the bytes after it
  that continue it correctly as far as they do.
\<close>

definition second_fits :: "byte \<Rightarrow> byte \<Rightarrow> bool" where
  "second_fits b0 b1 \<longleftrightarrow>
     (b0 = 0xE0 \<and> 0xA0 \<le> b1 \<and> b1 \<le> 0xBF) \<or> (0xE1 \<le> b0 \<and> b0 \<le> 0xEC \<and> 0x80 \<le> b1 \<and> b1 \<le> 0xBF) \<or>
     (b0 = 0xED \<and> 0x80 \<le> b1 \<and> b1 \<le> 0x9F) \<or> (0xEE \<le> b0 \<and> b0 \<le> 0xEF \<and> 0x80 \<le> b1 \<and> b1 \<le> 0xBF) \<or>
     (b0 = 0xF0 \<and> 0x90 \<le> b1 \<and> b1 \<le> 0xBF) \<or> (0xF1 \<le> b0 \<and> b0 \<le> 0xF3 \<and> 0x80 \<le> b1 \<and> b1 \<le> 0xBF) \<or>
     (b0 = 0xF4 \<and> 0x80 \<le> b1 \<and> b1 \<le> 0x8F)"

definition bad_len :: "byte list \<Rightarrow> nat" where
  "bad_len bs =
     (case bs of
        b0 # b1 # b2 # _ \<Rightarrow>
          if \<not> second_fits b0 b1 then 1
          else if 0xF0 \<le> b0 \<and> 0x80 \<le> b2 \<and> b2 \<le> 0xBF then 3 else 2
      | b0 # b1 # _ \<Rightarrow> if second_fits b0 b1 then 2 else 1
      | _ \<Rightarrow> 1)"

lemma bad_len_positive: "0 < bad_len bs"
  by (simp add: bad_len_def split: list.splits)

function from_utf8_lossy :: "byte list \<Rightarrow> str" where
  "from_utf8_lossy bs =
     (if bs = [] then []
      else case utf8_head bs of
        Some (c, rest) \<Rightarrow> c # from_utf8_lossy rest
      | None \<Rightarrow> 0xFFFD # from_utf8_lossy (drop (bad_len bs) bs))"
  by pat_completeness auto
termination
  by (relation "measure length") (auto dest!: utf8_head_Some simp: bad_len_positive)

declare from_utf8_lossy.simps [simp del]

lemma lossy_of_text: "from_utf8 bs = Some s \<Longrightarrow> from_utf8_lossy bs = s"
proof (induction bs arbitrary: s rule: from_utf8.induct)
  case (1 bs)
  then show ?case
    by (auto simp: from_utf8.simps [of bs] from_utf8_lossy.simps [of bs] split: if_splits option.splits)
qed

section \<open>What a body is\<close>

definition is_ascii_whitespace :: "byte \<Rightarrow> bool" where
  "is_ascii_whitespace b \<longleftrightarrow> b \<in> {9, 10, 12, 13, 32}"

definition trim_ascii_start :: "byte list \<Rightarrow> byte list" where
  "trim_ascii_start bytes = dropWhile is_ascii_whitespace bytes"

definition looks_like_error_doc :: "byte list \<Rightarrow> bool" where
  "looks_like_error_doc bytes = (case trim_ascii_start bytes of b # _ \<Rightarrow> b \<in> {123, 91, 60} | [] \<Rightarrow> False)"

definition is_valid_audio :: "byte list \<Rightarrow> bool" where
  "is_valid_audio bytes \<longleftrightarrow> bytes \<noteq> [] \<and> \<not> looks_like_error_doc bytes"

definition PROTECTED :: "byte list list" where
  "PROTECTED = [lit ''enca'', lit ''encv'', lit ''sinf'']"

definition names_protection :: "byte list \<Rightarrow> bool" where
  "names_protection region = list_ex (\<lambda>i. take 4 (drop i region) \<in> set PROTECTED) [0..<length region - 3]"

function encrypted_from :: "byte list \<Rightarrow> nat \<Rightarrow> bool" where
  "encrypted_from bytes pos =
     (if length bytes < pos + 8 then False
      else let header = take 8 (drop pos bytes); size = from_be (take 4 header)
           in if 1 \<le> size \<and> size \<le> 7 then False
              else let ending = (if size = 0 then length bytes else min (pos + size) (length bytes))
                   in if drop 4 header = lit ''moov'' then names_protection (take (ending - pos) (drop pos bytes))
                      else encrypted_from bytes ending)"
  by pat_completeness auto
termination
  by (relation "measure (\<lambda>(bytes, pos). length bytes - pos)") auto

declare encrypted_from.simps [simp del]

definition is_encrypted_mp4 :: "byte list \<Rightarrow> bool" where
  "is_encrypted_mp4 bytes = encrypted_from bytes 0"

definition is_valid_m3u8 :: "byte list \<Rightarrow> bool" where
  "is_valid_m3u8 bytes \<longleftrightarrow>
     bytes \<noteq> [] \<and> contains_text (from_utf8_lossy (take (min (length bytes) 64) bytes)) (lit ''#EXTM3U'')"

definition mime_to_content_type :: "str \<Rightarrow> str" where
  "mime_to_content_type mime =
     (if mime = lit ''audio/mpeg'' \<or> mime = lit ''audio/mpegurl'' then lit ''audio/mpeg''
      else if contains_text mime (lit ''mp4a'') then lit ''audio/mp4''
      else if contains_text mime (lit ''opus'') then lit ''audio/ogg''
      else lit ''application/octet-stream'')"

section \<open>The download\<close>

datatype call = Playlist_Call | Init_Call | Body_Call | Segment_Call nat nat

record hls_world =
  hw_parse :: parser
  hw_join :: "parsed_url \<Rightarrow> str \<Rightarrow> parsed_url option"
  hw_b64 :: "str \<Rightarrow> str"
  hw_net :: "call \<Rightarrow> net"
  hw_finish :: "nat \<Rightarrow> nat \<Rightarrow> nat"
  hw_relayed :: "byte list option"
  hw_refresh :: "(nat \<Rightarrow> str + segment_source) option"
  hw_proxy_url :: str
  hw_direct_only :: bool

definition fetch_validated ::
    "hls_world \<Rightarrow> call \<Rightarrow> str \<Rightarrow> headers \<Rightarrow> (byte list \<Rightarrow> bool) \<Rightarrow> str + byte list" where
  "fetch_validated w call target_url hs valid =
     (case snd (if hw_direct_only w then fetch_direct_validated (hw_net w call) target_url hs (\<lambda>b _. valid b)
                else fetch_get_validated (hw_parse w) (hw_b64 w) (hw_net w call) (hw_proxy_url w) target_url hs False
                       (\<lambda>b _. valid b)) of
        Inr (data, _) \<Rightarrow> Inr data
      | Inl e \<Rightarrow> Inl e)"

text \<open>The relay's own download: \<open>hw_relayed\<close> is the audio of an answer that reports success and decodes.\<close>

definition audio_via_relay :: "hls_world \<Rightarrow> byte list option" where
  "audio_via_relay w =
     (case hw_relayed w of Some audio \<Rightarrow> if is_encrypted_mp4 audio then None else Some audio | None \<Rightarrow> None)"

definition plausible :: "byte list \<Rightarrow> bool" where
  "plausible audio = (case audio of b # _ \<Rightarrow> b \<notin> {123, 91, 60, 32} | [] \<Rightarrow> False)"

definition fetch_m3u8_source :: "hls_world \<Rightarrow> str \<Rightarrow> headers \<Rightarrow> str + segment_source" where
  "fetch_m3u8_source w m3u8_url hs =
     (case fetch_validated w Playlist_Call m3u8_url hs is_valid_m3u8 of
        Inl e \<Rightarrow> Inl e
      | Inr data \<Rightarrow>
          let source = parse_m3u8 (hw_parse w) (hw_join w) (from_utf8_lossy data) m3u8_url
          in if snd source = [] then Inl (lit ''no segments found in m3u8'') else Inr source)"

definition download_progressive :: "hls_world \<Rightarrow> str \<Rightarrow> str \<Rightarrow> headers \<Rightarrow> str + byte list \<times> str" where
  "download_progressive w url mime_type hs =
     (let fetched = (case fetch_validated w Body_Call url hs is_valid_audio of
                       Inl e \<Rightarrow> Inl e | Inr data \<Rightarrow> Inr (data, mime_to_content_type mime_type))
      in if hw_direct_only w then fetched
         else case audio_via_relay w of
                Some audio \<Rightarrow>
                  if plausible audio \<and> \<not> is_encrypted_mp4 audio then Inr (audio, mime_to_content_type mime_type) else fetched
              | None \<Rightarrow> fetched)"

definition MAX_M3U8_REFRESH :: nat where "MAX_M3U8_REFRESH = 2"

definition fetch_segment :: "hls_world \<Rightarrow> nat \<Rightarrow> str list \<Rightarrow> nat \<Rightarrow> str + byte list" where
  "fetch_segment w turn segment_urls idx = fetch_validated w (Segment_Call turn idx) (segment_urls ! idx) [] is_valid_audio"

text \<open>\<open>buffer_unordered\<close> yields the results in the order in which the fetches finish.\<close>

definition fetch_segment_batch ::
    "hls_world \<Rightarrow> nat \<Rightarrow> str list \<Rightarrow> nat list \<Rightarrow> byte list option list \<Rightarrow> byte list option list \<times> nat list" where
  "fetch_segment_batch w turn segment_urls indices results =
     foldl (\<lambda>(results, failed) idx.
       case fetch_segment w turn segment_urls idx of
         Inr data \<Rightarrow> (results[idx := Some data], failed)
       | Inl e \<Rightarrow> (results, failed @ [idx])) (results, []) (sort_key (hw_finish w turn) indices)"

definition pending :: "'a option list \<Rightarrow> nat list" where
  "pending results = filter (\<lambda>i. results ! i = None) [0..<length results]"

text \<open>A round in closed form: it fills what it fetched and names the rest, in whatever order they finish.\<close>

lemma batch_fold:
  assumes "\<forall>i \<in> set order. i < length results"
  shows "foldl (\<lambda>(results, failed) idx.
       case f idx of Inr data \<Rightarrow> (results[idx := Some data], failed) | Inl e \<Rightarrow> (results, failed @ [idx])) (results, failed) order =
     (map (\<lambda>i. if i \<in> set order then (case f i of Inr data \<Rightarrow> Some data | Inl _ \<Rightarrow> results ! i) else results ! i) [0..<length results],
      failed @ filter (\<lambda>i. isl (f i)) order)"
  using assms
proof (induction order arbitrary: results failed)
  case Nil
  then show ?case by (simp add: map_nth)
next
  case (Cons idx order)
  then show ?case
    by (cases "f idx") (auto simp: nth_list_update split: sum.splits)
qed

lemma pending_iff: "i \<in> set (pending results) \<longleftrightarrow> i < length results \<and> results ! i = None"
  by (auto simp: pending_def)

lemma fetch_segment_batch_pending:
  "fetch_segment_batch w turn segment_urls (pending results) results =
     (map (\<lambda>i. case results ! i of
               Some data \<Rightarrow> Some data
             | None \<Rightarrow> (case fetch_segment w turn segment_urls i of Inr data \<Rightarrow> Some data | Inl _ \<Rightarrow> None)) [0..<length results],
      filter (\<lambda>i. isl (fetch_segment w turn segment_urls i)) (sort_key (hw_finish w turn) (pending results)))"
  unfolding fetch_segment_batch_def
  by (subst batch_fold) (auto simp: pending_iff split: sum.splits option.splits)

lemma nothing_failed:
  assumes "fetch_segment_batch w turn segment_urls (pending results) results = (results', [])"
  shows "pending results' = []"
proof -
  have got: "\<not> isl (fetch_segment w turn segment_urls i)" if "i < length results" "results ! i = None" for i
    using assms that by (auto simp: fetch_segment_batch_pending filter_empty_conv pending_iff)
  have "results' = map (\<lambda>i. case results ! i of
      Some data \<Rightarrow> Some data
    | None \<Rightarrow> (case fetch_segment w turn segment_urls i of Inr data \<Rightarrow> Some data | Inl _ \<Rightarrow> None)) [0..<length results]"
    using assms by (simp add: fetch_segment_batch_pending)
  with got have "i \<notin> set (pending results')" for i
    by (cases "fetch_segment w turn segment_urls i") (force simp: pending_iff split: option.splits)+
  then show ?thesis by (metis last_in_set)
qed

function hls_rounds :: "hls_world \<Rightarrow> str list \<Rightarrow> byte list option list \<Rightarrow> nat \<Rightarrow> str + byte list option list" where
  "hls_rounds w segment_urls results refreshes_used =
     (if pending results = [] then Inr results
      else let (results', failed) = fetch_segment_batch w refreshes_used segment_urls (pending results) results
           in if failed = [] then hls_rounds w segment_urls results' refreshes_used
              else case hw_refresh w of
                None \<Rightarrow> Inl (lit ''hls: '' @ dec (length failed) @ lit '' segment(s) unrecoverable'')
              | Some refresher \<Rightarrow>
                  if MAX_M3U8_REFRESH \<le> refreshes_used then Inl (lit ''hls: segments still failing after m3u8 refresh'')
                  else case refresher refreshes_used of
                    Inl e \<Rightarrow> Inl e
                  | Inr (_, fresh_segments) \<Rightarrow>
                      if length fresh_segments \<noteq> length segment_urls
                      then Inl (lit ''hls: refreshed playlist has a different segment count'')
                      else hls_rounds w fresh_segments results' (refreshes_used + 1))"
  by pat_completeness auto
termination
proof (relation "measure (\<lambda>(w, segment_urls, results, used). 2 * (3 - used) + (if pending results = [] then 0 else 1))")
qed (auto simp: MAX_M3U8_REFRESH_def dest!: nothing_failed [OF sym])

declare hls_rounds.simps [simp del]

definition fetch_init :: "hls_world \<Rightarrow> str option \<Rightarrow> str + byte list" where
  "fetch_init w init_url =
     (case init_url of
        None \<Rightarrow> Inr []
      | Some init \<Rightarrow>
          and_then (fetch_validated w Init_Call init [] is_valid_audio) (\<lambda>data.
            if is_encrypted_mp4 data then Inl (lit ''unsupported stream'') else Inr data))"

definition playlist_download :: "hls_world \<Rightarrow> str \<Rightarrow> headers \<Rightarrow> str + byte list" where
  "playlist_download w m3u8_url hs =
     and_then (fetch_m3u8_source w m3u8_url hs) (\<lambda>(init_url, segment_urls).
     and_then (fetch_init w init_url) (\<lambda>buf.
     and_then (hls_rounds w segment_urls (replicate (length segment_urls) None) 0) (\<lambda>results.
       Inr (buf @ concat (map the (filter (\<lambda>c. c \<noteq> None) results))))))"

definition download_hls :: "hls_world \<Rightarrow> str \<Rightarrow> str \<Rightarrow> headers \<Rightarrow> str + byte list \<times> str" where
  "download_hls w m3u8_url mime_type hs =
     (let own = and_then (playlist_download w m3u8_url hs) (\<lambda>bytes. Inr (bytes, mime_to_content_type mime_type))
      in if hw_direct_only w then own
         else case audio_via_relay w of
                Some audio \<Rightarrow> if plausible audio then Inr (audio, mime_to_content_type mime_type) else own
              | None \<Rightarrow> own)"

section \<open>Encrypted containers\<close>

definition mp4_box :: "byte list \<times> byte list \<Rightarrow> byte list" where
  "mp4_box box = be_bytes 4 (length (snd box) + 8) @ fst box @ snd box"

lemma encrypted_from_box:
  assumes "length kind = 4" "length body + 8 < 2 ^ 32"
  shows "encrypted_from (front @ mp4_box (kind, body) @ rest) (length front) =
    (if kind = lit ''moov'' then names_protection (mp4_box (kind, body))
     else encrypted_from ((front @ mp4_box (kind, body)) @ rest) (length (front @ mp4_box (kind, body))))"
proof -
  define bytes where "bytes = front @ mp4_box (kind, body) @ rest"
  have len: "length (mp4_box (kind, body)) = length body + 8" using assms(1) by (simp add: mp4_box_def)
  have header: "take 8 (drop (length front) bytes) = be_bytes 4 (length body + 8) @ kind"
    using assms(1) by (simp add: bytes_def mp4_box_def)
  have size: "from_be (be_bytes 4 (length body + 8)) = length body + 8"
    using assms(2) by (simp add: from_be_bytes)
  have region: "take (length body + 8) (drop (length front) bytes) = mp4_box (kind, body)" by (simp add: bytes_def len)
  have long: "length front + (length body + 8) \<le> length bytes" by (simp add: bytes_def len)
  have "encrypted_from bytes (length front) =
    (if kind = lit ''moov'' then names_protection (take (length body + 8) (drop (length front) bytes))
     else encrypted_from bytes (length front + (length body + 8)))"
    using long by (simp add: encrypted_from.simps [of bytes "length front"] header size Let_def min_def)
  then show ?thesis unfolding region by (simp add: bytes_def len)
qed

text \<open>
  The test for encryption looks where the format puts it: of a file that is a sequence of boxes, each
  with a kind of four bytes and a size that fits, it answers whether the first \<open>moov\<close> box names a protected
  sample entry or scheme, and no if there is no such box. What other boxes contain, the audio itself
  included, never counts.
\<close>

theorem encrypted_means_first_moov:
  assumes "\<forall>(kind, body) \<in> set boxes. length kind = 4 \<and> length body + 8 < 2 ^ 32"
  shows "is_encrypted_mp4 (concat (map mp4_box boxes)) =
    (case find (\<lambda>(kind, body). kind = lit ''moov'') boxes of Some box \<Rightarrow> names_protection (mp4_box box) | None \<Rightarrow> False)"
proof -
  have "encrypted_from (front @ concat (map mp4_box boxes)) (length front) =
    (case find (\<lambda>(kind, body). kind = lit ''moov'') boxes of Some box \<Rightarrow> names_protection (mp4_box box) | None \<Rightarrow> False)" for front
    using assms
  proof (induction boxes arbitrary: front)
    case Nil
    show ?case by (simp add: encrypted_from.simps)
  next
    case (Cons box boxes)
    obtain kind body where box: "box = (kind, body)" by force
    with Cons.prems have "length kind = 4" "length body + 8 < 2 ^ 32" by auto
    from encrypted_from_box [OF this, of front "concat (map mp4_box boxes)"] Cons.IH [of "front @ mp4_box box"] Cons.prems
    show ?case by (simp add: box)
  qed
  from this [of "[]"] show ?thesis by (simp add: is_encrypted_mp4_def)
qed

theorem encrypted_means_first_moov_witness:
  "is_encrypted_mp4 (concat (map mp4_box [(lit ''ftyp'', [1]), (lit ''moov'', lit ''enca''), (lit ''mdat'', [2])])) \<and>
   \<not> is_encrypted_mp4 (concat (map mp4_box [(lit ''mdat'', lit ''enca''), (lit ''moov'', [3])]))"
  using encrypted_means_first_moov [of "[(lit ''ftyp'', [1]), (lit ''moov'', lit ''enca''), (lit ''mdat'', [2])]"]
    encrypted_means_first_moov [of "[(lit ''mdat'', lit ''enca''), (lit ''moov'', [3])]"]
  by (simp add: lit_def mp4_box_def names_protection_def PROTECTED_def be_bytes_def upt_conv_Cons)

section \<open>A track is its playlist\<close>

text \<open>The segments by turn: those of the playlist first, then those of each refresh.\<close>

definition links_of :: "hls_world \<Rightarrow> str list \<Rightarrow> nat \<Rightarrow> str list" where
  "links_of w segment_urls turn =
     (if turn = 0 then segment_urls
      else case hw_refresh w of
        None \<Rightarrow> []
      | Some refresher \<Rightarrow> (case refresher (turn - 1) of Inr (_, fresh) \<Rightarrow> fresh | Inl _ \<Rightarrow> []))"

definition from_turns :: "hls_world \<Rightarrow> str list \<Rightarrow> nat \<Rightarrow> nat \<Rightarrow> byte list \<Rightarrow> bool" where
  "from_turns w segment_urls last_turn i data \<longleftrightarrow>
     (\<exists>turn \<le> last_turn. i < length (links_of w segment_urls turn) \<and>
        fetch_segment w turn (links_of w segment_urls turn) i = Inr data)"

lemma from_turns_mono: "from_turns w urls m i data \<Longrightarrow> m \<le> n \<Longrightarrow> from_turns w urls n i data"
  unfolding from_turns_def using order_trans by blast

lemma batch_nth:
  assumes "fetch_segment_batch w turn urls (pending results) results = (results', failed)"
  shows "length results' = length results"
    "i < length results \<Longrightarrow> results' ! i = (case results ! i of
       Some data \<Rightarrow> Some data
     | None \<Rightarrow> (case fetch_segment w turn urls i of Inr data \<Rightarrow> Some data | Inl _ \<Rightarrow> None))"
    "i \<in> set failed \<longleftrightarrow> i < length results \<and> results ! i = None \<and> isl (fetch_segment w turn urls i)"
  using assms unfolding fetch_segment_batch_pending
  by (auto simp: pending_iff nth_append split: option.split)

lemma batch_results:
  assumes "fetch_segment_batch w turn urls (pending results) results = (results', failed)" "i < length results"
  shows "results' ! i = Some data \<Longrightarrow> results ! i = Some data \<or> fetch_segment w turn urls i = Inr data"
    "results' ! i = None \<longleftrightarrow> i \<in> set failed"
  unfolding batch_nth(2) [OF assms] batch_nth(3) [OF assms(1)] using assms(2)
  by (cases "fetch_segment w turn urls i"; cases "results ! i"; simp)+

lemma hls_rounds_sound:
  assumes "hls_rounds w segment_urls results used = Inr out" "segment_urls = links_of w urls used" "used \<le> 2"
    "length results = length segment_urls" "\<forall>i data. i < length results \<longrightarrow> results ! i = Some data \<longrightarrow> from_turns w urls used i data"
  shows "length out = length results \<and> (\<forall>i < length out. \<exists>data. out ! i = Some data \<and> from_turns w urls 2 i data)"
  using assms
proof (induction w segment_urls results used rule: hls_rounds.induct)
  case (1 w segment_urls results used)
  show ?case
  proof (cases "pending results = []")
    case True
    then have "\<exists>data. results ! i = Some data" if "i < length results" for i
      using that pending_iff [of i results] by auto
    moreover have "out = results" using "1.prems"(1) True by (simp add: hls_rounds.simps [of w segment_urls results used])
    ultimately show ?thesis using "1.prems"(3,5) from_turns_mono by blast
  next
    case False
    obtain results' failed where b: "fetch_segment_batch w used segment_urls (pending results) results = (results', failed)" by force
    have res: "length results' = length results" by (rule batch_nth [OF b])
    have now: "from_turns w urls used i data" if "i < length results'" "results' ! i = Some data" for i data
      using res batch_results(1) [OF b, of i data] that "1.prems"(2,4,5) by (auto simp: from_turns_def)
    show ?thesis
    proof (cases "failed = []")
      case True
      then have "hls_rounds w segment_urls results' used = Inr out"
        using "1.prems"(1) False b by (simp add: hls_rounds.simps [of w segment_urls results used])
      then show ?thesis
        using "1.IH"(1) [OF False b [symmetric] refl True _ "1.prems"(2,3)] now res "1.prems"(4) by simp
    next
      case failed: False
      then obtain refresher x fresh where f: "hw_refresh w = Some refresher" "\<not> MAX_M3U8_REFRESH \<le> used" "refresher used = Inr (x, fresh)"
          "length fresh = length segment_urls" "hls_rounds w fresh results' (used + 1) = Inr out"
        using "1.prems"(1) b False
        by (auto simp: hls_rounds.simps [of w segment_urls results used] split: option.splits if_splits sum.splits)
      have "fresh = links_of w urls (used + 1)" using f by (simp add: links_of_def)
      moreover have "from_turns w urls (used + 1) i data" if "i < length results'" "results' ! i = Some data" for i data
        using from_turns_mono [OF now [OF that]] by simp
      ultimately show ?thesis
        using "1.IH"(2) [OF False b [symmetric] refl failed f(1,2,3) refl] f(2,4,5) res "1.prems"(4)
        by (simp add: MAX_M3U8_REFRESH_def)
    qed
  qed
qed

lemma all_some: "\<forall>i < length out. \<exists>data. out ! i = Some data \<Longrightarrow> filter (\<lambda>c. c \<noteq> None) out = out"
  by (rule filter_True) (force simp: in_set_conv_nth)

lemma fetch_validated_valid:
  assumes "fetch_validated w call url hs valid = Inr data"
  shows "valid data"
proof -
  obtain h where "snd (if hw_direct_only w then fetch_direct_validated (hw_net w call) url hs (\<lambda>b _. valid b)
      else fetch_get_validated (hw_parse w) (hw_b64 w) (hw_net w call) (hw_proxy_url w) url hs False (\<lambda>b _. valid b)) = Inr (data, h)"
    using assms by (fastforce simp: fetch_validated_def split: sum.split_asm)
  then show ?thesis
    by (auto dest: get_fetch.returned_valid direct_fetch.returned_valid split: if_splits)
qed

text \<open>What a finished download of a playlist consists of: the initialisation segment, then one piece per link.\<close>

definition assembled :: "hls_world \<Rightarrow> segment_source \<Rightarrow> byte list \<Rightarrow> bool" where
  "assembled w source bytes \<longleftrightarrow>
     (\<exists>front chunks.
        fetch_init w (fst source) = Inr front \<and> length chunks = length (snd source) \<and>
        (\<forall>i < length chunks. is_valid_audio (chunks ! i) \<and> from_turns w (snd source) MAX_M3U8_REFRESH i (chunks ! i)) \<and>
        bytes = front @ concat chunks)"

lemma own_download:
  assumes "hls_rounds w urls (replicate (length urls) None) 0 = Inr out" "fetch_init w init = Inr front"
  shows "assembled w (init, urls) (front @ concat (map the (filter (\<lambda>c. c \<noteq> None) out)))"
proof -
  have out: "length out = length urls \<and> (\<forall>i < length out. \<exists>data. out ! i = Some data \<and> from_turns w urls 2 i data)"
    using hls_rounds_sound [OF assms(1), of urls] by (simp add: links_of_def)
  then have all: "filter (\<lambda>c. c \<noteq> None) out = out" by (blast intro: all_some)
  have "is_valid_audio (map the out ! i) \<and> from_turns w urls 2 i (map the out ! i)" if i: "i < length out" for i
  proof -
    obtain data where d: "out ! i = Some data" "from_turns w urls 2 i data" using out i by blast
    then have "is_valid_audio data" by (auto simp: from_turns_def fetch_segment_def dest: fetch_validated_valid)
    with d i show ?thesis by simp
  qed
  with out assms(2) show ?thesis
    unfolding assembled_def MAX_M3U8_REFRESH_def all by (intro exI [of _ front] exI [of _ "map the out"]) simp
qed

lemma playlist_download_assembled:
  assumes "playlist_download w m3u8_url hs = Inr bytes"
  shows "\<exists>source. fetch_m3u8_source w m3u8_url hs = Inr source \<and> snd source \<noteq> [] \<and> assembled w source bytes"
proof -
  obtain init urls front out where
    s: "fetch_m3u8_source w m3u8_url hs = Inr (init, urls)" "fetch_init w init = Inr front"
      "hls_rounds w urls (replicate (length urls) None) 0 = Inr out"
      "bytes = front @ concat (map the (filter (\<lambda>c. c \<noteq> None) out))"
    using assms by (auto simp: playlist_download_def and_then_eq_Inr)
  have "urls \<noteq> []" using s(1) by (auto simp: fetch_m3u8_source_def Let_def split: sum.splits if_splits)
  with own_download [OF s(3,2)] s(1,4) show ?thesis by auto
qed


section \<open>Order and recovery\<close>

lemma fetch_validated_finish [simp]: "fetch_validated (w\<lparr>hw_finish := g\<rparr>) = fetch_validated w"
  by (intro ext) (simp add: fetch_validated_def)

lemma fetch_finish [simp]:
  "fetch_segment (w\<lparr>hw_finish := g\<rparr>) = fetch_segment w" "fetch_m3u8_source (w\<lparr>hw_finish := g\<rparr>) = fetch_m3u8_source w"
  "fetch_init (w\<lparr>hw_finish := g\<rparr>) = fetch_init w"
  by (intro ext; simp add: fetch_segment_def fetch_m3u8_source_def fetch_init_def split: sum.split option.split)+

lemma audio_via_relay_finish [simp]: "audio_via_relay (w\<lparr>hw_finish := g\<rparr>) = audio_via_relay w"
  by (simp add: audio_via_relay_def)

lemma batch_finish:
  assumes "fetch_segment_batch w turn urls (pending results) results = (r1, f1)"
    "fetch_segment_batch (w\<lparr>hw_finish := g\<rparr>) turn urls (pending results) results = (r2, f2)"
  shows "r1 = r2" "mset f1 = mset f2"
  using assms unfolding fetch_segment_batch_pending fetch_finish by (auto simp: mset_filter)

lemma hls_rounds_finish: "hls_rounds (w\<lparr>hw_finish := g\<rparr>) urls results used = hls_rounds w urls results used"
proof (induction w urls results used rule: hls_rounds.induct)
  case (1 w urls results used)
  obtain r1 f1 where b1: "fetch_segment_batch w used urls (pending results) results = (r1, f1)" by force
  obtain r2 f2 where b2: "fetch_segment_batch (w\<lparr>hw_finish := g\<rparr>) used urls (pending results) results = (r2, f2)" by force
  have same: "r2 = r1" "length f2 = length f1" "f2 = [] \<longleftrightarrow> f1 = []"
    using batch_finish [OF b1 b2] by (auto dest: mset_eq_length)
  show ?case
  proof (cases "pending results = [] \<or> f1 = []")
    case True
    then show ?thesis
      using "1.IH"(1) [OF _ b1 [symmetric] refl] b1 b2 same
      by (auto simp: hls_rounds.simps [of _ urls results used])
  next
    case False
    then show ?thesis
      using "1.IH"(2) [OF _ b1 [symmetric] refl] b1 b2 same
      by (auto simp: hls_rounds.simps [of _ urls results used] split: option.splits sum.splits)
  qed
qed

text \<open>
  C22. The order in which concurrent fetches finish is not seen: with the same answers from the network, a
  download returns the same bytes or the same error whatever the order in which the segments of each
  round complete.
\<close>

theorem finish_order_is_not_seen:
  "download_hls (w\<lparr>hw_finish := g\<rparr>) m3u8_url mime_type hs = download_hls w m3u8_url mime_type hs"
  unfolding download_hls_def playlist_download_def fetch_finish audio_via_relay_finish hls_rounds_finish by simp

definition fetchable_by :: "hls_world \<Rightarrow> str list \<Rightarrow> nat \<Rightarrow> nat \<Rightarrow> bool" where
  "fetchable_by w urls from i \<longleftrightarrow> (\<exists>turn. from \<le> turn \<and> turn \<le> MAX_M3U8_REFRESH \<and> \<not> isl (fetch_segment w turn (links_of w urls turn) i))"

lemma hls_rounds_complete:
  assumes "segment_urls = links_of w urls used" "hw_refresh w = Some refresher"
    "\<forall>turn < MAX_M3U8_REFRESH. \<exists>x fresh. refresher turn = Inr (x, fresh) \<and> length fresh = length urls"
    "length segment_urls = length urls" "\<forall>i < length results. results ! i = None \<longrightarrow> fetchable_by w urls used i"
  shows "\<exists>out. hls_rounds w segment_urls results used = Inr out"
  using assms
proof (induction w segment_urls results used rule: hls_rounds.induct)
  case (1 w segment_urls results used)
  obtain results' failed where b: "fetch_segment_batch w used segment_urls (pending results) results = (results', failed)" by force
  note unfold = hls_rounds.simps [of w segment_urls results used]
  show ?case
  proof (cases "pending results = [] \<or> failed = []")
    case True
    then show ?thesis
      using b nothing_failed [of w used segment_urls results results']
      by (auto simp: unfold hls_rounds.simps [of w segment_urls results' used])
  next
    case False
    have later: "fetchable_by w urls (Suc used) i" if "i \<in> set failed" for i
    proof -
      have i: "i < length results" "results ! i = None" "isl (fetch_segment w used (links_of w urls used) i)"
        using that "1.prems"(1) unfolding batch_nth(3) [OF b] by auto
      with "1.prems"(5) obtain turn where "used \<le> turn" "turn \<le> MAX_M3U8_REFRESH" "\<not> isl (fetch_segment w turn (links_of w urls turn) i)"
        unfolding fetchable_by_def by blast
      moreover from this i(3) have "turn \<noteq> used" by blast
      ultimately show ?thesis unfolding fetchable_by_def by (metis Suc_leI le_neq_implies_less)
    qed
    have open_ones: "\<forall>i < length results'. results' ! i = None \<longrightarrow> fetchable_by w urls (Suc used) i"
      using later batch_results(2) [OF b] batch_nth(1) [OF b] by simp
    have "\<exists>i. i \<in> set failed" using False by (cases failed) auto
    then have used: "used < MAX_M3U8_REFRESH" using later unfolding fetchable_by_def by (meson Suc_le_lessD order_less_le_trans)
    then obtain x fresh where f: "refresher used = Inr (x, fresh)" "length fresh = length urls" using "1.prems"(3) by blast
    have "fresh = links_of w urls (Suc used)" using f "1.prems"(2) by (simp add: links_of_def)
    then show ?thesis
      using "1.IH"(2) [OF _ b [symmetric] refl _ "1.prems"(2) _ f(1) refl] False b f used open_ones "1.prems"(2-4)
      by (simp add: unfold)
  qed
qed

text \<open>
  C21. A failed segment is fetched again until it is there: when the playlist can be resolved afresh and keeps its
  number of segments, the rounds end with every segment exactly when each of them can be fetched in one
  of the three rounds. A segment that fails in all three is an error, never a gap.
\<close>

theorem segments_recover:
  assumes "hw_refresh w = Some refresher"
    "\<forall>turn < MAX_M3U8_REFRESH. \<exists>x fresh. refresher turn = Inr (x, fresh) \<and> length fresh = length urls"
  shows "(\<exists>out. hls_rounds w urls (replicate (length urls) None) 0 = Inr out) \<longleftrightarrow> (\<forall>i < length urls. fetchable_by w urls 0 i)"
proof
  assume "\<exists>out. hls_rounds w urls (replicate (length urls) None) 0 = Inr out"
  then obtain out where "hls_rounds w urls (replicate (length urls) None) 0 = Inr out" ..
  from hls_rounds_sound [OF this, of urls]
  have got: "\<exists>data. from_turns w urls 2 i data" if "i < length urls" for i using that by (auto simp: links_of_def)
  show "\<forall>i < length urls. fetchable_by w urls 0 i"
  proof (intro allI impI)
    fix i assume "i < length urls"
    then obtain data turn where "turn \<le> 2" "fetch_segment w turn (links_of w urls turn) i = Inr data"
      using got unfolding from_turns_def by blast
    then show "fetchable_by w urls 0 i" unfolding fetchable_by_def MAX_M3U8_REFRESH_def by (intro exI [of _ turn]) simp
  qed
next
  assume "\<forall>i < length urls. fetchable_by w urls 0 i"
  then show "\<exists>out. hls_rounds w urls (replicate (length urls) None) 0 = Inr out"
    by (intro hls_rounds_complete [where urls = urls, OF _ assms]) (simp_all add: links_of_def)
qed

text \<open>A world in which a playlist of one segment fails once and is resolved afresh.\<close>

definition site :: "str \<Rightarrow> parsed_url" where
  "site t = \<lparr>pu_scheme = lit ''https'', pu_username = [], pu_password = None, pu_host = Some (Domain (lit ''a.io'')), pu_text = t\<rparr>"

definition sample_world :: hls_world where
  "sample_world = \<lparr>hw_parse = (\<lambda>t. Some (site t)), hw_join = (\<lambda>base t. Some (site t)), hw_b64 = id,
     hw_net = (\<lambda>call. witness_net\<lparr>nt_http := (\<lambda>req attempt.
       case call of
         Playlist_Call \<Rightarrow> Http_Answer 200 [] (Inr (lit ''#EXTM3U'' @ 10 # lit ''s''))
       | Segment_Call 0 _ \<Rightarrow> Http_Answer 404 [] (Inr [])
       | _ \<Rightarrow> Http_Answer 200 [] (Inr [7]))\<rparr>),
     hw_finish = (\<lambda>_ i. i), hw_relayed = None, hw_refresh = Some (\<lambda>_. Inr (None, [lit ''t''])),
     hw_proxy_url = [], hw_direct_only = True\<rparr>"

lemma sample_text: "from_utf8_lossy (lit ''#EXTM3U'' @ 10 # lit ''s'') = lit ''#EXTM3U'' @ 10 # lit ''s''"
  by (rule lossy_of_text) (simp add: from_utf8_Some scalar_def is_char_def as_bytes_def utf8_char_def lit_def)

lemma sample_fetch:
  "fetch_validated sample_world (Segment_Call 0 0) url hs is_valid_audio = Inl (status_text 404)"
  "fetch_validated sample_world (Segment_Call (Suc n) 0) url hs is_valid_audio = Inr [7]"
  "fetch_validated sample_world Playlist_Call url hs is_valid_m3u8 = Inr (lit ''#EXTM3U'' @ 10 # lit ''s'')"
proof -
  have "is_valid_m3u8 (lit ''#EXTM3U'' @ 10 # lit ''s'')"
    using sample_text by (simp add: is_valid_m3u8_def contains_text_def lit_def) (auto simp: starts_with_def intro!: exI [of _ 0])
  moreover have "is_valid_audio [7]" "\<not> is_retryable_status 404"
    by (simp_all add: is_valid_audio_def looks_like_error_doc_def trim_ascii_start_def is_ascii_whitespace_def is_retryable_status_def)
  ultimately show "fetch_validated sample_world (Segment_Call 0 0) url hs is_valid_audio = Inl (status_text 404)"
    "fetch_validated sample_world (Segment_Call (Suc n) 0) url hs is_valid_audio = Inr [7]"
    "fetch_validated sample_world Playlist_Call url hs is_valid_m3u8 = Inr (lit ''#EXTM3U'' @ 10 # lit ''s'')"
    by (simp_all add: fetch_validated_def sample_world_def fetch_direct_validated_def via_direct_def http_get_bytes_def
        MAX_RETRIES_def upt_conv_Cons Let_def)
qed

theorem segments_recover_witness:
  "\<exists>out. hls_rounds sample_world [lit ''s''] (replicate 1 None) 0 = Inr out"
proof -
  have "hw_refresh sample_world = Some (\<lambda>_. Inr (None, [lit ''t'']))" by (simp add: sample_world_def)
  moreover have "fetchable_by sample_world [lit ''s''] 0 0"
    unfolding fetchable_by_def by (intro exI [of _ "Suc 0"]) (simp add: fetch_segment_def sample_fetch MAX_M3U8_REFRESH_def)
  ultimately show ?thesis
    using segments_recover [of sample_world "\<lambda>_. Inr (None, [lit ''t''])" "[lit ''s'']"] by simp
qed

lemma sample_playlist:
  "parse_m3u8 (hw_parse sample_world) (hw_join sample_world) (lit ''#EXTM3U'' @ 10 # lit ''s'') (lit ''m'') = (None, [lit ''s''])"
proof -
  have "outside (Domain (lit ''a.io''))"
    by (simp add: outside_def names_our_own_network_def LOCAL_SUFFIXES_def ends_with_def starts_with_def lit_def
        to_ascii_lowercase_def is_ascii_uppercase_def)
  then have pub: "public_media (\<lambda>t. Some (site t)) t = Some (site t)" if "str_len t \<le> 4096" for t
    using that by (simp add: public_media_def reachable_url_def site_def MAX_URL_LEN_def)
  have t: "pu_text (site t) = t" for t by (simp add: site_def)
  show ?thesis
    by (simp add: sample_world_def parse_m3u8_def pub t resolve_url_def rust_lines_def MAP_TAG_def lit_def
        trim_def trim_start_def trim_end_def is_whitespace_def strip_suffix_def strip_prefix_def starts_with_def ends_with_def
        str_len_def utf8_len_def)
qed


end
