(* ===== verification/Spec2Isabelle.thy ===== *)
theory Spec2Isabelle
  imports Room_Runs Playlist_Rules Byte_Range Stream_Ticket Channel_Health Write_Pause Admission_Rules
    Remote_Rules Room_Diff Scrub_Rules Single_Flight Hls_Download
begin

text \<open>
  \<^bold>\<open>A verification development of the SoundCloud backend.\<close>

  \<^bold>\<open>The program.\<close> The backend is a set of Rust services under \<open>src/\<close>. The API (\<open>src/api\<close>) serves
  clients: listening rooms kept in Redis, playlists whose edits go through a journal in Postgres,
  voice commands relayed to the devices of a user through the message broker, and an admission
  check in front of its public endpoints. The jobs service (\<open>src/jobs\<close>) reconciles playlists with
  SoundCloud and writes queued changes there. The streaming service (\<open>src/streaming\<close>) fetches audio,
  directly, through a proxy or through a relay on the machines of users; it and the storage service
  hand audio out against tickets and byte ranges. Libraries under \<open>src/utils\<close> are shared by them.

  The parts meet as follows. A change of a room made by the rooms service is told to its chat. The
  operations that the API derives from a playlist edit are written to the journal, read back by the
  jobs service and replayed onto the playlist it observed. The API issues tickets and the streaming
  service verifies them. Requests from devices and to devices of a user meet in the buckets of the
  broker. What a service logs passes through the scrubber of \<open>utils/redact\<close>.

  \<^bold>\<open>Ground.\<close>
  \<^item> \<open>Prelude\<close>: \<open>Result\<close> and \<open>?\<close>, list operations of the Rust library, the locales \<open>round_trip\<close> and
    \<open>canonical_round_trip\<close>.
  \<^item> \<open>Rust_Str\<close>, \<open>Bytes\<close>, \<open>Ip_Addr\<close>: strings as lists of scalar values with their order, trimming and
    decimal parsing; UTF-8 and big-endian bytes; addresses and their parser. Each codec is an
    interpretation of a round trip.
  \<^item> \<open>Effects\<close>: asynchronous code as trees of atomic actions. \<open>run\<close> executes one program alone,
    \<open>exec\<close> runs it among interfering steps, \<open>reachable\<close> runs a growing pool of programs. A
    command may fail before it reaches its server, or take effect and lose its answer. \<open>safe\<close> and
    \<open>assured\<close> are two rely-guarantee rules, proved sound for \<open>exec\<close> and \<open>reachable\<close>.
  \<^item> \<open>Redis_Keys\<close>, \<open>Kv_Bucket\<close>: keys with deadlines, sorted sets and counters of Redis; a bucket of the
    broker, whose first write wins for as long as the bucket keeps it.
  \<^item> \<open>App_Error\<close>: the error type of \<open>api/src/error.rs\<close>, so that every early return is a value.

  \<^bold>\<open>Rooms\<close> (\<open>api/src/modules/rooms\<close>).
  \<^item> \<open>Room_Model\<close>, \<open>Room_Ops\<close>, \<open>Room_Title\<close>, \<open>Room_Listing\<close>: \<open>model.rs\<close> and \<open>model/*.rs\<close>, \<open>listing.rs\<close>,
    \<open>service/view.rs\<close> and \<open>service/preview.rs\<close>. The record \<open>room\<close> has the fields of \<open>struct Room\<close>; a
    method on \<open>&mut self\<close> returns the changed room.
  \<^item> \<open>Room_Wf\<close>: the invariant \<open>room_wf\<close>, kept by every operation.
  \<^item> \<open>Room_World\<close>, \<open>Room_Store\<close>, \<open>Room_Service\<close>: the Redis keys, caches and clocks as one record;
    \<open>store.rs\<close>, \<open>store/cas.rs\<close>, \<open>directory.rs\<close> with their Lua scripts as atomic commands;
    \<open>service.rs\<close>, \<open>service/*.rs\<close>, \<open>public.rs\<close> as programs.
  \<^item> \<open>Room_Safety\<close>, \<open>Room_Pool\<close>, \<open>Room_Runs\<close>: the locale \<open>room_change\<close> is what a compare-and-set asks of
    its closure, and each closure of the service interprets it. With it every operation keeps the
    stored rooms well-formed, versions only grow, a successful update is atomic, and the effect of
    an operation that runs alone is computed.
  \<^item> \<open>Room_Rules\<close>: who becomes host, who may kick, ban, mute, enter, play and set what.
  \<^item> \<open>Room_Diff\<close>: \<open>chat/rooms/diff.rs\<close>, the rows of \<open>system.rs\<close> and the decision of \<open>bridge.rs\<close>; the
    rows of a change are enough to follow it.

  \<^bold>\<open>Playlists\<close> (\<open>api/src/modules/playlists\<close>, \<open>jobs/src/handlers/playlist_observe\<close>).
  \<^item> \<open>Entity_Ref\<close>: identifiers of tracks and their spellings (\<open>utils/entity-ref\<close>).
  \<^item> \<open>Playlist_Edit\<close>, \<open>Playlist_Journal\<close>: \<open>edit.rs\<close> and \<open>journal.rs\<close>, from the request to the rows of the
    journal. The locale \<open>track_editor\<close> holds what API and reducer have in common on lists of tracks.
  \<^item> \<open>Playlist_Reduce\<close>, \<open>Playlist_Rules\<close>: \<open>reduce.rs\<close>, \<open>classification.rs\<close>, \<open>fingerprint.rs\<close> and the
    decisions of \<open>repository.rs\<close>; a replay gives the list the API showed, loses nothing, and moves
    the watermark only over settled rows.

  \<^bold>\<open>Public admission\<close> (\<open>api/src/common/admission.rs\<close>).
  \<^item> \<open>Public_Admission\<close>: the Lua script with its two counters, \<open>check\<close> with its permits, the address
    of a client, its identities, the refusals and the middleware.
  \<^item> \<open>Admission_Rules\<close>: the locale \<open>window_counter\<close>, interpreted by the global counter and by the counter
    of each client, bounds what passes in a window; a refusal is honest; every failure refuses; a
    forged header does not change the address.

  \<^bold>\<open>Remote control\<close> (\<open>api/src/modules/remote\<close>).
  \<^item> \<open>Remote_Devices\<close>: \<open>devices.rs\<close> and \<open>waits.rs\<close>, with the invariants of both lists.
  \<^item> \<open>Remote_Hub\<close>: the operations of \<open>store.rs\<close> and \<open>hub.rs\<close> as programs over the stream and the buckets.
  \<^item> \<open>Remote_Rules\<close>: with any number of these programs at work, a command goes to one device, the first
    reply stands, and a wait scans a bounded number of times by itself.

  \<^bold>\<open>Streaming\<close> (\<open>streaming/src/stream\<close>).
  \<^item> \<open>Media_Target\<close>: \<open>target.rs\<close> and the reading of playlists in \<open>hls.rs\<close>. The guard on hosts equals a list
    of reserved networks, masks on 16-bit words included, and a playlist names nothing behind it.
  \<^item> \<open>Egress_Fetch\<close>: \<open>proxy.rs\<close> and the region tag of \<open>egress.rs\<close>. A fetch yields the requests it sent and its
    result. Accounts stay off the relay; the locale \<open>validated_fetch\<close>, interpreted by both ways of
    fetching, is what a client may rely on: the body was answered to a request and is valid.
  \<^item> \<open>Hls_Download\<close>: \<open>validate.rs\<close> and the downloads of \<open>hls.rs\<close> over these fetches. A download is its playlist
    piece by piece, does not depend on the order in which fetches finish, and recovers segments
    that fail; an encrypted container is recognised by its \<open>moov\<close> box.

  \<^bold>\<open>Other parts.\<close>
  \<^item> \<open>Log_Scrub\<close>, \<open>Scrub_Rules\<close> (\<open>utils/redact/src/scrub.rs\<close>, \<open>lib.rs\<close>): what a log line looks like after
    masking; it does not depend on the secrets in it, and addresses lose query and credentials. Two
    theorems show where the code falls short: a slice that panics and a secret that is kept.
  \<^item> \<open>Single_Flight\<close> (\<open>api/src/cache/single_flight.rs\<close>): overlapping loads of a key as a step relation over
    tasks that may fail or be cut off; one load runs at a time and its value is not stale.
  \<^item> \<open>Byte_Range\<close> (\<open>storage/src/byte_range.rs\<close>), \<open>Stream_Ticket\<close> (\<open>utils/stream-ticket/src/lib.rs\<close>): headers
    and tickets are read back as written, and what an accepted one means.
  \<^item> \<open>Channel_Health\<close> (\<open>utils/sc-transport/src/channel_health.rs\<close>, \<open>egress_health.rs\<close>), \<open>Write_Pause\<close>
    (\<open>jobs/src/handlers/sync_queue/write_pause.rs\<close>): when a breaker opens and closes, how long
    writes are held back.

  \<^bold>\<open>Bounds.\<close> Loops with a bound in the code have that bound here: \<open>CAS_ATTEMPTS\<close>, \<open>CODE_ATTEMPTS\<close>,
  \<open>LEAVE_ATTEMPTS\<close>, \<open>DEVICE_WRITE_TRIES\<close>, \<open>REMOTE_SCAN_LIMIT\<close>. Two loops end when the world says so, the
  wait for a new version of a room (\<open>wait_loop\<close>) and the wait of a device (\<open>rescan\<close>); they take the
  number of wake-ups as an argument, and what is shown holds for every number. \<open>wait_loop\<close> answers
  \<open>None\<close> when the wake-ups are used up and the caller still waits; for a device the end of the
  wake-ups is the moment it is replaced, unsubscribed or out of time. \<open>rechecks\<close> is the schedule of
  the wake-ups a waiting device sets itself, defined by recursion up to the deadline with its
  termination proved. The retries of a fetch are the bounds \<open>MAX_RETRIES\<close> and \<open>RELAY_MAX_RETRIES\<close>; the rounds
  of a download (\<open>hls_rounds\<close>) end by \<open>MAX_M3U8_REFRESH\<close> and by the segments that are left. The other
  recursions are structural, apart from those that shorten their input: \<open>from_utf8\<close>, \<open>from_utf8_lossy\<close>,
  \<open>encrypted_from\<close>, \<open>scrub_words\<close> and the pair \<open>word_text\<close>, \<open>core_text\<close>.

  Numbers of \<open>u64\<close>, \<open>u32\<close> and \<open>i64\<close> are \<open>nat\<close> and \<open>int\<close>, the segments of an IPv6 address are words; saturation, checked arithmetic and range checks
  are written out where the source has them.

  \<^bold>\<open>Parameters.\<close> SHA-256, name-based identifiers, the AEAD cipher, Base64, URL parsing, sizes of
  serialised JSON, membership in a proxy network, the timestamp of an identifier, the Unicode test for
  letters and digits, the answers of the network, the order in which fetches finish, and the answers
  of the journal's queries come from code outside the repository or from Postgres. They are arguments;
  what a property needs of them is a hypothesis (\<open>good_key\<close>, \<open>good_codec\<close>, injectivity of a digest on
  short inputs), met by concrete functions in the witnesses.

  \<^bold>\<open>Not modelled.\<close> SQL statements and migrations, HTTP routing and serialisation, metrics and logs,
  the clients of SoundCloud and of external catalogues, the choice of a source for a track and the
  transcoding of audio, the Python worker and its models, deployment files. Most API modules and job handlers consist of such
  code: their decisions are taken inside Postgres or by the services they call. Of the parts above,
  these are left out: the page transfer of rooms, which moves opaque dumps; the fan-out of room
  notices, where the model keeps the notices sent; the opening of the broker's streams and buckets,
  where the model lets the world open and close them; linking and confirming of voice assistants;
  the chat apart from its room rows; the relay's own methods, whose answers are opaque JSON, and the
  memory of regions in \<open>egress.rs\<close>; the writer around the log; \<open>SingleFlight::get_or_load\<close>; the membership status and projections of playlists. Instants
  near the end of their range, where the standard library panics, are not considered.
\<close>

end
